(* ===== verification/Kernel_Prelude.thy ===== *)
theory Kernel_Prelude
  imports Main "HOL-Library.Word"
begin

text \<open>
  Shared vocabulary of the development: the C integer types of
  \<open>include/sys/defs.h\<close>, the reasons for which the kernel stops making progress,
  the result type of fallible operations with its sequencing operator, and generic
  lemmas on words and lists that the components share.
\<close>

unbundle bit_operations_syntax

section \<open>Types\<close>

text \<open>
  \<open>uint8_t\<close>, \<open>uint32_t\<close> and \<open>uint64_t\<close> are words of that width, so that their
  arithmetic wraps as in C. A C \<open>int\<close> counter is a HOL \<open>int\<close>: overflow of a
  signed integer is undefined in C, and a conversion from \<open>uint64_t\<close> to \<open>int\<close>
  is written out with \<open>to_int32\<close>.
\<close>

type_synonym u8 = "8 word"
type_synonym u32 = "32 word"
type_synonym u64 = "64 word"

definition to_int32 :: "u64 \<Rightarrow> int" where
  "to_int32 w = sint (ucast w :: u32)"

text \<open>
  The ways in which a kernel operation does not return. The kernel's own error
  handlers (\<open>sys/error.c\<close>) print a message and spin; the remaining ones are
  accesses that C leaves undefined or that the processor answers with a fault.
\<close>

datatype stop =
    OutOfMemory               \<comment> \<open>\<open>ThrowOutOfMemoryError\<close>\<close>
  | SegmentationFault u64     \<comment> \<open>\<open>ThrowSegmentationFault\<close>\<close>
  | SecurityError u64         \<comment> \<open>\<open>ThrowSecurityError\<close>\<close>
  | NoPhysicalPage u64        \<comment> \<open>the spin loop of \<open>pagemama\<close>\<close>
  | QueueFull                 \<comment> \<open>the spin loop of \<open>syscall_fork\<close>\<close>
  | OutOfBounds               \<comment> \<open>access outside a static array\<close>
  | PageFault u64             \<comment> \<open>access to a page that is not present\<close>
  | NullPointer               \<comment> \<open>access through a null pointer\<close>
  | IntOverflow               \<comment> \<open>arithmetic of the type \<open>int\<close> that leaves its range, undefined in C\<close>
  | Unterminated              \<comment> \<open>a loop that does not end\<close>

type_synonym 'a res = "stop + 'a"

definition rbind :: "'a res \<Rightarrow> ('a \<Rightarrow> 'b res) \<Rightarrow> 'b res" where
  "rbind r f = (case r of Inl e \<Rightarrow> Inl e | Inr x \<Rightarrow> f x)"

fun rfold :: "('i \<Rightarrow> 's \<Rightarrow> 's res) \<Rightarrow> 'i list \<Rightarrow> 's \<Rightarrow> 's res" where
  "rfold f [] s = Inr s"
| "rfold f (i # is) s = rbind (f i s) (rfold f is)"

lemma rbind_simps [simp]:
  "rbind (Inl e) f = Inl e"
  "rbind (Inr x) f = f x"
  by (simp_all add: rbind_def)

lemma rbind_Inr_right [simp]: "rbind r Inr = r"
  by (cases r) simp_all

lemma rbind_assoc: "rbind (rbind r f) g = rbind r (\<lambda>x. rbind (f x) g)"
  by (cases r) simp_all

lemma rbind_Inr_iff: "rbind r f = Inr y \<longleftrightarrow> (\<exists>x. r = Inr x \<and> f x = Inr y)"
  by (cases r) auto

lemma rbind_InrE:
  assumes "rbind r f = Inr y"
  obtains x where "r = Inr x" and "f x = Inr y"
  using assms by (auto simp: rbind_Inr_iff)

lemma rfold_append [simp]: "rfold f (xs @ ys) s = rbind (rfold f xs s) (rfold f ys)"
  by (induction xs arbitrary: s) (auto simp: rbind_def split: sum.splits)

text \<open>A loop whose body always succeeds on states with the invariant.\<close>

lemma rfold_total:
  assumes "\<And>i s. i \<in> set is \<Longrightarrow> P s \<Longrightarrow> \<exists>s'. f i s = Inr s' \<and> P s'" and "P s"
  shows "\<exists>s'. rfold f is s = Inr s' \<and> P s'"
  using assms
proof (induction "is" arbitrary: s)
  case Nil
  then show ?case by simp
next
  case (Cons i "is")
  obtain s1 where s1: "f i s = Inr s1" "P s1"
    using Cons.prems(1)[of i s] Cons.prems(2) by auto
  have "\<exists>s'. rfold f is s1 = Inr s' \<and> P s'"
    by (rule Cons.IH) (use Cons.prems(1) s1(2) in auto)
  with s1 show ?case by simp
qed


section \<open>Words\<close>

lemma len64: "LENGTH(64) = 64"
  by simp

lemma unat_of_nat_small: "n < 2 ^ LENGTH('a) \<Longrightarrow> unat (of_nat n :: 'a::len word) = n"
  by (simp add: unat_of_nat)

lemma word_eq_of_nat: "unat (x :: 'a::len word) = n \<Longrightarrow> x = of_nat n"
  by (auto simp: word_unat_eq_iff)

lemma unat_add_small:
  "unat (x :: 'a::len word) + unat y < 2 ^ LENGTH('a) \<Longrightarrow> unat (x + y) = unat x + unat y"
  by (simp add: unat_word_ariths)


lemma to_int32_small: "unat w < 2 ^ 31 \<Longrightarrow> to_int32 w = int (unat w)"
proof -
  assume "unat w < 2 ^ 31"
  then have "int (unat w) < int (2 ^ 31)" by (simp only: of_nat_less_iff)
  then have "uint w < 2 ^ 31" by (simp only: of_nat_unat of_nat_power of_nat_numeral)
  then have "signed_take_bit 31 (uint w) = uint w"
    by (intro signed_take_bit_int_eq_self) (auto intro: order.trans [where b = 0])
  then show ?thesis by (simp add: to_int32_def signed_ucast_eq)
qed


lemma to_int32_of_nat: "n < 2 ^ 31 \<Longrightarrow> to_int32 (of_nat n) = int n"
proof -
  assume "n < 2 ^ 31"
  then have "unat (of_nat n :: u64) = n" by (intro unat_of_nat_small) simp
  then show ?thesis using to_int32_small[of "of_nat n"] \<open>n < 2 ^ 31\<close> by (simp only:)
qed

end
