(* ===== verification/Phys_Mem.thy ===== *)
theory Phys_Mem
  imports Kernel_Prelude
begin

text \<open>
  The physical page allocator of \<open>sys/phy_mem_manager.c\<close>: a free list threaded through
  the static array \<open>p_list\<close> by block index, a counter of free blocks and a reference
  count per block. The abstraction of the allocator state is the list of free blocks,
  read off \<open>p_list\<close> from \<open>head_freelist\<close>; \<open>get_page\<close> pops it and \<open>free_page\<close>
  pushes to it.
\<close>

section \<open>State\<close>

record freelist_v2 =
  nxt :: int
  ref_count :: int

record pmm =
  totalblockcount :: int
  p_list :: "int \<Rightarrow> freelist_v2"
  head_freelist :: int
  lastfreeblock :: int
  currblock :: int
  FREEMEMORY :: u64

abbreviation PAGE_SIZE :: u64 where "PAGE_SIZE \<equiv> 4096"

text \<open>\<open>static struct freelist_v2 p_list[50000]\<close>: indices outside the array are refused.\<close>

definition plist_ok :: "int \<Rightarrow> bool" where
  "plist_ok i \<longleftrightarrow> 0 \<le> i \<and> i < 50000"

definition pmm_boot :: pmm where
  "pmm_boot = \<lparr>totalblockcount = 0, p_list = (\<lambda>_. \<lparr>nxt = 0, ref_count = 0\<rparr>),
     head_freelist = 0, lastfreeblock = 0, currblock = 0, FREEMEMORY = 0\<rparr>"

section \<open>Operations\<close>

text \<open>One block is appended to the free list: the body of the loop of \<open>freelist\<close>.\<close>

definition link_block :: "'a pmm_scheme \<Rightarrow> 'a pmm_scheme res" where
  "link_block s =
     (if lastfreeblock s = 0 then
        Inr (s\<lparr>lastfreeblock := currblock s, head_freelist := currblock s,
               currblock := currblock s + 1\<rparr>)
      else if \<not> plist_ok (lastfreeblock s) then Inl OutOfBounds
      else
        Inr (s\<lparr>p_list := (p_list s)(lastfreeblock s := \<lparr>nxt = currblock s, ref_count = 0\<rparr>),
               lastfreeblock := currblock s,
               totalblockcount := totalblockcount s + 1,
               currblock := currblock s + 1\<rparr>))"

text \<open>\<open>None\<close>: the loop does not end (the address wraps around below \<open>last_addr\<close>).\<close>

partial_function (option) freelist_loop ::
    "u64 \<Rightarrow> u64 \<Rightarrow> u64 \<Rightarrow> 'a pmm_scheme \<Rightarrow> 'a pmm_scheme res option" where
  "freelist_loop base last_addr physfree s =
     (if base < last_addr then
        (if base mod 4096 \<noteq> 0 then
           freelist_loop ((base - base mod 4096) + 4096) last_addr physfree s
         else if base \<le> physfree + 1024 * 1024 then
           freelist_loop (base + 4096) last_addr physfree (s\<lparr>FREEMEMORY := base + 4096\<rparr>)
         else (case link_block s of
             Inl e \<Rightarrow> Some (Inl e)
           | Inr s' \<Rightarrow> freelist_loop (base + 4096) last_addr physfree s'))
      else Some (Inr s))"

definition freelist :: "u64 \<Rightarrow> u64 \<Rightarrow> u64 \<Rightarrow> 'a pmm_scheme \<Rightarrow> 'a pmm_scheme res option" where
  "freelist base len physfree s =
     (if base = 0 then Some (Inr s) else freelist_loop base (base + len) physfree s)"

definition get_page :: "'a pmm_scheme \<Rightarrow> (u64 \<times> 'a pmm_scheme) res" where
  "get_page s =
     (if totalblockcount s < 5 then Inl OutOfMemory
      else
        (let s1 = (if head_freelist s = 0
                   then s\<lparr>head_freelist := nxt (p_list s 0),
                          totalblockcount := totalblockcount s - 1\<rparr>
                   else s);
             freeblock = head_freelist s1
         in if \<not> plist_ok freeblock then Inl OutOfBounds
            else
              Inr (FREEMEMORY s1 + of_int (freeblock * 4096),
                   s1\<lparr>head_freelist := nxt (p_list s1 freeblock),
                      totalblockcount := totalblockcount s1 - 1,
                      p_list := (p_list s1)(freeblock := (p_list s1 freeblock)
                        \<lparr>ref_count := ref_count (p_list s1 freeblock) + 1\<rparr>)\<rparr>)))"

text \<open>
  The index of the block that holds a physical address, as the three reference count
  functions and \<open>free_page\<close> compute it: the difference of the page numbers, converted
  to \<open>int\<close>.
\<close>

definition blockindex :: "'a pmm_scheme \<Rightarrow> u64 \<Rightarrow> int" where
  "blockindex s paddr =
     to_int32 (drop_bit 12 (push_bit 12 (drop_bit 12 paddr))
               - drop_bit 12 (push_bit 12 (drop_bit 12 (FREEMEMORY s))))"

definition get_reference_count :: "u64 \<Rightarrow> 'a pmm_scheme \<Rightarrow> int res" where
  "get_reference_count paddr s =
     (let b = blockindex s paddr
      in if plist_ok b then Inr (ref_count (p_list s b)) else Inl OutOfBounds)"

definition increment_reference_count :: "u64 \<Rightarrow> 'a pmm_scheme \<Rightarrow> 'a pmm_scheme res" where
  "increment_reference_count paddr s =
     (let b = blockindex s paddr
      in if plist_ok b then
           Inr (s\<lparr>p_list := (p_list s)(b := (p_list s b)
                    \<lparr>ref_count := ref_count (p_list s b) + 1\<rparr>)\<rparr>)
         else Inl OutOfBounds)"

definition decrement_reference_count :: "u64 \<Rightarrow> 'a pmm_scheme \<Rightarrow> 'a pmm_scheme res" where
  "decrement_reference_count paddr s =
     (let b = blockindex s paddr
      in if \<not> plist_ok b then Inl OutOfBounds
         else if ref_count (p_list s b) < 1 then Inr s
         else
           Inr (s\<lparr>p_list := (p_list s)(b := (p_list s b)
                    \<lparr>ref_count := ref_count (p_list s b) - 1\<rparr>)\<rparr>))"

definition free_page :: "u64 \<Rightarrow> 'a pmm_scheme \<Rightarrow> 'a pmm_scheme res" where
  "free_page paddr s =
     (let b = blockindex s paddr
      in if \<not> plist_ok b then Inl OutOfBounds
         else
           Inr (s\<lparr>p_list := (p_list s)(b := (p_list s b)\<lparr>nxt := head_freelist s\<rparr>),
                  head_freelist := b,
                  totalblockcount := totalblockcount s + 1\<rparr>))"


section \<open>Abstraction: the list of free blocks\<close>

primrec walk :: "('i \<Rightarrow> 'i) \<Rightarrow> 'i \<Rightarrow> nat \<Rightarrow> 'i list" where
  "walk f h 0 = []"
| "walk f h (Suc n) = h # walk f (f h) n"

definition free_blocks :: "'a pmm_scheme \<Rightarrow> int list" where
  "free_blocks s = walk (\<lambda>i. nxt (p_list s i)) (head_freelist s) (nat (totalblockcount s + 1))"

definition page_addr :: "'a pmm_scheme \<Rightarrow> int \<Rightarrow> u64" where
  "page_addr s b = FREEMEMORY s + of_int (b * 4096)"

definition pool :: "'a pmm_scheme \<Rightarrow> u64 list" where
  "pool s = map (page_addr s) (free_blocks s)"

text \<open>
  The invariant: the free blocks are pairwise different, none is block 0 (which
  \<open>get_page\<close> steps over) or outside \<open>p_list\<close>, and the pages they stand for are page
  aligned, non-zero and below the physical address limit of \<open>2 ^ 52\<close> bytes.
\<close>

definition freemem_ok :: "u64 \<Rightarrow> bool" where
  "freemem_ok F \<longleftrightarrow> F mod 4096 = 0 \<and> 0 < unat F \<and> unat F + 50000 * 4096 < 2 ^ 52"

definition pmm_inv :: "'a pmm_scheme \<Rightarrow> bool" where
  "pmm_inv s \<longleftrightarrow> 0 \<le> totalblockcount s \<and> distinct (free_blocks s) \<and>
     set (free_blocks s) \<subseteq> {1..<50000} \<and> freemem_ok (FREEMEMORY s)"

lemma length_walk [simp]: "length (walk f h n) = n"
  by (induction n arbitrary: h) auto

lemma walk_upd: "u \<notin> set (walk f h n) \<Longrightarrow> walk (f(u := v)) h n = walk f h n"
  by (induction n arbitrary: h) auto

lemma walk_cong: "(\<And>i. i \<in> set (walk f h n) \<Longrightarrow> g i = f i) \<Longrightarrow> walk g h n = walk f h n"
  by (induction n arbitrary: h) auto

lemma nth_walk: "i < n \<Longrightarrow> walk f h n ! i = (f ^^ i) h"
proof (induction n arbitrary: h i)
  case (Suc n)
  then show ?case by (cases i) (auto simp: funpow_swap1)
qed simp

lemma length_free_blocks: "0 \<le> totalblockcount s \<Longrightarrow> length (free_blocks s) = nat (totalblockcount s + 1)"
  by (simp add: free_blocks_def)

subsection \<open>Addresses and block indices\<close>

lemma freemem_ok_dvd: "freemem_ok F \<Longrightarrow> 4096 dvd unat F"
proof -
  assume "freemem_ok F"
  then have "unat (F mod 4096) = 0" by (simp add: freemem_ok_def)
  then show ?thesis by (simp add: unat_mod dvd_eq_mod_eq_0)
qed

lemma unat_page_addr:
  assumes "freemem_ok (FREEMEMORY s)" and "0 \<le> b" and "b < 50000"
  shows "unat (page_addr s b) = unat (FREEMEMORY s) + nat b * 4096"
proof -
  have *: "unat (of_int (b * 4096) :: u64) = nat b * 4096"
  proof -
    obtain n where "b = int n" using assms(2) by (auto elim: nonneg_int_cases)
    then have "(of_int (b * 4096) :: u64) = of_nat (nat b * 4096)" by simp
    moreover have "nat b * 4096 < 2 ^ 64" using assms(3) by simp
    ultimately show ?thesis by (simp only: unat_of_nat_small len64)
  qed
  have "nat b < 50000" using assms(3) by simp
  then have "unat (FREEMEMORY s) + nat b * 4096 < 2 ^ 64"
    using assms(1) by (simp add: freemem_ok_def)
  with * show ?thesis
    by (simp add: page_addr_def unat_word_ariths)
qed

lemma page_addr_facts:
  assumes "freemem_ok (FREEMEMORY s)" and "0 \<le> b" and "b < 50000"
  shows page_addr_nonzero: "page_addr s b \<noteq> 0"
    and page_addr_aligned: "4096 dvd unat (page_addr s b)"
    and page_addr_limit: "unat (page_addr s b) + 4096 \<le> 2 ^ 52"
proof -
  note u = unat_page_addr[OF assms]
  show "page_addr s b \<noteq> 0" using u assms by (auto simp: freemem_ok_def)
  show "4096 dvd unat (page_addr s b)" using u freemem_ok_dvd[OF assms(1)] by simp
  show "unat (page_addr s b) + 4096 \<le> 2 ^ 52" using u assms by (auto simp: freemem_ok_def)
qed

lemma page_addr_inj:
  assumes "freemem_ok (FREEMEMORY s)" and "0 \<le> b" and "b < 50000" and "0 \<le> c" and "c < 50000"
  shows "page_addr s b = page_addr s c \<longleftrightarrow> b = c"
  using unat_page_addr[of s b] unat_page_addr[of s c] assms by auto

text \<open>The low twelve bits, the flags of a page table entry, do not matter to \<open>blockindex\<close>.\<close>

lemma shift_frame: "drop_bit 12 (push_bit 12 (drop_bit 12 (x :: u64))) = drop_bit 12 x"
  by (rule bit_word_eqI) (auto simp: bit_simps dest: bit_imp_le_length)

lemma unat_drop12: "unat (drop_bit 12 (x :: u64)) = unat x div 4096"
  by (simp add: drop_bit_eq_div unat_div)

lemma blockindex_page:
  assumes "freemem_ok (FREEMEMORY s)" and "0 \<le> b" and "b < 50000"
    and "drop_bit 12 x = drop_bit 12 (page_addr s b)"
  shows "blockindex s x = b"
proof -
  let ?F = "FREEMEMORY s"
  have u: "unat (page_addr s b) = unat ?F + nat b * 4096"
    by (rule unat_page_addr) (use assms in auto)
  have dF: "unat (drop_bit 12 ?F) = unat ?F div 4096"
    by (rule unat_drop12)
  have dx: "unat (drop_bit 12 x) = unat ?F div 4096 + nat b"
    using u freemem_ok_dvd[OF assms(1)]
    by (simp add: assms(4) unat_drop12)
  have le: "drop_bit 12 ?F \<le> drop_bit 12 x"
    by (simp add: word_le_nat_alt dF dx)
  have "unat (drop_bit 12 x - drop_bit 12 ?F) = nat b"
    by (simp add: unat_sub[OF le] dF dx)
  then have "to_int32 (drop_bit 12 x - drop_bit 12 ?F) = int (nat b)"
    using assms(3) by (subst to_int32_small) auto
  with assms(2) show ?thesis by (simp add: blockindex_def shift_frame)
qed


section \<open>The allocator refines a stack of pages\<close>

lemma free_blocks_Cons:
  assumes "0 \<le> totalblockcount s"
  shows "free_blocks s = head_freelist s #
    walk (\<lambda>i. nxt (p_list s i)) (nxt (p_list s (head_freelist s))) (nat (totalblockcount s))"
proof -
  have "nat (totalblockcount s + 1) = Suc (nat (totalblockcount s))"
    using assms by simp
  then show ?thesis by (simp add: free_blocks_def)
qed

lemma pmm_inv_head:
  assumes "pmm_inv s"
  shows "head_freelist s \<in> {1..<50000}"
  using assms free_blocks_Cons[of s] by (auto simp: pmm_inv_def)

text \<open>What \<open>get_page\<close> computes when the invariant holds and memory is not low.\<close>

definition after_get_page :: "'a pmm_scheme \<Rightarrow> 'a pmm_scheme" where
  "after_get_page s =
     s\<lparr>head_freelist := nxt (p_list s (head_freelist s)),
       totalblockcount := totalblockcount s - 1,
       p_list := (p_list s)(head_freelist s := (p_list s (head_freelist s))
         \<lparr>ref_count := ref_count (p_list s (head_freelist s)) + 1\<rparr>)\<rparr>"

lemma get_page_eq:
  assumes "pmm_inv s" and "5 \<le> totalblockcount s"
  shows "get_page s = Inr (page_addr s (head_freelist s), after_get_page s)"
  using assms(2) pmm_inv_head[OF assms(1)]
  by (simp add: get_page_def plist_ok_def page_addr_def after_get_page_def Let_def)

lemma get_page_Inr:
  assumes "pmm_inv s" and "get_page s = Inr (p, s')"
  shows "p = page_addr s (head_freelist s)" and "s' = after_get_page s"
    and "5 \<le> totalblockcount s"
proof -
  show t: "5 \<le> totalblockcount s"
    using assms(2) by (simp add: get_page_def split: if_splits)
  from get_page_eq[OF assms(1) t] assms(2)
  show "p = page_addr s (head_freelist s)" and "s' = after_get_page s" by auto
qed

lemma free_blocks_after_get_page:
  assumes "1 \<le> totalblockcount s"
  shows "free_blocks s = head_freelist s # free_blocks (after_get_page s)"
proof -
  have "walk (\<lambda>i. nxt (p_list (after_get_page s) i)) h n = walk (\<lambda>i. nxt (p_list s i)) h n" for h n
    by (rule walk_cong) (auto simp: after_get_page_def)
  then have "free_blocks (after_get_page s) =
      walk (\<lambda>i. nxt (p_list s i)) (nxt (p_list s (head_freelist s))) (nat (totalblockcount s))"
    unfolding free_blocks_def by (simp add: after_get_page_def)
  then show ?thesis using free_blocks_Cons[of s] assms by simp
qed

lemma after_get_page_simps [simp]:
  "FREEMEMORY (after_get_page s) = FREEMEMORY s"
  "page_addr (after_get_page s) = page_addr s"
  "totalblockcount (after_get_page s) = totalblockcount s - 1"
  by (simp_all add: after_get_page_def page_addr_def fun_eq_iff)

lemma pmm_inv_after_get_page:
  assumes "pmm_inv s" and "1 \<le> totalblockcount s"
  shows "pmm_inv (after_get_page s)"
  using assms free_blocks_after_get_page[OF assms(2)] by (auto simp: pmm_inv_def)

lemma free_page_Inr:
  assumes "free_page p s = Inr s'"
  shows "s' = s\<lparr>p_list := (p_list s)(blockindex s p := (p_list s (blockindex s p))
             \<lparr>nxt := head_freelist s\<rparr>),
           head_freelist := blockindex s p, totalblockcount := totalblockcount s + 1\<rparr>"
    and "plist_ok (blockindex s p)"
  using assms by (auto simp: free_page_def Let_def split: if_splits)

lemma free_blocks_free_page:
  assumes "pmm_inv s" and "free_page p s = Inr s'" and "blockindex s p \<notin> set (free_blocks s)"
  shows "free_blocks s' = blockindex s p # free_blocks s"
proof -
  let ?b = "blockindex s p" and ?n = "nat (totalblockcount s + 1)"
  let ?f = "\<lambda>i. nxt (p_list s i)"
  have s': "(\<lambda>i. nxt (p_list s' i)) = ?f(?b := head_freelist s)" "head_freelist s' = ?b"
      "nat (totalblockcount s' + 1) = Suc ?n"
    using free_page_Inr[OF assms(2)] assms(1) by (auto simp: fun_eq_iff pmm_inv_def)
  have "walk (?f(?b := head_freelist s)) (head_freelist s) ?n = free_blocks s"
    using assms(3) by (simp add: walk_upd free_blocks_def)
  then show ?thesis unfolding free_blocks_def[of s'] s' by simp
qed

lemma pmm_inv_free_page:
  assumes "pmm_inv s" and "free_page p s = Inr s'"
    and "blockindex s p \<notin> set (free_blocks s)" and "blockindex s p \<noteq> 0"
  shows "pmm_inv s'"
  using assms free_blocks_free_page[OF assms(1-3)] free_page_Inr[OF assms(2)]
  by (auto simp: pmm_inv_def plist_ok_def)

lemma inj_on_page_addr: "pmm_inv s \<Longrightarrow> inj_on (page_addr s) {1..<50000}"
  by (rule inj_onI, rule page_addr_inj[THEN iffD1]) (auto simp: pmm_inv_def)

lemma pool_distinct: "pmm_inv s \<Longrightarrow> distinct (pool s)"
  using inj_on_page_addr[of s] by (auto simp: pool_def pmm_inv_def distinct_map intro: inj_on_subset)

lemma blockindex_page_addr:
  assumes "pmm_inv s" and "b \<in> {1..<50000}"
  shows "blockindex s (page_addr s b) = b"
  using assms by (auto simp: pmm_inv_def intro: blockindex_page)

lemma pool_blockindex:
  assumes "pmm_inv s" and "b \<in> {1..<50000}"
  shows "page_addr s b \<in> set (pool s) \<longleftrightarrow> b \<in> set (free_blocks s)"
proof -
  have "set (free_blocks s) \<subseteq> {1..<50000}" using assms(1) by (simp add: pmm_inv_def)
  then show ?thesis
    using assms(2) inj_on_image_mem_iff[OF inj_on_page_addr[OF assms(1)]] by (simp add: pool_def)
qed

text \<open>A page the allocator manages: the address of one of its blocks.\<close>

definition managed :: "'a pmm_scheme \<Rightarrow> u64 \<Rightarrow> bool" where
  "managed s p \<longleftrightarrow> (\<exists>b \<in> {1..<50000}. p = page_addr s b)"

section \<open>The allocator as an interface\<close>

text \<open>
  What the paging code relies on: pages come out of a pool of pairwise different
  managed pages and go back to it, and no operation changes which pages are managed.
\<close>

locale page_allocator =
  fixes alloc :: "'s \<Rightarrow> (u64 \<times> 's) res"
    and release :: "u64 \<Rightarrow> 's \<Rightarrow> 's res"
    and avail :: "'s \<Rightarrow> u64 list"
    and mine :: "'s \<Rightarrow> u64 \<Rightarrow> bool"
    and good :: "'s \<Rightarrow> bool"
  assumes avail_distinct: "good s \<Longrightarrow> distinct (avail s)"
    and avail_mine: "good s \<Longrightarrow> p \<in> set (avail s) \<Longrightarrow> mine s p"
    and alloc_avail: "good s \<Longrightarrow> alloc s = Inr (p, s') \<Longrightarrow> avail s = p # avail s'"
    and alloc_good: "good s \<Longrightarrow> alloc s = Inr (p, s') \<Longrightarrow> good s'"
    and alloc_mine: "good s \<Longrightarrow> alloc s = Inr (p, s') \<Longrightarrow> mine s' = mine s"
    and release_ok: "good s \<Longrightarrow> mine s p \<Longrightarrow> p \<notin> set (avail s) \<Longrightarrow>
       \<exists>s'. release p s = Inr s' \<and> avail s' = p # avail s \<and> good s' \<and> mine s' = mine s"
begin

lemma alloc_fresh:
  assumes "good s" and "alloc s = Inr (p, s')"
  shows "p \<in> set (avail s)" and "p \<notin> set (avail s')" and "mine s p"
proof -
  have a: "avail s = p # avail s'" by (rule alloc_avail[OF assms])
  show "p \<in> set (avail s)" by (simp add: a)
  show "p \<notin> set (avail s')" using avail_distinct[OF assms(1)] a by simp
  show "mine s p" by (rule avail_mine[OF assms(1)]) (simp add: a)
qed

lemma alloc_twice_different:
  assumes "good s" and "alloc s = Inr (p, s1)" and "alloc s1 = Inr (q, s2)"
  shows "p \<noteq> q"
  using alloc_fresh[OF assms(1,2)] alloc_fresh(1)[OF alloc_good[OF assms(1,2)] assms(3)] by auto

lemma alloc_release:
  assumes "good s" and "alloc s = Inr (p, s1)"
  shows "\<exists>s2. release p s1 = Inr s2 \<and> avail s2 = avail s \<and> good s2"
proof -
  have "\<exists>s2. release p s1 = Inr s2 \<and> avail s2 = p # avail s1 \<and> good s2 \<and> mine s2 = mine s1"
    by (rule release_ok) (use alloc_fresh[OF assms] alloc_good[OF assms] alloc_mine[OF assms] in simp_all)
  then show ?thesis using alloc_avail[OF assms] by auto
qed

end

lemma pool_mine: "pmm_inv s \<Longrightarrow> p \<in> set (pool s) \<Longrightarrow> managed s p"
  by (auto simp: pool_def managed_def pmm_inv_def)

lemma managed_after_get_page [simp]: "managed (after_get_page s) = managed s"
  by (simp add: managed_def fun_eq_iff)

lemma pool_after_get_page:
  assumes "1 \<le> totalblockcount s"
  shows "pool s = page_addr s (head_freelist s) # pool (after_get_page s)"
  using free_blocks_after_get_page[OF assms] by (simp add: pool_def)

lemma release_page:
  assumes "pmm_inv s" and "managed s p" and "p \<notin> set (pool s)"
  shows "\<exists>s'. free_page p s = Inr s' \<and> pool s' = p # pool s \<and> pmm_inv s' \<and> managed s' = managed s"
proof -
  obtain b where b: "b \<in> {1..<50000}" "p = page_addr s b"
    using assms(2) by (auto simp: managed_def)
  have ix: "blockindex s p = b" using blockindex_page_addr[OF assms(1) b(1)] b(2) by simp
  have nin: "blockindex s p \<notin> set (free_blocks s)"
    using assms(3) pool_blockindex[OF assms(1) b(1)] b(2) ix by simp
  obtain s' where s': "free_page p s = Inr s'"
    using b(1) by (auto simp: free_page_def ix plist_ok_def)
  have pa: "page_addr s' = page_addr s"
    using free_page_Inr(1)[OF s'] by (auto simp: page_addr_def fun_eq_iff)
  have "free_blocks s' = b # free_blocks s"
    using free_blocks_free_page[OF assms(1) s' nin] ix by simp
  then have "pool s' = p # pool s" using pa b(2) by (simp add: pool_def)
  moreover have "pmm_inv s'"
    using pmm_inv_free_page[OF assms(1) s' nin] ix b(1) by simp
  ultimately show ?thesis using s' pa by (auto simp: managed_def fun_eq_iff)
qed

interpretation pm: page_allocator get_page free_page pool managed pmm_inv
proof unfold_locales
  show "distinct (pool s)" if "pmm_inv s" for s :: "'a pmm_scheme"
    using that by (rule pool_distinct)
  show "managed s p" if "pmm_inv s" "p \<in> set (pool s)" for s :: "'a pmm_scheme" and p
    using that by (rule pool_mine)
  show "pool s = p # pool s'" if "pmm_inv s" "get_page s = Inr (p, s')"
    for s s' :: "'a pmm_scheme" and p
    using get_page_Inr[OF that] pool_after_get_page[of s] by simp
  show "pmm_inv s'" if "pmm_inv s" "get_page s = Inr (p, s')" for s s' :: "'a pmm_scheme" and p
    using get_page_Inr[OF that] pmm_inv_after_get_page[OF that(1)] by simp
  show "managed s' = managed s" if "pmm_inv s" "get_page s = Inr (p, s')"
    for s s' :: "'a pmm_scheme" and p
    using get_page_Inr[OF that] by simp
  show "\<exists>s'. free_page p s = Inr s' \<and> pool s' = p # pool s \<and> pmm_inv s' \<and> managed s' = managed s"
    if "pmm_inv s" "managed s p" "p \<notin> set (pool s)" for s :: "'a pmm_scheme" and p
    using that by (rule release_page)
qed


text \<open>Reference counts and the free list do not interfere.\<close>

lemma free_blocks_ref_count:
  assumes "\<And>i. nxt (f i) = nxt (p_list s i)"
  shows "free_blocks (s\<lparr>p_list := f\<rparr>) = free_blocks s"
  unfolding free_blocks_def by (simp add: assms)

lemma decrement_effect:
  assumes "plist_ok (blockindex s x)"
  obtains f where "decrement_reference_count x s = Inr (s\<lparr>p_list := f\<rparr>)"
    and "pool (s\<lparr>p_list := f\<rparr>) = pool s" and "pmm_inv (s\<lparr>p_list := f\<rparr>) = pmm_inv s"
    and "ref_count (f (blockindex s x)) =
      (if ref_count (p_list s (blockindex s x)) < 1 then ref_count (p_list s (blockindex s x))
       else ref_count (p_list s (blockindex s x)) - 1)"
    and "\<forall>b. b \<noteq> blockindex s x \<longrightarrow> f b = p_list s b"
proof -
  let ?b = "blockindex s x"
  define f where "f = (if ref_count (p_list s ?b) < 1 then p_list s else (p_list s)(?b := (p_list s ?b)
                    \<lparr>ref_count := ref_count (p_list s ?b) - 1\<rparr>))"
  have fb: "free_blocks (s\<lparr>p_list := f\<rparr>) = free_blocks s"
    by (rule free_blocks_ref_count) (simp add: f_def)
  show thesis
  proof (rule that[of f])
    show "decrement_reference_count x s = Inr (s\<lparr>p_list := f\<rparr>)"
      using assms by (simp add: decrement_reference_count_def f_def Let_def)
  qed (use fb in \<open>auto simp: pool_def page_addr_def pmm_inv_def f_def fun_eq_iff\<close>)
qed

lemma release_indexed:
  assumes "pmm_inv s" and "b \<in> {1..<50000}" and "blockindex s x = b"
    and "page_addr s b \<notin> set (pool s)"
  obtains f h n where
    "free_page x s = Inr (s\<lparr>p_list := f, head_freelist := h, totalblockcount := n\<rparr>)"
    and "pool (s\<lparr>p_list := f, head_freelist := h, totalblockcount := n\<rparr>) = page_addr s b # pool s"
    and "pmm_inv (s\<lparr>p_list := f, head_freelist := h, totalblockcount := n\<rparr>)"
    and "\<forall>i. ref_count (f i) = ref_count (p_list s i)"
proof -
  have "free_page x s = free_page (page_addr s b) s"
    using assms(3) blockindex_page_addr[OF assms(1,2)] by (simp add: free_page_def)
  moreover have "managed s (page_addr s b)" using assms(2) by (auto simp: managed_def)
  then obtain s' where "free_page (page_addr s b) s = Inr s'" "pool s' = page_addr s b # pool s"
      "pmm_inv s'"
    using release_page[OF assms(1) _ assms(4)] by blast
  ultimately show thesis
    using that free_page_Inr(1)[of x s s'] by simp
qed

section \<open>The free list built at boot\<close>

definition link_blocks :: "nat \<Rightarrow> 'a pmm_scheme \<Rightarrow> 'a pmm_scheme res" where
  "link_blocks n = rfold (\<lambda>_. link_block) (replicate n ())"

lemma link_blocks_0 [simp]: "link_blocks 0 s = Inr s"
  by (simp add: link_blocks_def)

lemma link_blocks_Suc: "link_blocks (Suc n) s = rbind (link_block s) (link_blocks n)"
  by (simp add: link_blocks_def)

lemma link_blocks_snoc: "link_blocks (Suc n) s = rbind (link_blocks n s) link_block"
proof -
  have "link_blocks (Suc n) s = rfold (\<lambda>_. link_block) (replicate n () @ [()]) s"
    by (simp only: link_blocks_def replicate_append_same replicate_Suc)
  also have "\<dots> = rbind (link_blocks n s) (rfold (\<lambda>_. link_block) [()])"
    by (simp only: link_blocks_def rfold_append)
  finally show ?thesis
    by (cases "link_blocks n s") (simp_all add: rbind_def split: sum.splits)
qed

text \<open>Above the kernel image every page of the region is linked.\<close>

lemma freelist_loop_link:
  assumes "4096 dvd unat base" and "physfree + 1024 * 1024 < base"
    and "unat last_addr + 4096 \<le> 2 ^ 64" and "n = (unat last_addr - unat base + 4095) div 4096"
  shows "freelist_loop base last_addr physfree s = Some (link_blocks n s)"
  using assms
proof (induction n arbitrary: base s)
  case 0
  then have "\<not> base < last_addr" by (simp add: word_less_nat_alt)
  then show ?case by (simp add: freelist_loop.simps)
next
  case (Suc n)
  have lt: "unat base < unat last_addr" using Suc.prems(4) by (cases "unat base < unat last_addr") auto
  then have lt': "base < last_addr" by (simp add: word_less_nat_alt)
  have al: "base mod 4096 = 0"
    using Suc.prems(1) by (simp add: word_unat_eq_iff unat_mod dvd_eq_mod_eq_0)
  have u: "unat (base + 4096) = unat base + 4096"
    using lt Suc.prems(3) by (subst unat_add_small) auto
  have step: "freelist_loop (base + 4096) last_addr physfree s' = Some (link_blocks n s')"
    for s' :: "'a pmm_scheme"
  proof (rule Suc.IH)
    show "4096 dvd unat (base + 4096)" using Suc.prems(1) by (simp add: u)
    show "physfree + 1024 * 1024 < base + 4096"
      using Suc.prems(2) u by (simp add: word_less_nat_alt)
    show "n = (unat last_addr - unat (base + 4096) + 4095) div 4096"
      using Suc.prems(4) lt by (simp add: u)
  qed (rule Suc.prems(3))
  have nle: "\<not> base \<le> physfree + 1024 * 1024" using Suc.prems(2) by simp
  show ?case
    using lt' al nle step
    by (subst freelist_loop.simps) (simp add: link_blocks_Suc split: sum.split)
qed

text \<open>
  Below it pages are skipped, and \<open>FREEMEMORY\<close> ends as the address of the first page
  after the limit \<open>physfree + 1 MB\<close>.
\<close>

lemma freelist_loop_skip:
  assumes "4096 dvd unat base" and "base \<le> physfree + 1024 * 1024"
    and "physfree + 1024 * 1024 < last_addr" and "unat last_addr + 4096 \<le> 2 ^ 64"
    and "F = unat (physfree + 1024 * 1024) div 4096 * 4096 + 4096"
    and "n = (unat last_addr - F + 4095) div 4096"
  shows "freelist_loop base last_addr physfree s =
    Some (link_blocks n (s\<lparr>FREEMEMORY := of_nat F\<rparr>))"
  using assms
proof (induction "(F - unat base) div 4096" arbitrary: base s rule: less_induct)
  case less
  let ?lim = "physfree + 1024 * 1024"
  have lt: "base < last_addr" using less.prems(2,3) by simp
  have al: "base mod 4096 = 0"
    using less.prems(1) by (simp add: word_unat_eq_iff unat_mod dvd_eq_mod_eq_0)
  have ltn: "unat base < unat last_addr" using lt by (simp add: word_less_nat_alt)
  have u: "unat (base + 4096) = unat base + 4096"
    using ltn less.prems(4) by (subst unat_add_small) auto
  have le: "unat base \<le> unat ?lim" using less.prems(2) by (simp only: word_le_nat_alt)
  have unf: "freelist_loop base last_addr physfree s =
      freelist_loop (base + 4096) last_addr physfree (s\<lparr>FREEMEMORY := base + 4096\<rparr>)"
    using lt al less.prems(2) by (subst freelist_loop.simps) simp
  show ?case
  proof (cases "base + 4096 \<le> ?lim")
    case True
    have fle: "unat base + 4096 \<le> F"
      using True u less.prems(5) by (simp only: word_le_nat_alt)
    have "freelist_loop (base + 4096) last_addr physfree (s\<lparr>FREEMEMORY := base + 4096\<rparr>) =
      Some (link_blocks n (s\<lparr>FREEMEMORY := base + 4096, FREEMEMORY := of_nat F\<rparr>))"
    proof (rule less.hyps)
      show "(F - unat (base + 4096)) div 4096 < (F - unat base) div 4096"
        using fle by (simp only: u)
      show "4096 dvd unat (base + 4096)" using less.prems(1) by (simp add: u)
    qed (use True less.prems in auto)
    with unf show ?thesis by simp
  next
    case False
    have "F = unat base + 4096"
    proof -
      obtain k where k: "unat base = 4096 * k" using less.prems(1) by (auto elim: dvdE)
      have "unat ?lim < unat base + 4096"
        using False u by (simp only: word_le_nat_alt not_le)
      with le k have "unat ?lim div 4096 = k"
        by (intro div_nat_eqI) (simp_all add: mult.commute)
      with k less.prems(5) show ?thesis by (simp only: mult.commute)
    qed
    then have F: "F = unat (base + 4096)" by (simp add: u)
    have "freelist_loop (base + 4096) last_addr physfree (s\<lparr>FREEMEMORY := base + 4096\<rparr>) =
      Some (link_blocks n (s\<lparr>FREEMEMORY := base + 4096\<rparr>))"
      by (rule freelist_loop_link) (use False less.prems(1,4,6) F u in auto)
    moreover have "base + 4096 = of_nat F" by (rule word_eq_of_nat) (simp add: F)
    ultimately show ?thesis using unf by simp
  qed
qed

text \<open>The state after \<open>m + 2\<close> blocks have been linked at boot: block 0 is lost.\<close>

lemma link_blocks_boot:
  assumes "lastfreeblock s = 0" and "currblock s = 0" and "m < 50000"
  shows "link_blocks (Suc (Suc m)) s =
    Inr (s\<lparr>lastfreeblock := int m + 1, head_freelist := 1, currblock := int m + 2,
           totalblockcount := totalblockcount s + int m,
           p_list := (\<lambda>i. if 1 \<le> i \<and> i \<le> int m then \<lparr>nxt = i + 1, ref_count = 0\<rparr> else p_list s i)\<rparr>)"
  using assms(3)
proof (induction m)
  case 0
  have "(\<lambda>i. if 1 \<le> i \<and> i \<le> int 0 then \<lparr>nxt = i + 1, ref_count = 0\<rparr> else p_list s i) = p_list s"
    by (simp add: fun_eq_iff)
  then show ?case using assms(1,2) by (simp add: link_blocks_Suc link_block_def)
next
  case (Suc m)
  have "plist_ok (int m + 1)" using Suc.prems by (simp add: plist_ok_def)
  with Suc show ?case
    by (subst link_blocks_snoc) (auto simp: link_block_def fun_eq_iff)
qed

lemma walk_upto:
  "(\<And>i. a \<le> i \<Longrightarrow> i < a + int n \<Longrightarrow> f i = i + 1) \<Longrightarrow> walk f a (Suc n) = [a..a + int n]"
proof (induction n arbitrary: a)
  case (Suc n)
  have fa: "f a = a + 1" by (rule Suc.prems) auto
  have "walk f (a + 1) (Suc n) = [a + 1..a + 1 + int n]"
    by (rule Suc.IH) (use Suc.prems in auto)
  then have "walk f a (Suc (Suc n)) = a # [a + 1..a + int (Suc n)]"
    by (simp only: walk.simps(2)[of f a] fa) (simp add: algebra_simps)
  also have "\<dots> = [a..a + int (Suc n)]" by (rule upto_rec1[symmetric]) simp
  finally show ?case .
qed simp


lemma free_blocks_boot:
  assumes "totalblockcount s = int m" and "head_freelist s = 1"
    and "\<And>i. 1 \<le> i \<Longrightarrow> i \<le> int m \<Longrightarrow> nxt (p_list s i) = i + 1"
  shows "free_blocks s = [1..int m + 1]"
proof -
  have "walk (\<lambda>i. nxt (p_list s i)) 1 (Suc m) = [1..1 + int m]"
    by (rule walk_upto) (use assms(3) in auto)
  moreover have "nat (int m + 1) = Suc m" by simp
  ultimately show ?thesis using assms(1,2) by (simp add: free_blocks_def add.commute)
qed

lemma freelist_loop_round:
  assumes "unat base + 4096 \<le> 2 ^ 64" and "unat base < unat last_addr"
    and "b = (unat base + 4095) div 4096 * 4096"
  shows "freelist_loop base last_addr physfree s = freelist_loop (of_nat b) last_addr physfree s"
proof (cases "base mod 4096 = 0")
  case True
  then obtain k where k: "unat base = 4096 * k"
    by (auto simp: word_unat_eq_iff unat_mod elim: dvdE dest: mod_0_imp_dvd)
  have "b = unat base" using assms(3) k by simp
  then show ?thesis by simp
next
  case False
  let ?k = "unat base div 4096" and ?r = "unat base mod 4096"
  have r: "0 < ?r" using False by (simp add: word_unat_eq_iff unat_mod)
  have "(4096 * k + q + 4095) div 4096 = k + 1" if "0 < q" "q < 4096" for k q :: nat
    using that by (intro div_nat_eqI) auto
  from this[of ?r ?k] r have bk: "b = ?k * 4096 + 4096"
    unfolding assms(3) by (simp add: mult.commute)
  have le: "base mod 4096 \<le> base"
    by (simp add: word_le_nat_alt unat_mod)
  have "unat (base - base mod 4096) = ?k * 4096"
    by (subst unat_sub[OF le]) (simp add: unat_mod minus_mod_eq_div_mult)
  moreover have "?k * 4096 + 4096 < 2 ^ 64"
    using assms(1) r div_mult_mod_eq[of "unat base" 4096] by linarith
  ultimately have "unat ((base - base mod 4096) + 4096) = b"
    unfolding bk by (subst unat_add_small) auto
  then have "(base - base mod 4096) + 4096 = of_nat b" by (rule word_eq_of_nat)
  moreover have "base < last_addr" using assms(2) by (simp add: word_less_nat_alt)
  ultimately show ?thesis using False by (subst freelist_loop.simps) simp
qed

lemma freelist_boot_link:
  assumes "base \<noteq> 0" and "unat base + unat len + 4096 \<le> 2 ^ 64"
    and "(unat base + 4095) div 4096 * 4096 \<le> lim" and "lim < unat base + unat len"
    and "lim = unat (physfree + 1024 * 1024)" and "F = lim div 4096 * 4096 + 4096"
    and "n = (unat base + unat len - F + 4095) div 4096"
  shows "freelist base len physfree s = Some (link_blocks n (s\<lparr>FREEMEMORY := of_nat F\<rparr>))"
proof -
  let ?b = "(unat base + 4095) div 4096 * 4096"
  have ul: "unat (base + len) = unat base + unat len"
    using assms(2) by (subst unat_add_small) auto
  have blt: "unat base < unat (base + len)"
    using assms(3,4) unfolding ul by simp
  have ub: "unat (of_nat ?b :: u64) = ?b"
    using le_less_trans[OF assms(3)] by (intro unat_of_nat_small) (simp only: assms(5) unsigned_less)
  have "freelist base len physfree s = freelist_loop (of_nat ?b) (base + len) physfree s"
    unfolding freelist_def using assms(1,2) blt by (simp add: freelist_loop_round)
  also have "\<dots> = Some (link_blocks n (s\<lparr>FREEMEMORY := of_nat F\<rparr>))"
  proof (rule freelist_loop_skip)
    show "4096 dvd unat (of_nat ?b :: u64)" by (simp only: ub) simp
    show "of_nat ?b \<le> physfree + 1024 * 1024"
      using assms(3) by (simp only: word_le_nat_alt ub assms(5))
    show "physfree + 1024 * 1024 < base + len"
      using assms(4) by (simp only: word_less_nat_alt ul assms(5))
  qed (use assms(2,5-7) in \<open>simp_all only: ul\<close>)
  finally show ?thesis .
qed


text \<open>
  From one usable region that begins at or below the limit \<open>physfree + 1 MB\<close> and has \<open>n\<close> pages above it,
  \<open>freelist\<close> builds a pool of the \<open>n - 1\<close> last of them.
\<close>

lemma freelist_fresh:
  assumes "base \<noteq> 0" and "unat base + unat len + 4096 \<le> 2 ^ 64"
    and "(unat base + 4095) div 4096 * 4096 \<le> lim" and "lim < unat base + unat len"
    and "lim = unat (physfree + 1024 * 1024)" and "F = lim div 4096 * 4096 + 4096"
    and "n = (unat base + unat len - F + 4095) div 4096"
    and "2 \<le> n" and "n \<le> 50000" and "F + 50000 * 4096 < 2 ^ 52"
    and "pmm.truncate s0 = pmm_boot"
  shows "\<exists>s. freelist base len physfree s0 = Some (Inr s) \<and>
    free_blocks s = [1..int n - 1] \<and> pmm_inv s \<and> length (pool s) = n - 1 \<and>
    (\<forall>p \<in> set (pool s). lim < unat p \<and> unat p < unat base + unat len \<and> 4096 dvd unat p)"
proof -
  let ?s0 = "s0\<lparr>FREEMEMORY := of_nat F\<rparr>"
  obtain m where m: "n = Suc (Suc m)" using assms(8) by (metis add_2_eq_Suc le_Suc_ex)
  define s where "s = ?s0\<lparr>lastfreeblock := int m + 1, head_freelist := 1, currblock := int m + 2,
      totalblockcount := int m,
      p_list := (\<lambda>i. if 1 \<le> i \<and> i \<le> int m then \<lparr>nxt = i + 1, ref_count = 0\<rparr> else p_list ?s0 i)\<rparr>"
  have run: "freelist base len physfree s0 = Some (Inr s)"
    using freelist_boot_link[OF assms(1-7), of s0] link_blocks_boot[of ?s0 m] assms(9,11) m
    by (simp add: s_def pmm_boot_def pmm.defs)
  have fb: "free_blocks s = [1..int n - 1]"
    using free_blocks_boot[of s m] m by (simp add: s_def add.commute)
  have uF: "unat (FREEMEMORY s) = F"
    unfolding s_def using assms(10) by (simp add: unat_of_nat_small)
  have fok: "freemem_ok (FREEMEMORY s)"
    unfolding freemem_ok_def uF using assms(6,10)
    by (simp add: word_unat_eq_iff unat_mod uF)
  have inv: "pmm_inv s"
    unfolding pmm_inv_def fb using fok assms(8,9) by (auto simp: s_def)
  have "lim < unat p \<and> unat p < unat base + unat len \<and> 4096 dvd unat p"
    if mem: "p \<in> set (pool s)" for p
  proof -
    obtain b where b: "p = page_addr s b" "1 \<le> b" "b \<le> int n - 1"
      using mem by (auto simp: pool_def fb)
    have up: "unat p = F + nat b * 4096"
      using unat_page_addr[OF fok, of b] b assms(9) by (simp add: uF)
    have "lim < F"
      using assms(6) div_mult_mod_eq[of lim 4096] mod_less_divisor[of 4096 lim] by linarith
    moreover have "nat b < n" using b assms(8) by auto
    moreover have "4096 dvd F" unfolding assms(6) by simp
    ultimately show ?thesis using up assms(7) by auto
  qed
  moreover have "length (pool s) = n - 1" using assms(8) by (simp add: pool_def fb)
  ultimately show ?thesis using run fb inv by blast
qed

section \<open>Runs of the allocator\<close>

text \<open>
  The pages in use after a sequence of calls: a page enters the set when \<open>get_page\<close>
  returns it and leaves it when it is given to \<open>free_page\<close>. Only pages in use are
  freed; that is the contract the callers keep.
\<close>

inductive pmm_run :: "'a pmm_scheme \<Rightarrow> u64 set \<Rightarrow> 'a pmm_scheme \<Rightarrow> u64 set \<Rightarrow> bool" where
  run_refl: "pmm_run s L s L"
| run_get: "pmm_run s L s1 L1 \<Longrightarrow> get_page s1 = Inr (p, s2) \<Longrightarrow> pmm_run s L s2 (insert p L1)"
| run_free: "pmm_run s L s1 L1 \<Longrightarrow> p \<in> L1 \<Longrightarrow> free_page p s1 = Inr s2 \<Longrightarrow>
     pmm_run s L s2 (L1 - {p})"

inductive_cases pmm_runE: "pmm_run s L s' L'"

lemma pmm_run_inv:
  assumes "pmm_run s L s' L'" and "pmm_inv s" and "L \<inter> set (pool s) = {}"
    and "\<forall>p \<in> L. managed s p"
  shows "pmm_inv s' \<and> L' \<inter> set (pool s') = {} \<and> (\<forall>p \<in> L'. managed s' p)"
  using assms
proof (induction rule: pmm_run.induct)
  case (run_refl s L)
  then show ?case by simp
next
  case (run_get s L s1 L1 p s2)
  then have g: "pmm_inv s1" "L1 \<inter> set (pool s1) = {}" "\<forall>p \<in> L1. managed s1 p" by auto
  note a = pm.alloc_fresh[OF g(1) run_get.hyps(2)] pm.alloc_avail[OF g(1) run_get.hyps(2)]
    pm.alloc_good[OF g(1) run_get.hyps(2)] pm.alloc_mine[OF g(1) run_get.hyps(2)]
  show ?case using g a by auto
next
  case (run_free s L s1 L1 p s2)
  then have g: "pmm_inv s1" "L1 \<inter> set (pool s1) = {}" "managed s1 p" "\<forall>p \<in> L1. managed s1 p"
    "p \<notin> set (pool s1)" by auto
  with pm.release_ok[OF g(1,3,5)] run_free.hyps(3)
  have "pool s2 = p # pool s1" "pmm_inv s2" "managed s2 = managed s1" by auto
  with g show ?case by auto
qed

text \<open>C18. Safety of the allocator: after any sequence of \<open>get_page\<close> and \<open>free_page\<close>
  calls in which only pages in use are freed, the invariant still holds and no page in
  use is in the free pool, so the page the next \<open>get_page\<close> returns is not in use.\<close>

theorem get_page_never_in_use:
  assumes "pmm_inv s" and "pmm_run s {} s' L" and "get_page s' = Inr (p, s'')"
  shows "pmm_inv s'' \<and> p \<notin> L \<and> p \<noteq> 0 \<and> 4096 dvd unat p"
proof -
  have i: "pmm_inv s'" "L \<inter> set (pool s') = {}"
    using pmm_run_inv[OF assms(2,1)] by auto
  note f = pm.alloc_fresh[OF i(1) assms(3)]
  obtain b where "b \<in> {1..<50000}" "p = page_addr s' b"
    using f(3) by (auto simp: managed_def)
  moreover have "freemem_ok (FREEMEMORY s')" using i(1) by (simp add: pmm_inv_def)
  ultimately have "p \<noteq> 0" "4096 dvd unat p"
    using page_addr_nonzero[of s' b] page_addr_aligned[of s' b] by auto
  then show ?thesis using f i(2) pm.alloc_good[OF i(1) assms(3)] by auto
qed


text \<open>A small allocator state: seven free blocks behind the page at 2 MB.\<close>

definition pmm_small :: pmm where
  "pmm_small = \<lparr>totalblockcount = 6, p_list = (\<lambda>i. \<lparr>nxt = i + 1, ref_count = 0\<rparr>),
     head_freelist = 1, lastfreeblock = 7, currblock = 8, FREEMEMORY = 0x200000\<rparr>"

lemma free_blocks_pmm_small: "free_blocks pmm_small = [1, 2, 3, 4, 5, 6, 7]"
  by (simp add: free_blocks_def pmm_small_def numeral_eq_Suc)

lemma pmm_inv_small: "pmm_inv pmm_small"
  unfolding pmm_inv_def free_blocks_pmm_small
  by (simp add: pmm_small_def freemem_ok_def)

theorem get_page_never_in_use_witness:
  "\<exists>s'. get_page pmm_small = Inr (0x201000, s') \<and>
     (\<exists>s'' p. get_page s' = Inr (p, s'') \<and>
        pmm_inv s'' \<and> p \<notin> {0x201000} \<and> p \<noteq> 0 \<and> 4096 dvd unat p)"
proof -
  have g: "get_page pmm_small = Inr (0x201000, after_get_page pmm_small)"
    using get_page_eq[OF pmm_inv_small] by (simp add: pmm_small_def page_addr_def)
  have run: "pmm_run pmm_small {} (after_get_page pmm_small) {0x201000}"
    using pmm_run.run_get[OF pmm_run.run_refl g] by simp
  have i: "pmm_inv (after_get_page pmm_small)"
    by (rule pmm_inv_after_get_page[OF pmm_inv_small]) (simp add: pmm_small_def)
  then obtain p s'' where g2: "get_page (after_get_page pmm_small) = Inr (p, s'')"
    using get_page_eq[OF i] by (simp add: pmm_small_def)
  show ?thesis using g g2 get_page_never_in_use[OF pmm_inv_small run g2] by blast
qed

text \<open>\<open>get_page\<close> on every branch: with fewer than five counted blocks it reports
  that memory is exhausted; otherwise it returns the first page of the pool, which leaves
  the pool, has its reference count raised by one, and no other count changes.\<close>

theorem get_page_spec:
  assumes "pmm_inv s"
  shows "if totalblockcount s < 5 then get_page s = Inl OutOfMemory
     else \<exists>s'. get_page s = Inr (hd (pool s), s') \<and> pool s' = tl (pool s) \<and> pmm_inv s' \<and>
       totalblockcount s' = totalblockcount s - 1 \<and>
       (\<forall>b. ref_count (p_list s' b) = ref_count (p_list s b) +
          (if b = blockindex s (hd (pool s)) then 1 else 0))"
proof (cases "totalblockcount s < 5")
  case True
  then show ?thesis by (simp add: get_page_def)
next
  case False
  let ?h = "head_freelist s"
  have g: "get_page s = Inr (page_addr s ?h, after_get_page s)"
    using get_page_eq[OF assms] False by simp
  have pl: "pool s = page_addr s ?h # pool (after_get_page s)"
    using pool_after_get_page[of s] False by simp
  have "blockindex s (page_addr s ?h) = ?h"
    by (rule blockindex_page_addr[OF assms pmm_inv_head[OF assms]])
  then show ?thesis
    using False g pl pmm_inv_after_get_page[OF assms]
    by (auto simp: after_get_page_def)
qed

theorem get_page_spec_witness:
  "pmm_inv pmm_small \<and> (\<exists>s'. get_page pmm_small = Inr (hd (pool pmm_small), s') \<and>
     pool s' = tl (pool pmm_small))"
  using pmm_inv_small get_page_spec[OF pmm_inv_small]
  by (auto simp: pmm_small_def)

text \<open>A page that is taken and given back at once leaves the pool as it was.\<close>

theorem get_page_free_page_roundtrip:
  assumes "pmm_inv s" and "5 \<le> totalblockcount s"
  shows "\<exists>p s1 s2. get_page s = Inr (p, s1) \<and> free_page p s1 = Inr s2 \<and>
    pool s2 = pool s \<and> pmm_inv s2"
  using get_page_eq[OF assms] pm.alloc_release[OF assms(1)] by blast

theorem get_page_free_page_roundtrip_witness:
  "\<exists>p s1 s2. get_page pmm_small = Inr (p, s1) \<and> free_page p s1 = Inr s2 \<and>
    pool s2 = pool pmm_small \<and> pmm_inv s2"
  by (rule get_page_free_page_roundtrip[OF pmm_inv_small]) (simp add: pmm_small_def)

text \<open>Reference counts: for a managed page \<open>p\<close> (with any flag bits in the low twelve
  bits) \<open>decrement_reference_count\<close> undoes \<open>increment_reference_count\<close> when the count is
  not negative, changes nothing when the count is below one, and no count ever goes from
  non-negative to negative.\<close>

theorem reference_count_spec:
  assumes "pmm_inv s" and "b \<in> {1..<50000}"
    and "drop_bit 12 x = drop_bit 12 (page_addr s b)" and "0 \<le> ref_count (p_list s b)"
  shows "get_reference_count x s = Inr (ref_count (p_list s b)) \<and>
    rbind (increment_reference_count x s) (get_reference_count x) =
      Inr (ref_count (p_list s b) + 1) \<and>
    rbind (increment_reference_count x s) (decrement_reference_count x) = Inr s \<and>
    rbind (decrement_reference_count x s) (get_reference_count x) =
      Inr (max 0 (ref_count (p_list s b) - 1))"
proof -
  have ix: "blockindex s x = b"
    by (rule blockindex_page) (use assms in \<open>auto simp: pmm_inv_def\<close>)
  have ix': "blockindex (s\<lparr>p_list := f\<rparr>) x = b" for f
    using ix by (simp add: blockindex_def)
  have ok: "plist_ok b" using assms(2) by (simp add: plist_ok_def)
  have "s\<lparr>p_list := (p_list s)(b := (p_list s b)\<lparr>ref_count := ref_count (p_list s b)\<rparr>)\<rparr> = s"
    by simp
  then show ?thesis
    using assms(4) ok
    by (simp add: get_reference_count_def increment_reference_count_def
        decrement_reference_count_def ix ix' Let_def)
qed

theorem reference_count_spec_witness:
  "get_reference_count 0x201007 pmm_small = Inr 0 \<and>
    rbind (increment_reference_count 0x201007 pmm_small) (get_reference_count 0x201007) = Inr (0 + 1)"
  using reference_count_spec[OF pmm_inv_small, of 1 "0x201007"]
  by (simp add: pmm_small_def page_addr_def)

end
