(* ===== verification/Machine.thy ===== *)
theory Machine
  imports Phys_Mem
begin

text \<open>
  The machine below the paging code: byte-addressed physical memory, the page table base
  register and the four-level page walk of the processor. Every access of the kernel to a
  virtual address goes through the walk.
\<close>

record machine = pmm +
  pmem :: "u64 \<Rightarrow> u8"
  cr3 :: u64

section \<open>Physical memory\<close>

definition byte_of :: "u64 \<Rightarrow> nat \<Rightarrow> u8" where
  "byte_of v k = ucast (drop_bit (8 * k) v)"

definition load64 :: "(u64 \<Rightarrow> u8) \<Rightarrow> u64 \<Rightarrow> u64" where
  "load64 m a = foldr (\<lambda>k r. push_bit (8 * k) (ucast (m (a + of_nat k))) OR r) [0..<8] 0"

definition store64 :: "(u64 \<Rightarrow> u8) \<Rightarrow> u64 \<Rightarrow> u64 \<Rightarrow> u64 \<Rightarrow> u8" where
  "store64 m a v = (\<lambda>x. if unat (x - a) < 8 then byte_of v (unat (x - a)) else m x)"

definition zero_bytes :: "(u64 \<Rightarrow> u8) \<Rightarrow> u64 \<Rightarrow> nat \<Rightarrow> u64 \<Rightarrow> u8" where
  "zero_bytes m a n = (\<lambda>x. if unat (x - a) < n then 0 else m x)"

lemma bit_merge:
  "bit (foldr (\<lambda>k r. push_bit (8 * k) (ucast (f k :: u8)) OR r) ks (0 :: u64)) n \<longleftrightarrow>
     n < 64 \<and> (\<exists>k \<in> set ks. 8 * k \<le> n \<and> n < 8 * k + 8 \<and> bit (f k) (n - 8 * k))"
proof (induction ks)
  case (Cons k ks)
  have "n < 8 * k + 8" if "bit (f k) (n - 8 * k)"
    using bit_imp_le_length[OF that] by simp
  with Cons show ?case by (auto simp: bit_simps)
qed simp

lemma load64_bit:
  assumes "q < 8" and "r < 8"
  shows "bit (load64 m a) (8 * q + r) \<longleftrightarrow> bit (m (a + of_nat q)) r"
proof -
  have "(8 * k \<le> 8 * q + r \<and> 8 * q + r < 8 * k + 8 \<and> bit (f k) (8 * q + r - 8 * k)) \<longleftrightarrow>
      k = q \<and> bit (f q) r" for k and f :: "nat \<Rightarrow> u8"
  proof -
    have "k = q" if "8 * k \<le> 8 * q + r" "8 * q + r < 8 * k + 8"
      using that assms by arith
    then show ?thesis using assms by (cases "k = q") auto
  qed
  note * = this[of _ "\<lambda>k. m (a + of_nat k)"]
  show ?thesis
    using assms unfolding load64_def bit_merge * by auto
qed

lemma word64_eqI:
  assumes "\<And>q r. q < 8 \<Longrightarrow> r < 8 \<Longrightarrow> bit (x :: u64) (8 * q + r) \<longleftrightarrow> bit y (8 * q + r)"
  shows "x = y"
proof (rule bit_word_eqI)
  fix n assume "n < LENGTH(64)"
  then have "n div 8 < 8" by simp
  from assms[OF this, of "n mod 8"] show "bit x n \<longleftrightarrow> bit y n" by simp
qed

lemma load64_cong: "(\<And>k. k < 8 \<Longrightarrow> m (a + of_nat k) = m' (a + of_nat k)) \<Longrightarrow> load64 m a = load64 m' a"
  by (rule word64_eqI) (simp add: load64_bit)

lemma byte_of_bit: "r < 8 \<Longrightarrow> bit (byte_of v q) r \<longleftrightarrow> bit v (8 * q + r)"
  by (simp add: byte_of_def bit_simps)

lemma load64_store64_same [simp]: "load64 (store64 m a v) a = v"
proof (rule word64_eqI)
  fix q r :: nat assume "q < 8" "r < 8"
  then have "unat (of_nat q :: u64) = q" by (simp add: unat_of_nat)
  with \<open>q < 8\<close> \<open>r < 8\<close> show "bit (load64 (store64 m a v) a) (8 * q + r) = bit v (8 * q + r)"
    by (simp add: load64_bit store64_def byte_of_bit)
qed

lemma load64_zero: "(\<And>k. k < 8 \<Longrightarrow> m (a + of_nat k) = 0) \<Longrightarrow> load64 m a = 0"
  by (rule word64_eqI) (simp add: load64_bit)


section \<open>Pages and page table entries\<close>

definition page_aligned :: "u64 \<Rightarrow> bool" where
  "page_aligned f \<longleftrightarrow> f mod 4096 = 0"

definition pte :: "(u64 \<Rightarrow> u8) \<Rightarrow> u64 \<Rightarrow> u64 \<Rightarrow> u64" where
  "pte m f i = load64 m (f + 8 * i)"

lemma page_aligned_dvd: "page_aligned f \<longleftrightarrow> 4096 dvd unat f"
  by (simp add: page_aligned_def word_unat_eq_iff unat_mod dvd_eq_mod_eq_0)

lemma unat_in_page:
  assumes "page_aligned f" and "d < 4096"
  shows "unat (f + of_nat d) = unat f + d"
proof -
  obtain k where k: "unat f = 4096 * k" using assms(1) by (auto simp: page_aligned_dvd dvd_def)
  have "unat f < 2 ^ 64" using unsigned_less[of f] by simp
  then have "k < 2 ^ 52" using k by simp
  then have "unat f + d < 2 ^ 64" using k assms(2) by simp
  then show ?thesis using assms(2) by (simp add: unat_word_ariths unat_of_nat)
qed

lemma in_page_eq:
  assumes "page_aligned f" and "page_aligned g" and "d < 4096" and "e < 4096"
  shows "f + of_nat d = g + of_nat e \<longleftrightarrow> f = g \<and> d = e"
proof
  assume "f + of_nat d = g + of_nat e"
  then have eq: "unat f + d = unat g + e"
    using unat_in_page[OF assms(1,3)] unat_in_page[OF assms(2,4)] by simp
  obtain k l where k: "unat f = 4096 * k" and l: "unat g = 4096 * l"
    using assms(1,2) by (auto simp: page_aligned_dvd dvd_def)
  have "k = l" using eq k l assms(3,4) by linarith
  with k l eq show "f = g \<and> d = e" by (simp add: word_unat_eq_iff)
qed simp

lemma unat_diff_lessE:
  assumes "unat (x - a) < n"
  obtains d where "d < n" and "x = a + of_nat d"
proof (rule that[OF assms])
  have "of_nat (unat (x - a)) = x - a" by simp
  then show "x = a + of_nat (unat (x - a))" by (simp only:) simp
qed

lemma unat_diff_add: "d < 2 ^ 64 \<Longrightarrow> unat (a + of_nat d - a :: u64) = d"
  by (simp add: unat_of_nat)

lemma entry_byte:
  fixes f :: u64
  assumes "unat i < 512"
  shows "f + 8 * i + of_nat k = f + of_nat (8 * unat i + k)"
  by simp

lemma pte_store64:
  assumes "page_aligned f" and "page_aligned g" and "unat i < 512" and "unat j < 512"
  shows "pte (store64 m (f + 8 * i) v) g j = (if g = f \<and> j = i then v else pte m g j)"
proof (cases "g = f \<and> j = i")
  case True
  then show ?thesis by (simp add: pte_def)
next
  case False
  have "store64 m (f + 8 * i) v (g + 8 * j + of_nat k) = m (g + 8 * j + of_nat k)" if "k < 8" for k
  proof (rule ccontr)
    assume "\<not> ?thesis"
    then have "unat (g + 8 * j + of_nat k - (f + 8 * i)) < 8"
      by (auto simp: store64_def split: if_splits)
    then obtain d where d: "d < 8" "g + 8 * j + of_nat k = f + 8 * i + of_nat d"
      by (rule unat_diff_lessE)
    then have "g + of_nat (8 * unat j + k) = f + of_nat (8 * unat i + d)"
      using assms entry_byte by metis
    then have "g = f \<and> 8 * unat j + k = 8 * unat i + d"
      by (subst (asm) in_page_eq) (use assms that d in auto)
    moreover then have "unat j = unat i" using that d by linarith
    ultimately show False using False by (simp add: word_unat_eq_iff)
  qed
  then show ?thesis using False unfolding pte_def by (metis load64_cong)
qed

lemma pte_zero_other:
  assumes "page_aligned f" and "page_aligned g" and "unat j < 512" and "n \<le> 4096" and "g \<noteq> f"
  shows "pte (zero_bytes m f n) g j = pte m g j"
proof -
  have "zero_bytes m f n (g + 8 * j + of_nat k) = m (g + 8 * j + of_nat k)" if "k < 8" for k
  proof (rule ccontr)
    assume "\<not> ?thesis"
    then have "unat (g + 8 * j + of_nat k - f) < n"
      by (auto simp: zero_bytes_def split: if_splits)
    then obtain d where d: "d < n" "g + 8 * j + of_nat k = f + of_nat d"
      by (rule unat_diff_lessE)
    then have "g + of_nat (8 * unat j + k) = f + of_nat d"
      using assms entry_byte by metis
    then have "g = f"
      by (subst (asm) in_page_eq) (use assms that d in auto)
    with assms(5) show False by simp
  qed
  then show ?thesis unfolding pte_def by (rule load64_cong)
qed

lemma pte_zero_same:
  assumes "page_aligned f" and "unat j < 512" and "8 * unat j + 8 \<le> n"
  shows "pte (zero_bytes m f n) f j = 0"
  unfolding pte_def
proof (rule load64_zero)
  fix k :: nat assume k: "k < 8"
  have "unat (f + of_nat (8 * unat j + k) - f) = 8 * unat j + k"
    by (rule unat_diff_add) (use assms(2) k in simp)
  then have "unat (f + 8 * j + of_nat k - f) = 8 * unat j + k"
    by (simp only: entry_byte[OF assms(2)])
  then show "zero_bytes m f n (f + 8 * j + of_nat k) = 0"
    using k assms(3) by (simp add: zero_bytes_def)
qed

lemma store64_zero:
  assumes "i \<le> n" and "n \<le> 4096" and "i \<le> 4088"
  shows "store64 (zero_bytes m f n) (f + of_nat i) 0 = zero_bytes m f (max n (i + 8))"
proof
  fix x :: u64
  let ?y = "x - f"
  have y: "x - (f + of_nat i) = ?y - of_nat i" by (simp add: algebra_simps)
  have i: "unat (of_nat i :: u64) = i" using assms(3) by (simp add: unat_of_nat)
  have "unat (?y - of_nat i) < 8 \<or> unat ?y < n \<longleftrightarrow> unat ?y < max n (i + 8)"
  proof (cases "i \<le> unat ?y")
    case True
    then have "unat (?y - of_nat i) = unat ?y - i"
      using i by (subst unat_sub) (simp_all add: word_le_nat_alt)
    with True show ?thesis by auto
  qed (use assms(1) in auto)
  moreover have "byte_of 0 k = 0" for k by (simp add: byte_of_def)
  ultimately show "store64 (zero_bytes m f n) (f + of_nat i) 0 x = zero_bytes m f (max n (i + 8)) x"
    unfolding store64_def zero_bytes_def y by auto
qed

lemma store64_other_page:
  assumes "page_aligned f" and "page_aligned g" and "unat i < 512" and "d < 4096" and "g \<noteq> f"
  shows "store64 m (f + 8 * i) v (g + of_nat d) = m (g + of_nat d)"
proof (rule ccontr)
  assume "\<not> ?thesis"
  then have "unat (g + of_nat d - (f + 8 * i)) < 8"
    by (auto simp: store64_def split: if_splits)
  then obtain e where e: "e < 8" "g + of_nat d = f + 8 * i + of_nat e"
    by (rule unat_diff_lessE)
  then have "g + of_nat d = f + of_nat (8 * unat i + e)"
    using entry_byte[OF assms(3)] by metis
  then have "g = f" by (subst (asm) in_page_eq) (use assms e in auto)
  with assms(5) show False by simp
qed

lemma zero_bytes_other_page:
  assumes "page_aligned f" and "page_aligned g" and "n \<le> 4096" and "d < 4096" and "g \<noteq> f"
  shows "zero_bytes m f n (g + of_nat d) = m (g + of_nat d)"
proof (rule ccontr)
  assume "\<not> ?thesis"
  then have "unat (g + of_nat d - f) < n"
    by (auto simp: zero_bytes_def split: if_splits)
  then obtain e where e: "e < n" "g + of_nat d = f + of_nat e"
    by (rule unat_diff_lessE)
  then have "g = f" by (subst (asm) in_page_eq) (use assms e in auto)
  with assms(5) show False by simp
qed

lemma zero_bytes_in: "d < n \<Longrightarrow> n \<le> 4096 \<Longrightarrow> zero_bytes m f n (f + of_nat d) = 0"
  by (simp add: zero_bytes_def unat_of_nat)

lemma zero_bytes_out: "n \<le> d \<Longrightarrow> d < 4096 \<Longrightarrow> zero_bytes m f n (f + of_nat d) = m (f + of_nat d)"
  by (simp add: zero_bytes_def unat_of_nat)

section \<open>The page walk\<close>

text \<open>
  The physical frame in an entry is in bits 12 to 51; bit 0 is the present bit.
\<close>

definition frame_of :: "u64 \<Rightarrow> u64" where
  "frame_of e = e AND 0x000FFFFFFFFFF000"

fun path :: "(u64 \<Rightarrow> u8) \<Rightarrow> u64 \<Rightarrow> u64 list \<Rightarrow> u64 option" where
  "path m f [] = Some f"
| "path m f (i # is) = (if bit (pte m f i) 0 then path m (frame_of (pte m f i)) is else None)"

definition p1_index :: "u64 \<Rightarrow> u64" where
  "p1_index vadd = drop_bit (9 + 9 + 9 + 12 + 16) (push_bit 16 vadd)"
definition p2_index :: "u64 \<Rightarrow> u64" where
  "p2_index vadd = drop_bit (9 + 9 + 12 + 16 + 9) (push_bit (16 + 9) vadd)"
definition p3_index :: "u64 \<Rightarrow> u64" where
  "p3_index vadd = drop_bit (9 + 12 + 16 + 9 + 9) (push_bit (16 + 9 + 9) vadd)"
definition p4_index :: "u64 \<Rightarrow> u64" where
  "p4_index vadd = drop_bit (12 + 16 + 9 + 9 + 9) (push_bit (16 + 9 + 9 + 9) vadd)"

text \<open>Bits 47 to 12 of a virtual address select the entries of the four tables.\<close>

definition mmu_indices :: "u64 \<Rightarrow> u64 list" where
  "mmu_indices va = [take_bit 9 (drop_bit 39 va), take_bit 9 (drop_bit 30 va),
     take_bit 9 (drop_bit 21 va), take_bit 9 (drop_bit 12 va)]"

definition translate :: "'a machine_scheme \<Rightarrow> u64 \<Rightarrow> u64 option" where
  "translate s va = map_option (\<lambda>f. f + take_bit 12 va)
     (path (pmem s) (frame_of (cr3 s)) (mmu_indices va))"

section \<open>Accesses through virtual addresses\<close>

definition vload8 :: "u64 \<Rightarrow> 'a machine_scheme \<Rightarrow> u8 res" where
  "vload8 a s = (case translate s a of None \<Rightarrow> Inl (PageFault a) | Some p \<Rightarrow> Inr (pmem s p))"

definition vstore8 :: "u64 \<Rightarrow> u8 \<Rightarrow> 'a machine_scheme \<Rightarrow> 'a machine_scheme res" where
  "vstore8 a v s = (case translate s a of None \<Rightarrow> Inl (PageFault a)
     | Some p \<Rightarrow> Inr (s\<lparr>pmem := (pmem s)(p := v)\<rparr>))"

text \<open>
  An eight-byte access is one access when it stays within a page; one that crosses a page
  boundary is made byte by byte.
\<close>

definition within_page :: "u64 \<Rightarrow> bool" where
  "within_page a \<longleftrightarrow> take_bit 12 a \<le> 4088"

definition vload64 :: "u64 \<Rightarrow> 'a machine_scheme \<Rightarrow> u64 res" where
  "vload64 a s =
     (if within_page a then
        (case translate s a of None \<Rightarrow> Inl (PageFault a) | Some p \<Rightarrow> Inr (load64 (pmem s) p))
      else
        rfold (\<lambda>k r. rbind (vload8 (a + of_nat k) s)
                 (\<lambda>b. Inr (push_bit (8 * k) (ucast b) OR r))) [0..<8] 0)"

definition vstore64 :: "u64 \<Rightarrow> u64 \<Rightarrow> 'a machine_scheme \<Rightarrow> 'a machine_scheme res" where
  "vstore64 a v s =
     (if within_page a then
        (case translate s a of None \<Rightarrow> Inl (PageFault a)
         | Some p \<Rightarrow> Inr (s\<lparr>pmem := store64 (pmem s) p v\<rparr>))
      else
        rfold (\<lambda>k. vstore8 (a + of_nat k) (byte_of v k)) [0..<8] s)"

fun vload_bytes :: "nat \<Rightarrow> u64 \<Rightarrow> 'a machine_scheme \<Rightarrow> u8 list res" where
  "vload_bytes 0 a s = Inr []"
| "vload_bytes (Suc n) a s =
     rbind (vload8 a s) (\<lambda>b. rbind (vload_bytes n (a + 1) s) (\<lambda>bs. Inr (b # bs)))"

fun vstore_bytes :: "u64 \<Rightarrow> u8 list \<Rightarrow> 'a machine_scheme \<Rightarrow> 'a machine_scheme res" where
  "vstore_bytes a [] s = Inr s"
| "vstore_bytes a (b # bs) s = rbind (vstore8 a b s) (vstore_bytes (a + 1) bs)"

lemma index_slices:
  "p1_index va = take_bit 9 (drop_bit 39 va)"
  "p2_index va = take_bit 9 (drop_bit 30 va)"
  "p3_index va = take_bit 9 (drop_bit 21 va)"
  "p4_index va = take_bit 9 (drop_bit 12 va)"
  unfolding p1_index_def p2_index_def p3_index_def p4_index_def
  by (rule bit_word_eqI; auto simp: bit_simps dest: bit_imp_le_length)+

lemma mmu_indices_eq: "mmu_indices va = [p1_index va, p2_index va, p3_index va, p4_index va]"
  by (simp add: mmu_indices_def index_slices)

lemma length_mmu_indices [simp]: "length (mmu_indices va) = 4"
  by (simp add: mmu_indices_def)

lemma unat_take_bit9: "unat (take_bit 9 (x :: u64)) < 512"
  using take_bit_nat_less_exp[of 9 "unat x"] by (simp add: unsigned_take_bit_eq)

lemma index_bound [simp]:
  "unat (p1_index va) < 512" "unat (p2_index va) < 512"
  "unat (p3_index va) < 512" "unat (p4_index va) < 512"
  by (simp_all only: index_slices unat_take_bit9)


section \<open>Laws of the page walk\<close>

lemma page_aligned_take_bit: "page_aligned f \<longleftrightarrow> take_bit 12 f = 0"
  by (simp add: page_aligned_def take_bit_eq_mod)

lemma page_offset:
  assumes "page_aligned f" and "d < 4096"
  shows "take_bit 12 (f + of_nat d) = of_nat d" and "drop_bit 12 (f + of_nat d) = drop_bit 12 f"
proof -
  have u: "unat (f + of_nat d) = unat f + d" by (rule unat_in_page[OF assms])
  have f: "4096 dvd unat f" using assms(1) by (simp add: page_aligned_dvd)
  have "unat (take_bit 12 (f + of_nat d)) = (unat f + d) mod 4096"
    by (simp add: take_bit_eq_mod unat_mod u)
  also have "\<dots> = d" using f assms(2) by auto
  finally show "take_bit 12 (f + of_nat d) = of_nat d"
    using assms(2) by (simp add: word_unat_eq_iff unat_of_nat)
  have "unat (drop_bit 12 (f + of_nat d)) = (unat f + d) div 4096"
    by (simp add: unat_drop12 u)
  also have "\<dots> = unat f div 4096" using f assms(2) by (auto elim!: dvdE)
  finally show "drop_bit 12 (f + of_nat d) = drop_bit 12 f"
    by (simp add: word_unat_eq_iff unat_drop12)
qed

lemma mmu_indices_drop: "mmu_indices va =
   (let v = drop_bit 12 va in [take_bit 9 (drop_bit 27 v), take_bit 9 (drop_bit 18 v),
     take_bit 9 (drop_bit 9 v), take_bit 9 v])"
  by (simp add: mmu_indices_def)

lemma mmu_indices_page:
  assumes "page_aligned f" and "d < 4096"
  shows "mmu_indices (f + of_nat d) = mmu_indices f"
  by (simp add: mmu_indices_drop page_offset(2)[OF assms])

lemma translate_page:
  assumes "page_aligned va" and "d < 4096"
  shows "translate s (va + of_nat d) =
    map_option (\<lambda>f. f + of_nat d) (path (pmem s) (frame_of (cr3 s)) (mmu_indices va))"
  by (simp add: translate_def mmu_indices_page[OF assms] page_offset(1)[OF assms])

lemma frame_of_aligned [simp]: "page_aligned (frame_of e)"
  unfolding page_aligned_take_bit frame_of_def
  by (rule bit_word_eqI) (auto simp: bit_simps)

lemma low_bits_zero:
  assumes "page_aligned p" and "n < 12"
  shows "\<not> bit p n"
proof
  assume "bit p n"
  with assms(2) have "bit (take_bit 12 p) n" by (simp add: bit_simps)
  with assms(1) show False by (simp add: page_aligned_take_bit)
qed

lemma high_bits_zero:
  fixes p :: u64
  assumes "unat p < 2 ^ k" and "k \<le> n"
  shows "\<not> bit p n"
proof -
  have "unat (take_bit k p) = unat p"
    using assms(1) by (simp add: unsigned_take_bit_eq take_bit_nat_eq_self)
  then have "take_bit k p = p" by (simp add: word_unat_eq_iff)
  then show ?thesis using assms(2) by (metis bit_take_bit_iff not_le)
qed

text \<open>An entry made from an address and flag bits holds the page of the address.\<close>

lemma frame_of_masked:
  assumes "unat fl < 2 ^ 12"
  shows "frame_of ((p AND 0xFFFFFFFFFFFFF000) OR fl) = frame_of p"
proof -
  have m: "(0x000FFFFFFFFFF000 :: u64) = push_bit 12 (mask 40)"
    "(0xFFFFFFFFFFFFF000 :: u64) = push_bit 12 (mask 52)"
    by (simp_all add: mask_eq_exp_minus_1)
  have fl: "n < 12" if "bit fl n" for n
    using high_bits_zero[OF assms, of n] that by (cases "12 \<le> n") auto
  have l: "n - 12 < 52" if "n < 64" for n :: nat using that by simp
  show ?thesis
    unfolding frame_of_def m
    by (intro bit_word_eqI) (auto simp: bit_simps dest: fl l)
qed

lemma frame_of_page:
  assumes "page_aligned p" and "unat p < 2 ^ 52"
  shows "frame_of p = p"
proof -
  have m: "(0x000FFFFFFFFFF000 :: u64) = push_bit 12 (mask 40)"
    by (simp add: mask_eq_exp_minus_1)
  have p: "12 \<le> n \<and> n < 52 \<and> n - 12 < 40" if "bit p n" for n
    using low_bits_zero[OF assms(1), of n] high_bits_zero[OF assms(2), of n] that
    by (cases "n < 12"; cases "52 \<le> n") auto
  show ?thesis
    unfolding frame_of_def m by (intro bit_word_eqI) (auto simp: bit_simps dest: p)
qed

lemma present_entry: "bit (fl :: u64) 0 \<Longrightarrow> bit ((p AND 0xFFFFFFFFFFFFF000) OR fl) 0"
  by (simp only: bit_or_iff) simp

lemma frame_of_entry:
  assumes "page_aligned p" and "unat p < 2 ^ 52" and "fl \<in> {3, 5, 7}"
  shows "frame_of ((p AND 0xFFFFFFFFFFFFF000) OR fl) = p"
    and "bit ((p AND 0xFFFFFFFFFFFFF000) OR fl) 0"
  using assms frame_of_masked[of fl p] frame_of_page[OF assms(1,2)] by (auto simp: bit_simps)

lemma path_append: "path m f (p @ q) = Option.bind (path m f p) (\<lambda>g. path m g q)"
  by (induction p arbitrary: f) auto

lemma path_aligned: "path m f q = Some g \<Longrightarrow> page_aligned f \<Longrightarrow> page_aligned g"
  by (induction q arbitrary: f) (auto split: if_splits)

lemma path_cong:
  assumes "\<And>p j r T. q = p @ j # r \<Longrightarrow> path m f p = Some T \<Longrightarrow> pte m' T j = pte m T j"
  shows "path m' f q = path m f q"
  using assms
proof (induction q arbitrary: f)
  case (Cons i q)
  have e: "pte m' f i = pte m f i" using Cons.prems[of "[]" i q f] by simp
  show ?case
  proof (cases "bit (pte m f i) 0")
    case True
    have "path m' (frame_of (pte m f i)) q = path m (frame_of (pte m f i)) q"
    proof (rule Cons.IH)
      fix p j r T
      assume "q = p @ j # r" "path m (frame_of (pte m f i)) p = Some T"
      then show "pte m' T j = pte m T j" using Cons.prems[of "i # p" j r T] True by simp
    qed
    then show ?thesis using e by simp
  qed (simp add: e)
qed simp

section \<open>The recursive window\<close>

text \<open>
  The kernel reaches its own page tables through entry 510 of the top table, which points
  to the top table itself. The address of a table is built from \<open>base\<close> by four lines that
  shift in one nine-bit index each.
\<close>

definition window :: "u64 \<Rightarrow> u64 \<Rightarrow> u64 \<Rightarrow> u64 \<Rightarrow> u64 \<Rightarrow> u64" where
  "window a b c d base =
     (let base = push_bit 39 (push_bit 9 (drop_bit 48 base) OR a);
          base = push_bit 30 (push_bit 9 (drop_bit 39 base) OR b);
          base = push_bit 21 (push_bit 9 (drop_bit 30 base) OR c);
          base = push_bit 12 (push_bit 9 (drop_bit 21 base) OR d)
      in base)"

abbreviation base0 :: u64 where "base0 \<equiv> 0xFFFF000000000000"

lemma window_bit:
  assumes "unat a < 512" and "unat b < 512" and "unat c < 512" and "unat d < 512"
  shows "bit (window a b c d base) n \<longleftrightarrow> n < 64 \<and>
    (if n < 12 then False else if n < 21 then bit d (n - 12) else if n < 30 then bit c (n - 21)
     else if n < 39 then bit b (n - 30) else if n < 48 then bit a (n - 39) else bit base n)"
proof -
  note h = high_bits_zero[where k = 9, simplified]
  show ?thesis
    using h[OF assms(1)] h[OF assms(2)] h[OF assms(3)] h[OF assms(4)]
    by (auto simp: window_def bit_simps Let_def not_less)
qed

lemma window_facts:
  assumes "unat a < 512" and "unat b < 512" and "unat c < 512" and "unat d < 512"
  shows "page_aligned (window a b c d base)"
    and "mmu_indices (window a b c d base) = [a, b, c, d]"
    and "drop_bit 48 (window a b c d base) = drop_bit 48 base"
proof -
  note h = high_bits_zero[where k = 9, simplified]
  note hs = h[OF assms(1)] h[OF assms(2)] h[OF assms(3)] h[OF assms(4)]
  note w = window_bit[OF assms]
  show "page_aligned (window a b c d base)"
    unfolding page_aligned_take_bit by (rule bit_word_eqI) (auto simp: bit_simps w)
  have "take_bit 9 (drop_bit 39 (window a b c d base)) = a"
    by (rule bit_word_eqI) (use hs in \<open>auto simp: bit_simps w not_less\<close>)
  moreover have "take_bit 9 (drop_bit 30 (window a b c d base)) = b"
    by (rule bit_word_eqI) (use hs in \<open>auto simp: bit_simps w not_less\<close>)
  moreover have "take_bit 9 (drop_bit 21 (window a b c d base)) = c"
    by (rule bit_word_eqI) (use hs in \<open>auto simp: bit_simps w not_less\<close>)
  moreover have "take_bit 9 (drop_bit 12 (window a b c d base)) = d"
    by (rule bit_word_eqI) (use hs in \<open>auto simp: bit_simps w not_less\<close>)
  ultimately show "mmu_indices (window a b c d base) = [a, b, c, d]"
    by (simp add: mmu_indices_def)
  show "drop_bit 48 (window a b c d base) = drop_bit 48 base"
    by (rule bit_word_eqI) (auto simp: bit_simps w dest: bit_imp_le_length)
qed

end
