(* ===== verification/Page_Tables.thy ===== *)
theory Page_Tables
  imports Machine "HOL-Library.Sublist"
begin

text \<open>
  The page tables of one address space as a tree: the invariant of the tables that are
  reached from the top table, and how storing an entry changes the page walk. Nothing
  here refers to the code; the paging operations are proved with these lemmas.
\<close>

section \<open>The tree of page tables\<close>

text \<open>A path of table indices; entry 510 of the top table is the self reference.\<close>

definition idx_ok :: "u64 list \<Rightarrow> bool" where
  "idx_ok q \<longleftrightarrow> (\<forall>i \<in> set q. unat i < 512) \<and> (q = [] \<or> hd q \<noteq> 0x1FE)"

definition ptables :: "(u64 \<Rightarrow> u8) \<Rightarrow> u64 \<Rightarrow> u64 set" where
  "ptables m R = {T. \<exists>q. idx_ok q \<and> length q \<le> 3 \<and> path m R q = Some T}"

text \<open>
  Entry 510 of the top table points to the top table; no table is reached on two paths;
  an entry of the upper three levels is zero or present; and no page of the set \<open>F\<close> (the
  pages that are free) is a table or mapped.
\<close>

definition pt_tree :: "(u64 \<Rightarrow> u8) \<Rightarrow> u64 \<Rightarrow> u64 set \<Rightarrow> bool" where
  "pt_tree m R F \<longleftrightarrow>
     page_aligned R \<and> bit (pte m R 0x1FE) 0 \<and> frame_of (pte m R 0x1FE) = R \<and>
     (\<forall>q r T. idx_ok q \<and> idx_ok r \<and> length q \<le> 3 \<and> length r \<le> 3 \<and>
        path m R q = Some T \<and> path m R r = Some T \<longrightarrow> q = r) \<and>
     (\<forall>q i T. idx_ok (q @ [i]) \<and> length q \<le> 2 \<and> path m R q = Some T \<longrightarrow>
        pte m T i = 0 \<or> bit (pte m T i) 0) \<and>
     (\<forall>q T. idx_ok q \<and> length q \<le> 4 \<and> path m R q = Some T \<longrightarrow> T \<notin> F)"

lemma idx_ok_Nil [simp]: "idx_ok []"
  by (simp add: idx_ok_def)

lemma idx_ok_append: "idx_ok (p @ r) \<Longrightarrow> idx_ok p"
  by (cases p) (auto simp: idx_ok_def)

lemma idx_ok_bound: "idx_ok (p @ i # r) \<Longrightarrow> unat i < 512"
  by (auto simp: idx_ok_def)

lemma idx_ok_indices: "p1_index va \<noteq> 0x1FE \<Longrightarrow> idx_ok (mmu_indices va)"
  by (simp add: idx_ok_def mmu_indices_eq)

lemma pt_tree_aligned:
  "pt_tree m R F \<Longrightarrow> path m R q = Some T \<Longrightarrow> page_aligned T"
  by (auto simp: pt_tree_def intro: path_aligned)

lemma pt_tree_inj:
  "pt_tree m R F \<Longrightarrow> path m R q = Some T \<Longrightarrow> path m R r = Some T \<Longrightarrow>
     idx_ok q \<Longrightarrow> idx_ok r \<Longrightarrow> length q \<le> 3 \<Longrightarrow> length r \<le> 3 \<Longrightarrow> q = r"
  unfolding pt_tree_def by blast

lemma pt_tree_fresh:
  "pt_tree m R F \<Longrightarrow> path m R q = Some T \<Longrightarrow> idx_ok q \<Longrightarrow> length q \<le> 4 \<Longrightarrow> T \<notin> F"
  unfolding pt_tree_def by blast

lemma pt_tree_entry:
  "pt_tree m R F \<Longrightarrow> path m R q = Some T \<Longrightarrow> idx_ok (q @ [i]) \<Longrightarrow> length q \<le> 2 \<Longrightarrow>
     pte m T i = 0 \<or> bit (pte m T i) 0"
  unfolding pt_tree_def by blast

lemma pt_tree_selfmap: "pt_tree m R F \<Longrightarrow> path m R (replicate k 0x1FE @ q) = path m R q"
  by (induction k) (auto simp: pt_tree_def)

lemma ptablesI: "path m R q = Some T \<Longrightarrow> idx_ok q \<Longrightarrow> length q \<le> 3 \<Longrightarrow> T \<in> ptables m R"
  unfolding ptables_def by blast

section \<open>Storing one entry\<close>

text \<open>
  \<open>m'\<close> differs from \<open>m\<close> in entry \<open>i\<close> of the table at path \<open>P\<close>, and possibly in pages that
  are not tables. Walks that do not use that entry are the same.
\<close>

definition entry_changed ::
    "(u64 \<Rightarrow> u8) \<Rightarrow> (u64 \<Rightarrow> u8) \<Rightarrow> u64 \<Rightarrow> u64 \<Rightarrow> u64 \<Rightarrow> bool" where
  "entry_changed m m' R T i \<longleftrightarrow>
     (\<forall>T' j. T' \<in> ptables m R \<and> unat j < 512 \<and> (T', j) \<noteq> (T, i) \<longrightarrow> pte m' T' j = pte m T' j)"

lemma path_entry_changed:
  assumes "pt_tree m R F" and "path m R P = Some T" and "idx_ok (P @ [i])" and "length P \<le> 3"
    and "entry_changed m m' R T i"
    and "idx_ok q" and "length q \<le> 4" and "\<not> prefix (P @ [i]) q"
  shows "path m' R q = path m R q"
proof (rule path_cong)
  fix p j r T' assume q: "q = p @ j # r" and T': "path m R p = Some T'"
  have p: "idx_ok p" "length p \<le> 3" "unat j < 512"
    using assms(6,7) q idx_ok_append idx_ok_bound by auto
  have "(T', j) \<noteq> (T, i)"
  proof
    assume eq: "(T', j) = (T, i)"
    then have "p = P"
      using pt_tree_inj[OF assms(1) T', of P] assms(2-4) p idx_ok_append by auto
    with eq q assms(8) show False by auto
  qed
  then show "pte m' T' j = pte m T' j"
    using assms(5) ptablesI[OF T' p(1,2)] p(3) by (simp add: entry_changed_def)
qed

lemma path_new_entry:
  assumes "pt_tree m R F" and "path m R P = Some T" and "idx_ok (P @ [i])" and "length P \<le> 3"
    and "entry_changed m m' R T i"
  shows "path m' R (P @ i # r) =
    (if bit (pte m' T i) 0 then path m' (frame_of (pte m' T i)) r else None)"
proof -
  have "path m' R P = path m R P"
    by (rule path_entry_changed[OF assms]) (use assms(3,4) idx_ok_append in auto)
  then show ?thesis using assms(2) by (simp add: path_append)
qed

lemma root_entry_kept:
  assumes "pt_tree m R F" and "path m R P = Some T" and "idx_ok (P @ [i])" and "length P \<le> 3"
    and "entry_changed m m' R T i"
  shows "pte m' R 0x1FE = pte m R 0x1FE"
proof -
  have R: "path m R [] = Some R" by simp
  have "(R, 0x1FE) \<noteq> (T, i)"
  proof
    assume eq: "(R, 0x1FE) = (T, i)"
    then have "P = []"
      using pt_tree_inj[OF assms(1) _ R, of P] assms(2-4) idx_ok_append by auto
    with eq assms(3) show False by (simp add: idx_ok_def)
  qed
  then show ?thesis
    using assms(5) ptablesI[OF R] by (simp add: entry_changed_def)
qed

lemma entry_changed_store64:
  assumes "pt_tree m R F" and "path m R P = Some T" and "unat i < 512"
  shows "entry_changed m (store64 m (T + 8 * i) e) R T i"
  unfolding entry_changed_def ptables_def
  using pt_tree_aligned[OF assms(1)] assms(2,3)
  by (auto simp: pte_store64)

lemma entry_changed_zero:
  assumes "pt_tree m R F" and "entry_changed m m' R T i" and "page_aligned N"
    and "N \<notin> ptables m R" and "n \<le> 4096"
  shows "entry_changed m (zero_bytes m' N n) R T i"
  unfolding entry_changed_def
proof (intro allI impI)
  fix T' j assume a: "T' \<in> ptables m R \<and> unat j < 512 \<and> (T', j) \<noteq> (T, i)"
  then have "page_aligned T'" "T' \<noteq> N"
    using pt_tree_aligned[OF assms(1)] assms(4) by (auto simp: ptables_def)
  then have "pte (zero_bytes m' N n) T' j = pte m' T' j"
    using a assms(3,5) by (intro pte_zero_other) auto
  with a assms(2) show "pte (zero_bytes m' N n) T' j = pte m T' j"
    by (auto simp: entry_changed_def)
qed

section \<open>A new leaf, a cleared leaf\<close>

lemma leaf_path:
  assumes "pt_tree m R F" and "path m R P = Some T" and "idx_ok (P @ [i])" and "length P = 3"
    and "entry_changed m m' R T i" and "idx_ok q" and "length q \<le> 4"
  shows "path m' R q = (if q = P @ [i]
     then (if bit (pte m' T i) 0 then Some (frame_of (pte m' T i)) else None) else path m R q)"
proof (cases "prefix (P @ [i]) q")
  case True
  then have "q = P @ [i]" using assms(4,7) by (auto simp: prefix_def)
  then show ?thesis using path_new_entry[OF assms(1-3) _ assms(5), of "[]"] assms(4) by simp
next
  case False
  then show ?thesis
    using path_entry_changed[OF assms(1-3) _ assms(5-7)] assms(4) by auto
qed

lemma leaf_tree:
  assumes "pt_tree m R F" and "path m R P = Some T" and "idx_ok (P @ [i])" and "length P = 3"
    and "entry_changed m m' R T i" and "F' \<subseteq> F"
    and "bit (pte m' T i) 0 \<Longrightarrow> frame_of (pte m' T i) \<notin> F'"
  shows "pt_tree m' R F'" and "ptables m' R = ptables m R"
proof -
  note lp = leaf_path[OF assms(1-5)]
  have short: "path m' R q = path m R q" if "idx_ok q" "length q \<le> 3" for q
    using lp[OF that(1)] that(2) assms(4) by auto
  show "ptables m' R = ptables m R"
    unfolding ptables_def using short by auto
  have pte: "pte m' T' j = pte m T' j"
    if "idx_ok (q @ [j])" "length q \<le> 2" "path m R q = Some T'" for q j T'
  proof -
    have q: "idx_ok q" "unat j < 512" using that(1) idx_ok_append idx_ok_bound by auto
    have "T' \<noteq> T"
      using pt_tree_inj[OF assms(1) that(3), of P] assms(2-4) that(2) q idx_ok_append by auto
    then show ?thesis
      using assms(5) ptablesI[OF that(3) q(1)] that(2) q(2) by (auto simp: entry_changed_def)
  qed
  have root: "pte m' R 0x1FE = pte m R 0x1FE"
    by (rule root_entry_kept[OF assms(1-3) _ assms(5)]) (simp add: assms(4))
  show "pt_tree m' R F'"
    unfolding pt_tree_def
  proof (intro conjI allI impI)
    show "page_aligned R" "bit (pte m' R 0x1FE) 0" "frame_of (pte m' R 0x1FE) = R"
      using assms(1) root by (simp_all add: pt_tree_def)
    show "q = r" if "idx_ok q \<and> idx_ok r \<and> length q \<le> 3 \<and> length r \<le> 3 \<and>
        path m' R q = Some T' \<and> path m' R r = Some T'" for q r T'
      using that short pt_tree_inj[OF assms(1)] by metis
    show "pte m' T' j = 0 \<or> bit (pte m' T' j) 0"
      if "idx_ok (q @ [j]) \<and> length q \<le> 2 \<and> path m' R q = Some T'" for q j T'
      using that short[of q] pte pt_tree_entry[OF assms(1)] idx_ok_append by fastforce
    show "T' \<notin> F'" if "idx_ok q \<and> length q \<le> 4 \<and> path m' R q = Some T'" for q T'
      using that lp[of q] assms(6,7) pt_tree_fresh[OF assms(1)] by (auto split: if_splits)
  qed
qed

section \<open>A new, empty table\<close>

lemma table_path:
  assumes "pt_tree m R F" and "path m R P = Some T" and "idx_ok (P @ [i])" and "length P \<le> 2"
    and "entry_changed m m' R T i" and "\<not> bit (pte m T i) 0"
    and "bit (pte m' T i) 0" and "frame_of (pte m' T i) = N"
    and "\<forall>j. unat j < 512 \<longrightarrow> pte m' N j = 0" and "idx_ok q" and "length q \<le> 4"
  shows "path m' R q = (if q = P @ [i] then Some N else path m R q)"
proof (cases "prefix (P @ [i]) q")
  case True
  then obtain r where r: "q = P @ i # r" by (auto simp: prefix_def)
  have "path m' R q = path m' N r"
    using path_new_entry[OF assms(1-3) _ assms(5), of r] assms(4,7,8) r by simp
  moreover have "path m R q = None" using assms(2,6) r by (simp add: path_append)
  moreover have "path m' N r = None" if "r \<noteq> []"
  proof -
    from that obtain j r' where "r = j # r'" by (cases r) auto
    moreover then have "unat j < 512" using assms(10) r by (auto simp: idx_ok_def)
    ultimately show ?thesis using assms(9) by simp
  qed
  ultimately show ?thesis using r by auto
next
  case False
  then show ?thesis
    using path_entry_changed[OF assms(1-3) _ assms(5) assms(10,11)] assms(4) by auto
qed

lemma table_tree:
  assumes "pt_tree m R F" and "path m R P = Some T" and "idx_ok (P @ [i])" and "length P \<le> 2"
    and "entry_changed m m' R T i" and "\<not> bit (pte m T i) 0"
    and "bit (pte m' T i) 0" and "frame_of (pte m' T i) = N"
    and "\<forall>j. unat j < 512 \<longrightarrow> pte m' N j = 0" and "N \<in> F" and "F' \<subseteq> F - {N}"
  shows "pt_tree m' R F'" and "ptables m' R = insert N (ptables m R)"
proof -
  note tp = table_path[OF assms(1-9)]
  have old: "path m' R q = path m R q" if "idx_ok q" "length q \<le> 4" "q \<noteq> P @ [i]" for q
    using tp that by simp
  have new: "path m' R (P @ [i]) = Some N" using tp[OF assms(3)] assms(4) by simp
  have oldP: "path m R (P @ [i]) = None" using assms(2,6) by (simp add: path_append)
  have notN: "path m R q \<noteq> Some N" if "idx_ok q" "length q \<le> 4" for q
    using pt_tree_fresh[OF assms(1) _ that] assms(10) by auto
  show "ptables m' R = insert N (ptables m R)"
  proof (intro equalityI subsetI)
    fix T' assume "T' \<in> ptables m' R"
    then obtain q where q: "idx_ok q" "length q \<le> 3" "path m' R q = Some T'"
      by (auto simp: ptables_def)
    then show "T' \<in> insert N (ptables m R)"
      using new old[OF q(1)] ptablesI by (cases "q = P @ [i]") auto
  next
    fix T' assume "T' \<in> insert N (ptables m R)"
    moreover have "N \<in> ptables m' R" using ptablesI[OF new assms(3)] assms(4) by simp
    moreover have "T' \<in> ptables m' R" if "T' \<in> ptables m R"
    proof -
      from that obtain q where q: "idx_ok q" "length q \<le> 3" "path m R q = Some T'"
        by (auto simp: ptables_def)
      then have "q \<noteq> P @ [i]" using oldP by auto
      then have "path m' R q = Some T'" using q old[of q] by simp
      then show ?thesis using q by (intro ptablesI) auto
    qed
    ultimately show "T' \<in> ptables m' R" by auto
  qed
  have root: "pte m' R 0x1FE = pte m R 0x1FE"
    by (rule root_entry_kept[OF assms(1-3) _ assms(5)]) (use assms(4) in simp)
  show "pt_tree m' R F'"
    unfolding pt_tree_def
  proof (intro conjI allI impI)
    show "page_aligned R" "bit (pte m' R 0x1FE) 0" "frame_of (pte m' R 0x1FE) = R"
      using assms(1) root by (simp_all add: pt_tree_def)
    show "q = r" if a: "idx_ok q \<and> idx_ok r \<and> length q \<le> 3 \<and> length r \<le> 3 \<and>
        path m' R q = Some T' \<and> path m' R r = Some T'" for q r T'
    proof -
      have *: "r = P @ [i]" if b: "idx_ok r" "length r \<le> 3" "path m' R r = Some N" for r
        using notN[of r] old[of r] b by (cases "r = P @ [i]") auto
      show "q = r"
      proof (cases "T' = N")
        case True
        then show ?thesis using *[of q] *[of r] a by blast
      next
        case False
        then have "q \<noteq> P @ [i]" "r \<noteq> P @ [i]" using a new by auto
        then have "path m R q = Some T'" "path m R r = Some T'" using a old[of q] old[of r] by auto
        from pt_tree_inj[OF assms(1) this] a show ?thesis by blast
      qed
    qed
    show "pte m' T' j = 0 \<or> bit (pte m' T' j) 0"
      if a: "idx_ok (q @ [j]) \<and> length q \<le> 2 \<and> path m' R q = Some T'" for q j T'
    proof (cases "q = P @ [i]")
      case True
      then have "T' = N" using a new by simp
      then show ?thesis using assms(9) a idx_ok_bound[of q j "[]"] by simp
    next
      case False
      have q: "idx_ok q" "unat j < 512" using a idx_ok_append idx_ok_bound[of q j "[]"] by auto
      then have T': "path m R q = Some T'" using a old[of q] False by simp
      show ?thesis
      proof (cases "(T', j) = (T, i)")
        case False
        then have "pte m' T' j = pte m T' j"
          using assms(5) ptablesI[OF T' q(1)] a q(2) by (simp add: entry_changed_def)
        then show ?thesis using pt_tree_entry[OF assms(1) T'] a by simp
      qed (use assms(7) in simp)
    qed
    show "T' \<notin> F'" if a: "idx_ok q \<and> length q \<le> 4 \<and> path m' R q = Some T'" for q T'
      using a tp[of q] assms(11) pt_tree_fresh[OF assms(1)] by (auto split: if_splits)
  qed
qed

text \<open>Changing the content of pages that are not tables changes no walk.\<close>

lemma data_tree:
  assumes "pt_tree m R F" and "\<And>T j. T \<in> ptables m R \<Longrightarrow> unat j < 512 \<Longrightarrow> pte m' T j = pte m T j"
  shows "idx_ok q \<Longrightarrow> length q \<le> 4 \<Longrightarrow> path m' R q = path m R q"
    and "pt_tree m' R F" and "ptables m' R = ptables m R"
proof -
  have same: "path m' R q = path m R q" if "idx_ok q" "length q \<le> 4" for q
  proof (rule path_cong)
    fix p j r T' assume q: "q = p @ j # r" and T': "path m R p = Some T'"
    have p: "idx_ok p" "length p \<le> 3" "unat j < 512"
      using that q idx_ok_append idx_ok_bound by auto
    show "pte m' T' j = pte m T' j" using assms(2) ptablesI[OF T' p(1,2)] p(3) by simp
  qed
  then show "idx_ok q \<Longrightarrow> length q \<le> 4 \<Longrightarrow> path m' R q = path m R q" .
  show tabs: "ptables m' R = ptables m R" unfolding ptables_def using same by auto
  have R: "R \<in> ptables m R" by (rule ptablesI[of _ _ "[]"]) simp_all
  show "pt_tree m' R F"
    unfolding pt_tree_def
  proof (intro conjI allI impI)
    show "page_aligned R" "bit (pte m' R 0x1FE) 0" "frame_of (pte m' R 0x1FE) = R"
      using assms(1) assms(2)[OF R, of "0x1FE"] by (simp_all add: pt_tree_def)
    show "q = r" if "idx_ok q \<and> idx_ok r \<and> length q \<le> 3 \<and> length r \<le> 3 \<and>
        path m' R q = Some T' \<and> path m' R r = Some T'" for q r T'
    proof (rule pt_tree_inj[OF assms(1)])
      show "path m R q = Some T'" "path m R r = Some T'" using that same[of q] same[of r] by auto
    qed (use that in auto)
    show "pte m' T' j = 0 \<or> bit (pte m' T' j) 0"
      if a: "idx_ok (q @ [j]) \<and> length q \<le> 2 \<and> path m' R q = Some T'" for q j T'
    proof -
      have q: "idx_ok q" "unat j < 512" using a idx_ok_append idx_ok_bound[of q j "[]"] by auto
      then have T': "path m R q = Some T'" using a same[of q] by simp
      then show ?thesis
        using pt_tree_entry[OF assms(1) T'] a assms(2)[OF ptablesI[OF T' q(1)] q(2)] by simp
    qed
    show "T' \<notin> F" if "idx_ok q \<and> length q \<le> 4 \<and> path m' R q = Some T'" for q T'
      using that same pt_tree_fresh[OF assms(1)] by auto
  qed
qed

section \<open>Access through the window\<close>

lemma entry_offset: "8 * (i :: u64) = of_nat (8 * unat i)"
  by simp

lemma translate_window:
  assumes "pt_tree (pmem s) (frame_of (cr3 s)) F"
    and "page_aligned w" and "mmu_indices w = replicate k 0x1FE @ q" and "d < 4096"
    and "path (pmem s) (frame_of (cr3 s)) q = Some T"
  shows "translate s (w + of_nat d) = Some (T + of_nat d)"
  using translate_page[OF assms(2,4), of s] pt_tree_selfmap[OF assms(1), of k q] assms(3,5) by simp

lemma within_page_offset:
  assumes "page_aligned w" and "d \<le> 4088"
  shows "within_page (w + of_nat d)"
proof -
  have "take_bit 12 (w + of_nat d) = of_nat d"
    by (rule page_offset(1)[OF assms(1)]) (use assms(2) in simp)
  then show ?thesis
    using assms(2) by (simp add: within_page_def word_le_nat_alt unat_of_nat)
qed

lemma window_entry:
  assumes "pt_tree (pmem s) (frame_of (cr3 s)) F"
    and "page_aligned w" and "mmu_indices w = replicate k 0x1FE @ q" and "unat i < 512"
    and "path (pmem s) (frame_of (cr3 s)) q = Some T"
  shows "vload64 (w + 8 * i) s = Inr (pte (pmem s) T i)"
    and "vstore64 (w + 8 * i) e s = Inr (s\<lparr>pmem := store64 (pmem s) (T + 8 * i) e\<rparr>)"
proof -
  have t: "translate s (w + 8 * i) = Some (T + 8 * i)"
    unfolding entry_offset by (rule translate_window[OF assms(1-3)]) (use assms(4,5) in auto)
  have p: "within_page (w + 8 * i)"
    unfolding entry_offset by (rule within_page_offset[OF assms(2)]) (use assms(4) in auto)
  show "vload64 (w + 8 * i) s = Inr (pte (pmem s) T i)"
    by (simp add: vload64_def p t pte_def)
  show "vstore64 (w + 8 * i) e s = Inr (s\<lparr>pmem := store64 (pmem s) (T + 8 * i) e\<rparr>)"
    by (simp add: vstore64_def p t)
qed

text \<open>A loop that stores zeros at increasing addresses of one page.\<close>

lemma zero_loop:
  fixes s :: "'a machine_scheme"
  assumes "\<And>n. n \<le> 4096 \<Longrightarrow>
      path (zero_bytes (pmem s) N n) (frame_of (cr3 s)) (mmu_indices w) = Some N"
    and "page_aligned w" and "c \<le> 8" and "c * k \<le> 4088 + c"
  shows "rfold (\<lambda>i. vstore64 (w + of_nat (c * i)) 0) [0..<k] s =
    Inr (s\<lparr>pmem := zero_bytes (pmem s) N (if k = 0 then 0 else c * (k - 1) + 8)\<rparr>)"
  using assms(4)
proof (induction k)
  case 0
  have "zero_bytes (pmem s) N 0 = pmem s" by (simp add: zero_bytes_def fun_eq_iff)
  then show ?case by simp
next
  case (Suc k)
  define n where "n = (if k = 0 then 0 else c * (k - 1) + 8)"
  let ?s = "s\<lparr>pmem := zero_bytes (pmem s) N n\<rparr>"
  have ck: "c * k \<le> 4088" using Suc.prems by simp
  have n: "c * k \<le> n" "n \<le> c * k + 8"
    using assms(3) by (auto simp: n_def diff_mult_distrib2 split: if_splits)
  have IH: "rfold (\<lambda>i. vstore64 (w + of_nat (c * i)) 0) [0..<k] s = Inr ?s"
    using Suc.IH Suc.prems by (simp add: n_def)
  have t: "translate ?s (w + of_nat (c * k)) = Some (N + of_nat (c * k))"
    using translate_page[OF assms(2), of "c * k" ?s] assms(1)[of n] ck n by simp
  have "vstore64 (w + of_nat (c * k)) 0 ?s =
      Inr (s\<lparr>pmem := store64 (zero_bytes (pmem s) N n) (N + of_nat (c * k)) 0\<rparr>)"
    using t within_page_offset[OF assms(2) ck] by (simp add: vstore64_def)
  also have "store64 (zero_bytes (pmem s) N n) (N + of_nat (c * k)) 0 =
      zero_bytes (pmem s) N (max n (c * k + 8))"
    by (rule store64_zero) (use n ck in auto)
  also have "max n (c * k + 8) = c * k + 8" using n by simp
  finally show ?case using IH by simp
qed

section \<open>Entering a fresh page as a table\<close>

text \<open>
  The memory after a free page \<open>N\<close> has been entered at index \<open>i\<close> of the table \<open>T\<close> and
  its first \<open>n\<close> bytes have been cleared.
\<close>

definition table_entered :: "(u64 \<Rightarrow> u8) \<Rightarrow> u64 \<Rightarrow> u64 \<Rightarrow> u64 \<Rightarrow> u64 \<Rightarrow> nat \<Rightarrow> u64 \<Rightarrow> u8" where
  "table_entered m T i e N n = zero_bytes (store64 m (T + 8 * i) e) N n"

lemma path_selfmap_root:
  assumes "bit (pte m R 0x1FE) 0" and "frame_of (pte m R 0x1FE) = R"
  shows "path m R (replicate k 0x1FE @ q) = path m R q"
  by (induction k) (simp_all add: assms)

lemma table_entered_facts:
  assumes "pt_tree m R F" and "path m R P = Some T" and "idx_ok (P @ [i])" and "length P \<le> 3"
    and "N \<in> F" and "page_aligned N" and "frame_of e = N" and "bit e 0" and "n \<le> 4096"
  shows "entry_changed m (table_entered m T i e N n) R T i"
    and "pte (table_entered m T i e N n) T i = e"
    and "path (table_entered m T i e N n) R (replicate k 0x1FE @ P @ [i]) = Some N"
    and "page_aligned f \<Longrightarrow> d < 4096 \<Longrightarrow> f \<noteq> N \<Longrightarrow> f \<noteq> T \<Longrightarrow>
       table_entered m T i e N n (f + of_nat d) = m (f + of_nat d)"
proof -
  let ?m = "table_entered m T i e N n"
  have i: "unat i < 512" using assms(3) idx_ok_bound[of P i "[]"] by simp
  have P: "idx_ok P" "length P \<le> 3" using assms(3,4) idx_ok_append by auto
  have Tal: "page_aligned T" by (rule pt_tree_aligned[OF assms(1,2)])
  have Ntab: "N \<notin> ptables m R"
    using pt_tree_fresh[OF assms(1)] assms(5) by (fastforce simp: ptables_def)
  have TN: "T \<noteq> N" using ptablesI[OF assms(2) P] Ntab by auto
  show c: "entry_changed m ?m R T i"
    unfolding table_entered_def
    by (rule entry_changed_zero[OF assms(1) entry_changed_store64[OF assms(1,2) i] assms(6) Ntab assms(9)])
  show eT: "pte ?m T i = e"
    using pte_zero_other[OF assms(6) Tal i assms(9) TN] pte_store64[OF Tal Tal i i]
    by (simp add: table_entered_def)
  have "pte ?m R 0x1FE = pte m R 0x1FE"
    by (rule root_entry_kept[OF assms(1-3) P(2) c])
  then have "bit (pte ?m R 0x1FE) 0" "frame_of (pte ?m R 0x1FE) = R"
    using assms(1) by (simp_all add: pt_tree_def)
  then show "path ?m R (replicate k 0x1FE @ P @ [i]) = Some N"
    using path_selfmap_root path_new_entry[OF assms(1-3) P(2) c, of "[]"] eT assms(7,8) by simp
  show "?m (f + of_nat d) = m (f + of_nat d)"
    if "page_aligned f" "d < 4096" "f \<noteq> N" "f \<noteq> T"
    using that store64_other_page[OF Tal that(1) i] zero_bytes_other_page[OF assms(6) that(1) assms(9)]
    by (simp add: table_entered_def)
qed

lemma table_entered_tree:
  assumes "pt_tree m R F" and "path m R P = Some T" and "idx_ok (P @ [i])" and "length P \<le> 2"
    and "N \<in> F" and "page_aligned N" and "frame_of e = N" and "bit e 0"
    and "pte m T i = 0" and "F' \<subseteq> F - {N}"
  shows "pt_tree (table_entered m T i e N 4096) R F'"
    and "ptables (table_entered m T i e N 4096) R = insert N (ptables m R)"
    and "idx_ok q \<Longrightarrow> length q \<le> 4 \<Longrightarrow>
       path (table_entered m T i e N 4096) R q = (if q = P @ [i] then Some N else path m R q)"
proof -
  let ?m = "table_entered m T i e N 4096"
  have P: "length P \<le> 3" using assms(4) by simp
  note f = table_entered_facts(1,2)[OF assms(1-3) P assms(5-8), of 4096, simplified]
  have nb: "\<not> bit (pte m T i) 0" using assms(9) by simp
  have eb: "bit (pte ?m T i) 0" "frame_of (pte ?m T i) = N" using f(2) assms(7,8) by simp_all
  have z: "\<forall>j. unat j < 512 \<longrightarrow> pte ?m N j = 0"
    using pte_zero_same[OF assms(6)] by (simp add: table_entered_def)
  show "pt_tree ?m R F'" "ptables ?m R = insert N (ptables m R)"
    using table_tree[OF assms(1-4) f(1) nb eb z assms(5,10)] by simp_all
  show "idx_ok q \<Longrightarrow> length q \<le> 4 \<Longrightarrow> path ?m R q = (if q = P @ [i] then Some N else path m R q)"
    by (rule table_path[OF assms(1-4) f(1) nb eb z])
qed

section \<open>Copying a page byte by byte\<close>

lemma pte_upd_other:
  assumes "page_aligned f" and "page_aligned g" and "unat j < 512" and "d < 4096" and "g \<noteq> f"
  shows "pte (m(f + of_nat d := b)) g j = pte m g j"
  unfolding pte_def
proof (rule load64_cong)
  fix k :: nat assume "k < 8"
  then have "g + of_nat (8 * unat j + k) \<noteq> f + of_nat d"
    by (subst in_page_eq) (use assms in auto)
  then have "g + 8 * j + of_nat k \<noteq> f + of_nat d"
    by (simp only: entry_byte[OF assms(3)] not_False_eq_True)
  then show "(m(f + of_nat d := b)) (g + 8 * j + of_nat k) = m (g + 8 * j + of_nat k)" by simp
qed

lemma vload_bytes_page:
  assumes "page_aligned va" and "path (pmem s) (frame_of (cr3 s)) (mmu_indices va) = Some f"
    and "d + n \<le> 4096"
  shows "vload_bytes n (va + of_nat d) s = Inr (map (\<lambda>k. pmem s (f + of_nat k)) [d..<d + n])"
  using assms(3)
proof (induction n arbitrary: d)
  case (Suc n)
  have "translate s (va + of_nat d) = Some (f + of_nat d)"
    using translate_page[OF assms(1), of d s] assms(2) Suc.prems by simp
  then have "vload8 (va + of_nat d) s = Inr (pmem s (f + of_nat d))" by (simp add: vload8_def)
  moreover have "va + of_nat d + 1 = va + of_nat (Suc d)" by simp
  moreover have "[d..<d + Suc n] = d # [Suc d..<Suc d + n]"
    using upt_conv_Cons[of d "d + Suc n"] by simp
  moreover have "vload_bytes n (va + of_nat (Suc d)) s =
      Inr (map (\<lambda>k. pmem s (f + of_nat k)) [Suc d..<Suc d + n])"
    by (rule Suc.IH) (use Suc.prems in simp)
  ultimately show ?case by (simp only: vload_bytes.simps rbind_simps list.map)
qed simp

lemma vstore_bytes_page:
  fixes s :: "'a machine_scheme"
  assumes "pt_tree (pmem s) (frame_of (cr3 s)) F" and "p1_index va \<noteq> 0x1FE" and "page_aligned va"
    and "path (pmem s) (frame_of (cr3 s)) (mmu_indices va) = Some N"
    and "N \<notin> ptables (pmem s) (frame_of (cr3 s))" and "d + length bs \<le> 4096"
  shows "\<exists>m'. vstore_bytes (va + of_nat d) bs s = Inr (s\<lparr>pmem := m'\<rparr>) \<and>
    (\<forall>k < length bs. m' (N + of_nat (d + k)) = bs ! k) \<and>
    (\<forall>f e. page_aligned f \<and> e < 4096 \<and> (f \<noteq> N \<or> e < d) \<longrightarrow> m' (f + of_nat e) = pmem s (f + of_nat e)) \<and>
    pt_tree m' (frame_of (cr3 s)) F \<and> ptables m' (frame_of (cr3 s)) = ptables (pmem s) (frame_of (cr3 s)) \<and>
    (\<forall>q. idx_ok q \<and> length q \<le> 4 \<longrightarrow> path m' (frame_of (cr3 s)) q = path (pmem s) (frame_of (cr3 s)) q) \<and>
    (\<forall>T j. T \<in> ptables (pmem s) (frame_of (cr3 s)) \<and> unat j < 512 \<longrightarrow> pte m' T j = pte (pmem s) T j)"
  using assms
proof (induction bs arbitrary: d s)
  case Nil
  have "s = s\<lparr>pmem := pmem s\<rparr>" by simp
  then show ?case using Nil by (intro exI[of _ "pmem s"]) simp
next
  case (Cons b bs)
  let ?R = "frame_of (cr3 s)"
  define m1 where "m1 = (pmem s)(N + of_nat d := b)"
  let ?s1 = "s\<lparr>pmem := m1\<rparr>"
  have d: "d < 4096" "Suc d + length bs \<le> 4096" using Cons.prems(6) by simp_all
  have N: "page_aligned N" by (rule pt_tree_aligned[OF Cons.prems(1,4)])
  have pt: "pte m1 T j = pte (pmem s) T j" if "T \<in> ptables (pmem s) ?R" "unat j < 512" for T j
    unfolding m1_def
  proof (rule pte_upd_other[OF N _ that(2) d(1)])
    show "page_aligned T" using that(1) pt_tree_aligned[OF Cons.prems(1)] by (auto simp: ptables_def)
    show "T \<noteq> N" using that(1) Cons.prems(5) by auto
  qed
  note dt = data_tree[OF Cons.prems(1) pt]
  have st: "vstore8 (va + of_nat d) b s = Inr ?s1"
    using translate_page[OF Cons.prems(3), of d s] Cons.prems(4) d by (simp add: vstore8_def m1_def)
  have "\<exists>m'. vstore_bytes (va + of_nat (Suc d)) bs ?s1 = Inr (?s1\<lparr>pmem := m'\<rparr>) \<and>
    (\<forall>k < length bs. m' (N + of_nat (Suc d + k)) = bs ! k) \<and>
    (\<forall>f e. page_aligned f \<and> e < 4096 \<and> (f \<noteq> N \<or> e < Suc d) \<longrightarrow> m' (f + of_nat e) = pmem ?s1 (f + of_nat e)) \<and>
    pt_tree m' (frame_of (cr3 ?s1)) F \<and> ptables m' (frame_of (cr3 ?s1)) = ptables (pmem ?s1) (frame_of (cr3 ?s1)) \<and>
    (\<forall>q. idx_ok q \<and> length q \<le> 4 \<longrightarrow> path m' (frame_of (cr3 ?s1)) q = path (pmem ?s1) (frame_of (cr3 ?s1)) q) \<and>
    (\<forall>T j. T \<in> ptables (pmem ?s1) (frame_of (cr3 ?s1)) \<and> unat j < 512 \<longrightarrow> pte m' T j = pte (pmem ?s1) T j)"
    by (rule Cons.IH)
      (use Cons.prems dt d(2) idx_ok_indices[OF Cons.prems(2)] in simp_all)
  then obtain m' where m': "vstore_bytes (va + of_nat (Suc d)) bs ?s1 = Inr (s\<lparr>pmem := m'\<rparr>)"
    "\<And>k. k < length bs \<Longrightarrow> m' (N + of_nat (Suc d + k)) = bs ! k"
    "\<And>f e. page_aligned f \<Longrightarrow> e < 4096 \<Longrightarrow> f \<noteq> N \<or> e < Suc d \<Longrightarrow> m' (f + of_nat e) = m1 (f + of_nat e)"
    "pt_tree m' ?R F" "ptables m' ?R = ptables m1 ?R"
    "\<And>q. idx_ok q \<Longrightarrow> length q \<le> 4 \<Longrightarrow> path m' ?R q = path m1 ?R q"
    "\<And>T j. T \<in> ptables m1 ?R \<Longrightarrow> unat j < 512 \<Longrightarrow> pte m' T j = pte m1 T j"
    by (auto simp del: of_nat_Suc of_nat_add)
  show ?case
  proof (intro exI[of _ m'] conjI allI impI)
    have "va + of_nat d + 1 = va + of_nat (Suc d)" by simp
    then show "vstore_bytes (va + of_nat d) (b # bs) s = Inr (s\<lparr>pmem := m'\<rparr>)"
      using st m'(1) by (simp only: vstore_bytes.simps rbind_simps)
    show "m' (N + of_nat (d + k)) = (b # bs) ! k" if "k < length (b # bs)" for k
    proof (cases k)
      case 0
      then show ?thesis using m'(3)[OF N d(1)] by (simp add: m1_def)
    next
      case (Suc k')
      then show ?thesis using m'(2)[of k'] that by simp
    qed
    show "m' (f + of_nat e) = pmem s (f + of_nat e)"
      if a: "page_aligned f \<and> e < 4096 \<and> (f \<noteq> N \<or> e < d)" for f e
    proof -
      have "f + of_nat e \<noteq> N + of_nat d" by (subst in_page_eq) (use a N d in auto)
      then show ?thesis using m'(3)[of f e] a by (auto simp: m1_def)
    qed
  qed (use m' dt pt in auto)
qed

end
