(* ===== verification/Paging.thy ===== *)
theory Paging
  imports Page_Tables
begin

text \<open>
  The operations on page tables: \<open>sys/paging.c\<close> and the page table part of
  \<open>sys/task_manager.c\<close> (\<open>check_cow\<close>, \<open>get_phys_addr\<close>, \<open>cow\<close>, \<open>mappageTable\<close>,
  \<open>change_ptable\<close>). All of them reach the tables through the recursive window, so they
  are expressed by accesses through the page walk of the current state.
\<close>

section \<open>Operations\<close>

text \<open>The loop that clears a table: \<open>for(int i=0;i<512;i++) p[i]=0x0;\<close>\<close>

definition zero_table :: "u64 \<Rightarrow> 'a machine_scheme \<Rightarrow> 'a machine_scheme res" where
  "zero_table tbl = rfold (\<lambda>i. vstore64 (tbl + of_nat (8 * i)) 0) [0..<512]"

text \<open>
  One level of the descent: when entry \<open>idx\<close> of the table at \<open>tbl\<close> is zero, a page is
  allocated, entered with flags 7 and cleared through \<open>nexttbl\<close>. The result is \<open>False\<close>
  when \<open>get_page\<close> returns 0, where the code returns -1.
\<close>

definition ensure_level ::
    "u64 \<Rightarrow> u64 \<Rightarrow> u64 \<Rightarrow> 'a machine_scheme \<Rightarrow> (bool \<times> 'a machine_scheme) res" where
  "ensure_level tbl idx nexttbl s =
     rbind (vload64 (tbl + 8 * idx) s) (\<lambda>e.
       if e = 0 then
         rbind (get_page s) (\<lambda>(pg, s).
           if pg = 0 then Inr (False, s)
           else rbind (vstore64 (tbl + 8 * idx) ((pg AND 0xFFFFFFFFFFFFF000) OR 7) s) (\<lambda>s.
             rbind (zero_table nexttbl s) (\<lambda>s. Inr (True, s))))
       else Inr (True, s))"

text \<open>
  The descent through the three upper levels, the common part of \<open>set_Cow\<close> and
  \<open>map_phyaddr\<close>. The result holds the window address of the last table.
\<close>

definition descend :: "u64 \<Rightarrow> 'a machine_scheme \<Rightarrow> (u64 option \<times> 'a machine_scheme) res" where
  "descend vadd s =
     (let i1 = p1_index vadd; i2 = p2_index vadd; i3 = p3_index vadd;
          p1 = window 0x1FE 0x1FE 0x1FE 0x1FE base0;
          p2 = window 0x1FE 0x1FE 0x1FE i1 p1;
          p3 = window 0x1FE 0x1FE i1 i2 p2;
          p4 = window 0x1FE i1 i2 i3 p3
      in rbind (ensure_level p1 i1 p2 s) (\<lambda>(ok, s).
           if \<not> ok then Inr (None, s)
           else rbind (ensure_level p2 i2 p3 s) (\<lambda>(ok, s).
             if \<not> ok then Inr (None, s)
             else rbind (ensure_level p3 i3 p4 s) (\<lambda>(ok, s).
               if \<not> ok then Inr (None, s) else Inr (Some p4, s)))))"

definition set_Cow :: "u64 \<Rightarrow> u64 \<Rightarrow> 'a machine_scheme \<Rightarrow> (u64 \<times> 'a machine_scheme) res" where
  "set_Cow vadd padd s =
     rbind (descend vadd s) (\<lambda>(t, s).
       case t of None \<Rightarrow> Inr (-1, s)
       | Some p4 \<Rightarrow>
           rbind (vstore64 (p4 + 8 * p4_index vadd) ((padd AND 0xFFFFFFFFFFFFF000) OR 5) s)
             (\<lambda>s. Inr (padd, s)))"

text \<open>The loop \<open>for (int i = 0; i < 512; ++i) *((uint64_t*)(vadd+i)) = 0;\<close>\<close>

definition clear_page :: "u64 \<Rightarrow> 'a machine_scheme \<Rightarrow> 'a machine_scheme res" where
  "clear_page vadd = rfold (\<lambda>i. vstore64 (vadd + of_nat (1 * i)) 0) [0..<512]"

definition map_phyaddr :: "u64 \<Rightarrow> 'a machine_scheme \<Rightarrow> (u64 \<times> 'a machine_scheme) res" where
  "map_phyaddr vadd s =
     rbind (descend vadd s) (\<lambda>(t, s).
       case t of None \<Rightarrow> Inr (-1, s)
       | Some p4 \<Rightarrow>
           rbind (vload64 (p4 + 8 * p4_index vadd) s) (\<lambda>padd.
           rbind (if padd AND 1 = 0 then
                    rbind (get_page s) (\<lambda>(pg, s).
                      if pg = 0 then Inr (None, s)
                      else rbind (vstore64 (p4 + 8 * p4_index vadd)
                                    ((pg AND 0xFFFFFFFFFFFFF000) OR 7) s)
                             (\<lambda>s. Inr (Some pg, s)))
                  else Inr (Some padd, s)) (\<lambda>(r, s).
             case r of None \<Rightarrow> Inr (-1, s)
             | Some padd \<Rightarrow> rbind (clear_page vadd s) (\<lambda>s. Inr (padd, s)))))"

text \<open>
  The window address of the last table, as \<open>check_cow\<close>, \<open>get_phys_addr\<close> and \<open>cow\<close> build
  it, without looking at the levels above.
\<close>

definition p4_window :: "u64 \<Rightarrow> u64" where
  "p4_window addr = window 0x1FE (p1_index addr) (p2_index addr) (p3_index addr) base0"

definition check_cow :: "u64 \<Rightarrow> 'a machine_scheme \<Rightarrow> bool res" where
  "check_cow addr s =
     rbind (vload64 (p4_window addr + 8 * p4_index addr) s) (\<lambda>e.
       Inr (e \<noteq> 0 \<and> e AND 7 = 5))"

definition get_phys_addr :: "u64 \<Rightarrow> 'a machine_scheme \<Rightarrow> u64 res" where
  "get_phys_addr addr s =
     (let i1 = p1_index addr; i2 = p2_index addr; i3 = p3_index addr;
          p1 = window 0x1FE 0x1FE 0x1FE 0x1FE base0;
          p2 = window 0x1FE 0x1FE 0x1FE i1 base0;
          p3 = window 0x1FE 0x1FE i1 i2 base0
      in rbind (vload64 (p1 + 8 * i1) s) (\<lambda>p2_pg.
           if p2_pg = 0 then Inr 0
           else rbind (vload64 (p2 + 8 * i2) s) (\<lambda>p3_pg.
             if p3_pg = 0 then Inr 0
             else rbind (vload64 (p3 + 8 * i3) s) (\<lambda>p4_pg.
               if p4_pg = 0 then Inr 0
               else vload64 (p4_window addr + 8 * p4_index addr) s))))"

text \<open>
  \<open>unmap_phyaddr\<close>: nothing happens when a table or the page is missing. The page is
  cleared and freed when its reference count is one; the count is decremented and the
  entry is cleared in any case.
\<close>

definition release_leaf :: "u64 \<Rightarrow> u64 \<Rightarrow> u64 \<Rightarrow> 'a machine_scheme \<Rightarrow> 'a machine_scheme res" where
  "release_leaf vadd p4 padd s =
     rbind (get_reference_count padd s) (\<lambda>rc.
     rbind (if rc = 1 then rbind (clear_page vadd s) (free_page padd) else Inr s) (\<lambda>s.
     rbind (decrement_reference_count padd s)
       (vstore64 (p4 + 8 * p4_index vadd) 0)))"

definition unmap_phyaddr :: "u64 \<Rightarrow> 'a machine_scheme \<Rightarrow> 'a machine_scheme res" where
  "unmap_phyaddr vadd s =
     (let i1 = p1_index vadd; i2 = p2_index vadd; i3 = p3_index vadd;
          p1 = window 0x1FE 0x1FE 0x1FE 0x1FE base0;
          p2 = window 0x1FE 0x1FE 0x1FE i1 p1;
          p3 = window 0x1FE 0x1FE i1 i2 p2;
          p4 = window 0x1FE i1 i2 i3 p3
      in rbind (vload64 (p1 + 8 * i1) s) (\<lambda>e.
           if e = 0 then Inr s
           else rbind (vload64 (p2 + 8 * i2) s) (\<lambda>e.
             if e = 0 then Inr s
             else rbind (vload64 (p3 + 8 * i3) s) (\<lambda>e.
               if e = 0 then Inr s
               else rbind (vload64 (p4 + 8 * p4_index vadd) s) (\<lambda>padd.
                 if padd AND 1 = 0 then Inr s else release_leaf vadd p4 padd s)))))"

text \<open>
  \<open>unmap_phyaddr_range\<close>. The loop counter is a C \<open>int\<close>: it is the start address cut to 32
  bits and sign-extended in the comparison with \<open>vendAddr\<close> and in the call. \<open>None\<close>
  stands for a loop that does not end. Where the counter would pass the largest \<open>int\<close>
  the C program is undefined, and the model stops.
\<close>

partial_function (option) unmap_loop ::
    "int \<Rightarrow> u64 \<Rightarrow> 'a machine_scheme \<Rightarrow> 'a machine_scheme res option" where
  "unmap_loop i vendAddr s =
     (if (of_int i :: u64) < vendAddr then
        (case unmap_phyaddr (of_int i) s of
           Inl e \<Rightarrow> Some (Inl e)
         | Inr s' \<Rightarrow> if i + 4096 < 2 ^ 31 then unmap_loop (i + 4096) vendAddr s' else Some (Inl IntOverflow))
      else Some (Inr s))"

definition unmap_phyaddr_range ::
    "u64 \<Rightarrow> u64 \<Rightarrow> 'a machine_scheme \<Rightarrow> 'a machine_scheme res option" where
  "unmap_phyaddr_range vstartAddr vendAddr s =
     (let vendAddr = (if vendAddr mod PAGE_SIZE \<noteq> 0
                      then push_bit 12 (drop_bit 12 vendAddr + 1) else vendAddr);
          vstartAddr = (if vstartAddr mod PAGE_SIZE \<noteq> 0
                        then push_bit 12 (drop_bit 12 vstartAddr) else vstartAddr)
      in unmap_loop (to_int32 vstartAddr) vendAddr s)"

text \<open>
  \<open>cow\<close>: the page is saved in the buffer \<open>cow_page\<close>, a new page takes its place in the
  last table, and the saved bytes are written to it. No other function reads the buffer,
  so it is a local value here.
\<close>

definition cow :: "u64 \<Rightarrow> 'a machine_scheme \<Rightarrow> 'a machine_scheme res" where
  "cow addr s =
     (let cow_addr = addr AND 0xFFFFFFFFFFFFF000;
          p4 = p4_window addr
      in rbind (vload_bytes 4096 cow_addr s) (\<lambda>cow_page.
         rbind (vload64 (p4 + 8 * p4_index addr) s) (\<lambda>old_page.
         rbind (if old_page \<noteq> 5 \<and> old_page \<noteq> 0 then decrement_reference_count old_page s
                else Inr s) (\<lambda>s.
         rbind (get_page s) (\<lambda>(padd, s).
         rbind (vstore64 (p4 + 8 * p4_index addr) ((padd AND 0xFFFFFFFFFFFFF000) OR 7) s) (\<lambda>s.
           vstore_bytes cow_addr cow_page s))))))"

definition change_ptable :: "u64 \<Rightarrow> 'a machine_scheme \<Rightarrow> 'a machine_scheme" where
  "change_ptable addr s = s\<lparr>cr3 := addr\<rparr>"

section \<open>The invariant of the current address space\<close>

abbreviation root :: "'a machine_scheme \<Rightarrow> u64" where
  "root s \<equiv> frame_of (cr3 s)"

abbreviation walk_to :: "'a machine_scheme \<Rightarrow> u64 list \<Rightarrow> u64 option" where
  "walk_to s q \<equiv> path (pmem s) (root s) q"

abbreviation tables :: "'a machine_scheme \<Rightarrow> u64 set" where
  "tables s \<equiv> ptables (pmem s) (root s)"

definition pt_inv :: "'a machine_scheme \<Rightarrow> bool" where
  "pt_inv s \<longleftrightarrow> pmm_inv s \<and> pt_tree (pmem s) (root s) (set (pool s))"

text \<open>
  What the descent may do to a state: tables are added from the free pool, no mapping
  changes, and the content of every page that is not a table is kept.
\<close>

definition extends :: "'a machine_scheme \<Rightarrow> 'a machine_scheme \<Rightarrow> bool" where
  "extends s s' \<longleftrightarrow> cr3 s' = cr3 s \<and> FREEMEMORY s' = FREEMEMORY s \<and>
     set (pool s') \<subseteq> set (pool s) \<and> tables s \<subseteq> tables s' \<and>
     tables s' \<subseteq> tables s \<union> (set (pool s) - set (pool s')) \<and>
     (\<forall>q. idx_ok q \<and> length q = 4 \<longrightarrow> walk_to s' q = walk_to s q) \<and>
     (\<forall>f d. page_aligned f \<and> d < 4096 \<and> f \<notin> tables s' \<longrightarrow>
        pmem s' (f + of_nat d) = pmem s (f + of_nat d))"

lemma extends_refl [simp]: "extends s s"
  by (simp add: extends_def)

lemma extends_trans: "extends s s1 \<Longrightarrow> extends s1 s2 \<Longrightarrow> extends s s2"
  unfolding extends_def by (intro conjI) (auto 0 4)

lemma extends_walk: "extends s s1 \<Longrightarrow> idx_ok q \<Longrightarrow> length q = 4 \<Longrightarrow> walk_to s1 q = walk_to s q"
  unfolding extends_def by blast

lemma extends_cr3: "extends s s1 \<Longrightarrow> cr3 s1 = cr3 s"
  unfolding extends_def by blast

lemma pmm_inv_pmem [simp]: "pmm_inv (s\<lparr>pmem := m\<rparr>) = pmm_inv s"
  by (simp add: pmm_inv_def free_blocks_def)

lemma pool_pmem [simp]: "pool (s\<lparr>pmem := m\<rparr>) = pool s"
  by (simp add: pool_def free_blocks_def page_addr_def fun_eq_iff)

lemma get_page_machine:
  fixes s :: "'a machine_scheme"
  assumes "pmm_inv s" and "5 \<le> totalblockcount s"
  obtains N s1 where "get_page s = Inr (N, s1)" and "pmm_inv s1" and "pool s = N # pool s1"
    and "N \<notin> set (pool s1)"
    and "page_aligned N" and "unat N < 2 ^ 52" and "N \<noteq> 0"
    and "pmem s1 = pmem s" and "cr3 s1 = cr3 s" and "FREEMEMORY s1 = FREEMEMORY s"
    and "totalblockcount s1 = totalblockcount s - 1"
    and "machine.more s1 = machine.more s"
proof -
  let ?N = "page_addr s (head_freelist s)" and ?s1 = "after_get_page s"
  have g: "get_page s = Inr (?N, ?s1)" by (rule get_page_eq[OF assms])
  have h: "0 \<le> head_freelist s" "head_freelist s < 50000" "freemem_ok (FREEMEMORY s)"
    using pmm_inv_head[OF assms(1)] assms(1) by (auto simp: pmm_inv_def)
  show thesis
  proof (rule that[OF g])
    show "pmm_inv ?s1" by (rule pm.alloc_good[OF assms(1) g])
    show "pool s = ?N # pool ?s1" by (rule pm.alloc_avail[OF assms(1) g])
    show "?N \<notin> set (pool ?s1)" by (rule pm.alloc_fresh(2)[OF assms(1) g])
    show "page_aligned ?N" using page_addr_aligned[OF h(3,1,2)] by (simp add: page_aligned_dvd)
    show "unat ?N < 2 ^ 52" using page_addr_limit[OF h(3,1,2)] by simp
    show "?N \<noteq> 0" by (rule page_addr_nonzero[OF h(3,1,2)])
  qed (simp_all add: after_get_page_def)
qed


section \<open>One level of the descent\<close>

lemma ensure_level_present:
  assumes "pt_inv s" and "idx_ok (q @ [i])" and "length q \<le> 2" and "walk_to s q = Some T"
    and "page_aligned w" and "mmu_indices w = replicate k 0x1FE @ q" and "pte (pmem s) T i \<noteq> 0"
  shows "ensure_level w i w' s = Inr (True, s)"
    and "walk_to s (q @ [i]) = Some (frame_of (pte (pmem s) T i))"
proof -
  have t: "pt_tree (pmem s) (root s) (set (pool s))" using assms(1) by (simp add: pt_inv_def)
  have i: "unat i < 512" using assms(2) idx_ok_bound[of q i "[]"] by simp
  show "ensure_level w i w' s = Inr (True, s)"
    using window_entry(1)[OF t assms(5,6) i assms(4)] assms(7) by (simp add: ensure_level_def)
  have "bit (pte (pmem s) T i) 0" using pt_tree_entry[OF t assms(4,2,3)] assms(7) by simp
  then show "walk_to s (q @ [i]) = Some (frame_of (pte (pmem s) T i))"
    using assms(4) by (simp add: path_append)
qed

lemma ensure_level_absent:
  fixes s :: "'a machine_scheme"
  assumes "pt_inv s" and "5 \<le> totalblockcount s"
    and "idx_ok (q @ [i])" and "length q \<le> 2" and "walk_to s q = Some T"
    and "page_aligned w" and "mmu_indices w = replicate k 0x1FE @ q"
    and "page_aligned w'" and "mmu_indices w' = replicate k' 0x1FE @ q @ [i]"
    and "pte (pmem s) T i = 0"
  obtains N s' where "ensure_level w i w' s = Inr (True, s')" and "pt_inv s'"
    and "walk_to s' (q @ [i]) = Some N" and "extends s s'"
    and "totalblockcount s' = totalblockcount s - 1" and "machine.more s' = machine.more s"
proof -
  let ?R = "root s" and ?m = "pmem s"
  have t: "pt_tree ?m ?R (set (pool s))" and p: "pmm_inv s"
    using assms(1) by (simp_all add: pt_inv_def)
  have i: "unat i < 512" using assms(3) idx_ok_bound[of q i "[]"] by simp
  obtain N s1 where N: "get_page s = Inr (N, s1)" "pmm_inv s1" "pool s = N # pool s1"
      "N \<notin> set (pool s1)" "page_aligned N" "unat N < 2 ^ 52" "N \<noteq> 0"
    and s1: "pmem s1 = ?m" "cr3 s1 = cr3 s" "FREEMEMORY s1 = FREEMEMORY s"
      "totalblockcount s1 = totalblockcount s - 1" "machine.more s1 = machine.more s"
    by (rule get_page_machine[OF p assms(2)])
  define e where "e = (N AND 0xFFFFFFFFFFFFF000) OR 7"
  have e: "frame_of e = N" "bit e 0"
    using frame_of_entry[OF N(5,6), of 7] by (simp_all add: e_def)
  have NF: "N \<in> set (pool s)" and F': "set (pool s1) \<subseteq> set (pool s) - {N}" using N(3,4) by auto
  let ?m' = "table_entered ?m T i e N"
  have q3: "length q \<le> 3" using assms(4) by simp
  note fa = table_entered_facts[OF t assms(5,3) q3 NF N(5) e]
  note tr = table_entered_tree[OF t assms(5,3,4) NF N(5) e assms(10) F']
  let ?s' = "s1\<lparr>pmem := ?m' 4096\<rparr>"
  have run: "ensure_level w i w' s = Inr (True, ?s')"
  proof -
    let ?s2 = "s1\<lparr>pmem := store64 ?m (T + 8 * i) e\<rparr>"
    have "vload64 (w + 8 * i) s = Inr 0"
      using window_entry(1)[OF t assms(6,7) i assms(5)] assms(10) by simp
    moreover have "vstore64 (w + 8 * i) e s1 = Inr ?s2"
      using window_entry(2)[of s1 "set (pool s)", OF _ assms(6,7) i, of T e] t assms(5) s1 by simp
    moreover have "zero_table w' ?s2 = Inr ?s'"
      using zero_loop[where s = ?s2 and N = N and w = w' and c = 8 and k = 512]
        fa(3) s1(2) assms(8,9)
      by (simp add: zero_table_def table_entered_def del: of_nat_mult)
    ultimately show ?thesis using N(1,7) by (simp add: ensure_level_def e_def)
  qed
  have "pt_inv ?s'" using tr(1) N(2) s1 by (simp add: pt_inv_def)
  moreover have "walk_to ?s' (q @ [i]) = Some N" using tr(3)[OF assms(3)] assms(4) s1 by simp
  moreover have "extends s ?s'"
    unfolding extends_def
  proof (intro conjI allI impI)
    show "tables ?s' \<subseteq> tables s \<union> (set (pool s) - set (pool ?s'))"
      using tr(2) s1 N(3,4) by auto
    show "walk_to ?s' r = walk_to s r" if "idx_ok r \<and> length r = 4" for r
      using tr(3)[of r] that assms(4) s1 by auto
    show "pmem ?s' (f + of_nat d) = pmem s (f + of_nat d)"
      if a: "page_aligned f \<and> d < 4096 \<and> f \<notin> tables ?s'" for f d
    proof -
      have "f \<noteq> N" "f \<noteq> T"
        using a tr(2) s1 ptablesI[OF assms(5) idx_ok_append[OF assms(3)]] assms(4) by auto
      then show ?thesis using a fa(4) by simp
    qed
  qed (use s1 F' tr(2) in auto)
  ultimately show thesis using that[OF run] s1(4,5) by simp
qed

lemma ensure_level_ok:
  fixes s :: "'a machine_scheme"
  assumes "pt_inv s" and "5 \<le> totalblockcount s"
    and "idx_ok (q @ [i])" and "length q \<le> 2" and "walk_to s q = Some T"
    and "page_aligned w" and "mmu_indices w = replicate k 0x1FE @ q"
    and "page_aligned w'" and "mmu_indices w' = replicate k' 0x1FE @ q @ [i]"
  obtains N s' where "ensure_level w i w' s = Inr (True, s')" and "pt_inv s'"
    and "walk_to s' (q @ [i]) = Some N" and "extends s s'"
    and "totalblockcount s - 1 \<le> totalblockcount s'" and "machine.more s' = machine.more s"
proof (cases "pte (pmem s) T i = 0")
  case True
  show thesis
    by (rule ensure_level_absent[OF assms True]) (auto intro: that)
next
  case False
  show thesis
    by (rule that[OF ensure_level_present(1)[OF assms(1,3-7) False] assms(1)
          ensure_level_present(2)[OF assms(1,3-7) False]]) simp_all
qed

text \<open>The window addresses of the tables on the path of an address.\<close>

lemma windows:
  assumes "unat i < 512" and "unat j < 512" and "unat k < 512"
  shows "page_aligned (window 0x1FE 0x1FE 0x1FE 0x1FE b)"
    and "mmu_indices (window 0x1FE 0x1FE 0x1FE 0x1FE b) = replicate 4 0x1FE @ []"
    and "page_aligned (window 0x1FE 0x1FE 0x1FE i b)"
    and "mmu_indices (window 0x1FE 0x1FE 0x1FE i b) = replicate 3 0x1FE @ [i]"
    and "page_aligned (window 0x1FE 0x1FE i j b)"
    and "mmu_indices (window 0x1FE 0x1FE i j b) = replicate 2 0x1FE @ [i, j]"
    and "page_aligned (window 0x1FE i j k b)"
    and "mmu_indices (window 0x1FE i j k b) = replicate 1 0x1FE @ [i, j, k]"
proof -
  have r: "replicate 4 x = [x, x, x, x]" "replicate 3 x = [x, x, x]" "replicate 2 x = [x, x]"
    for x :: u64
    by (simp_all add: numeral_eq_Suc)
  show "page_aligned (window 0x1FE 0x1FE 0x1FE 0x1FE b)"
    "mmu_indices (window 0x1FE 0x1FE 0x1FE 0x1FE b) = replicate 4 0x1FE @ []"
    "page_aligned (window 0x1FE 0x1FE 0x1FE i b)"
    "mmu_indices (window 0x1FE 0x1FE 0x1FE i b) = replicate 3 0x1FE @ [i]"
    "page_aligned (window 0x1FE 0x1FE i j b)"
    "mmu_indices (window 0x1FE 0x1FE i j b) = replicate 2 0x1FE @ [i, j]"
    "page_aligned (window 0x1FE i j k b)"
    "mmu_indices (window 0x1FE i j k b) = replicate 1 0x1FE @ [i, j, k]"
    using assms by (simp_all add: window_facts r)
qed

lemma descend_ok:
  fixes s :: "'a machine_scheme"
  assumes "pt_inv s" and "7 \<le> totalblockcount s" and "p1_index vadd \<noteq> 0x1FE"
  obtains w T s' where "descend vadd s = Inr (Some w, s')" and "pt_inv s'" and "extends s s'"
    and "walk_to s' [p1_index vadd, p2_index vadd, p3_index vadd] = Some T"
    and "page_aligned w"
    and "mmu_indices w = replicate 1 0x1FE @ [p1_index vadd, p2_index vadd, p3_index vadd]"
    and "totalblockcount s - 3 \<le> totalblockcount s'" and "machine.more s' = machine.more s"
proof -
  let ?i1 = "p1_index vadd" and ?i2 = "p2_index vadd" and ?i3 = "p3_index vadd"
  define p1 where "p1 = window 0x1FE 0x1FE 0x1FE 0x1FE base0"
  define p2 where "p2 = window 0x1FE 0x1FE 0x1FE ?i1 p1"
  define p3 where "p3 = window 0x1FE 0x1FE ?i1 ?i2 p2"
  define p4 where "p4 = window 0x1FE ?i1 ?i2 ?i3 p3"
  note b = index_bound[of vadd]
  note w = windows[OF b(1-3)]
  have ok: "idx_ok ([] @ [?i1])" "idx_ok ([?i1] @ [?i2])" "idx_ok ([?i1, ?i2] @ [?i3])"
    using assms(3) b by (simp_all add: idx_ok_def)
  obtain T1 s1 where s1: "ensure_level p1 ?i1 p2 s = Inr (True, s1)" "pt_inv s1"
      "walk_to s1 ([] @ [?i1]) = Some T1" "extends s s1"
      "totalblockcount s - 1 \<le> totalblockcount s1" "machine.more s1 = machine.more s"
    by (rule ensure_level_ok[OF assms(1) _ ok(1), where w = p1 and w' = p2 and k = 4 and k' = 3
          and T = "root s"]) (use assms(2) w in \<open>simp_all add: p1_def p2_def\<close>)
  obtain T2 s2 where s2: "ensure_level p2 ?i2 p3 s1 = Inr (True, s2)" "pt_inv s2"
      "walk_to s2 ([?i1] @ [?i2]) = Some T2" "extends s1 s2"
      "totalblockcount s1 - 1 \<le> totalblockcount s2" "machine.more s2 = machine.more s1"
    by (rule ensure_level_ok[OF s1(2) _ ok(2), where w = p2 and w' = p3 and k = 3 and k' = 2
          and T = T1]) (use assms(2) s1(3,5) w in \<open>simp_all add: p2_def p3_def\<close>)
  obtain T3 s3 where s3: "ensure_level p3 ?i3 p4 s2 = Inr (True, s3)" "pt_inv s3"
      "walk_to s3 ([?i1, ?i2] @ [?i3]) = Some T3" "extends s2 s3"
      "totalblockcount s2 - 1 \<le> totalblockcount s3" "machine.more s3 = machine.more s2"
    by (rule ensure_level_ok[OF s2(2) _ ok(3), where w = p3 and w' = p4 and k = 2 and k' = 1
          and T = T2]) (use assms(2) s1(5) s2(3,5) w in \<open>simp_all add: p3_def p4_def\<close>)
  show thesis
  proof (rule that)
    show "descend vadd s = Inr (Some p4, s3)"
      using s1(1) s2(1) s3(1) by (simp add: descend_def Let_def p1_def p2_def p3_def p4_def)
    show "extends s s3" using s1(4) s2(4) s3(4) extends_trans by blast
  qed (use s1 s2 s3 w in \<open>auto simp: p4_def\<close>)
qed

section \<open>Mapping a page\<close>

lemma and_1_bit: "(x :: u64) AND 1 = 0 \<longleftrightarrow> \<not> bit x 0"
  by (simp add: and_one_eq bit_0 even_iff_mod_2_eq_zero)

lemma vload8_page:
  assumes "walk_to s (mmu_indices va) = Some f"
  shows "vload8 va s = Inr (pmem s (f + take_bit 12 va))"
  using assms by (simp add: vload8_def translate_def)

lemma take_bit12_nat: obtains d where "d < 4096" and "take_bit 12 (va :: u64) = of_nat d"
proof (rule that)
  show "unat (take_bit 12 va) < 4096"
    using take_bit_nat_less_exp[of 12 "unat va"] by (simp add: unsigned_take_bit_eq)
qed simp

text \<open>Other pages: same translation, and the same bytes unless the page is a page table.\<close>

definition same_elsewhere :: "u64 \<Rightarrow> 'a machine_scheme \<Rightarrow> 'a machine_scheme \<Rightarrow> bool" where
  "same_elsewhere vadd s s' \<longleftrightarrow>
     (\<forall>va. p1_index va \<noteq> 0x1FE \<and> mmu_indices va \<noteq> mmu_indices vadd \<longrightarrow>
        translate s' va = translate s va \<and>
        ((\<forall>f. walk_to s (mmu_indices va) = Some f \<longrightarrow> f \<notin> tables s) \<longrightarrow> vload8 va s' = vload8 va s))"

lemma same_elsewhereI:
  assumes "\<And>q. idx_ok q \<Longrightarrow> length q = 4 \<Longrightarrow> q \<noteq> mmu_indices vadd \<Longrightarrow> walk_to s' q = walk_to s q"
    and "\<And>f d q. idx_ok q \<Longrightarrow> length q = 4 \<Longrightarrow> q \<noteq> mmu_indices vadd \<Longrightarrow> walk_to s q = Some f \<Longrightarrow>
      f \<notin> tables s \<Longrightarrow> d < 4096 \<Longrightarrow> pmem s' (f + of_nat d) = pmem s (f + of_nat d)"
  shows "same_elsewhere vadd s s'"
  unfolding same_elsewhere_def
proof (intro allI impI conjI)
  fix va assume a: "p1_index va \<noteq> 0x1FE \<and> mmu_indices va \<noteq> mmu_indices vadd"
  then have q: "idx_ok (mmu_indices va)" "length (mmu_indices va) = 4"
    by (simp_all add: idx_ok_indices)
  have w: "walk_to s' (mmu_indices va) = walk_to s (mmu_indices va)"
    by (rule assms(1)[OF q]) (use a in simp)
  then show tr: "translate s' va = translate s va" by (simp add: translate_def)
  assume f: "\<forall>f. walk_to s (mmu_indices va) = Some f \<longrightarrow> f \<notin> tables s"
  show "vload8 va s' = vload8 va s"
  proof (cases "walk_to s (mmu_indices va)")
    case None
    then show ?thesis using tr by (simp add: vload8_def translate_def)
  next
    case (Some g)
    obtain d where "d < 4096" "take_bit 12 va = of_nat d" by (rule take_bit12_nat)
    then show ?thesis
      using assms(2)[OF q _ Some, of d] a f Some w vload8_page[OF Some] vload8_page[of s' va g] by simp
  qed
qed

lemma indices_split:
  "mmu_indices vadd = [p1_index vadd, p2_index vadd, p3_index vadd] @ [p4_index vadd]"
  by (simp add: mmu_indices_eq)

text \<open>The leaf step of \<open>map_phyaddr\<close> on an absent entry.\<close>

lemma map_leaf_absent:
  fixes s :: "'a machine_scheme"
  assumes "pt_inv s" and "5 \<le> totalblockcount s" and "p1_index vadd \<noteq> 0x1FE"
    and "page_aligned vadd"
    and "walk_to s [p1_index vadd, p2_index vadd, p3_index vadd] = Some T"
    and "\<not> bit (pte (pmem s) T (p4_index vadd)) 0"
  obtains N s1 s' where "get_page s = Inr (N, s1)" and "N \<noteq> 0" and "pool s = N # pool s1"
    and "pmem s1 = pmem s" and "cr3 s1 = cr3 s" and "pool s' = pool s1"
    and "clear_page vadd (s1\<lparr>pmem := store64 (pmem s) (T + 8 * p4_index vadd)
            ((N AND 0xFFFFFFFFFFFFF000) OR 7)\<rparr>) = Inr s'"
    and "pt_inv s'" and "walk_to s' (mmu_indices vadd) = Some N" and "same_elsewhere vadd s s'"
    and "\<forall>d < 519. pmem s' (N + of_nat d) = 0" and "machine.more s' = machine.more s"
    and "totalblockcount s' = totalblockcount s - 1" and "N \<notin> set (pool s1)"
    and "cr3 s' = cr3 s"
proof -
  let ?R = "root s" and ?m = "pmem s" and ?i = "p4_index vadd"
  let ?P = "[p1_index vadd, p2_index vadd, p3_index vadd]"
  have t: "pt_tree ?m ?R (set (pool s))" and p: "pmm_inv s"
    using assms(1) by (simp_all add: pt_inv_def)
  obtain N s1 where N: "get_page s = Inr (N, s1)" "pmm_inv s1" "pool s = N # pool s1"
      "N \<notin> set (pool s1)" "page_aligned N" "unat N < 2 ^ 52" "N \<noteq> 0"
    and s1: "pmem s1 = ?m" "cr3 s1 = cr3 s" "FREEMEMORY s1 = FREEMEMORY s"
      "totalblockcount s1 = totalblockcount s - 1" "machine.more s1 = machine.more s"
    by (rule get_page_machine[OF p assms(2)])
  define e where "e = (N AND 0xFFFFFFFFFFFFF000) OR 7"
  have e: "frame_of e = N" "bit e 0"
    using frame_of_entry[OF N(5,6), of 7] by (simp_all add: e_def)
  have NF: "N \<in> set (pool s)" using N(3) by simp
  have q: "idx_ok (?P @ [?i])"
    using idx_ok_indices[OF assms(3)] by (simp add: mmu_indices_eq)
  let ?m' = "table_entered ?m T ?i e N"
  note fa = table_entered_facts[OF t assms(5) q _ NF N(5) e, simplified]
  let ?s' = "s1\<lparr>pmem := ?m' 519\<rparr>"
  have lp: "path (?m' n) ?R r = (if r = mmu_indices vadd then Some N else walk_to s r)"
    if "idx_ok r" "length r = 4" "n \<le> 4096" for r n
    using leaf_path[OF t assms(5) q _ fa(1), of n r] fa(2)[of n] that e
    by (simp add: indices_split)
  have run: "clear_page vadd (s1\<lparr>pmem := store64 ?m (T + 8 * ?i) e\<rparr>) = Inr ?s'"
    using zero_loop[where s = "s1\<lparr>pmem := store64 ?m (T + 8 * ?i) e\<rparr>" and N = N and w = vadd
        and c = 1 and k = 512] lp[OF idx_ok_indices[OF assms(3)]] s1(2) assms(4)
    by (simp add: clear_page_def table_entered_def mmu_indices_eq)
  have tree: "pt_tree (?m' 519) ?R (set (pool s1))" "ptables (?m' 519) ?R = tables s"
    using leaf_tree[OF t assms(5) q _ fa(1), of 519 "set (pool s1)"] fa(2)[of 519] N(3,4) e by auto
  have "same_elsewhere vadd s ?s'"
  proof (rule same_elsewhereI)
    show "walk_to ?s' r = walk_to s r" if "idx_ok r" "length r = 4" "r \<noteq> mmu_indices vadd" for r
      using lp[OF that(1,2), of 519] that(3) s1 by simp
    show "pmem ?s' (f + of_nat d) = pmem s (f + of_nat d)"
      if "idx_ok r" "length r = 4" "r \<noteq> mmu_indices vadd" "walk_to s r = Some f"
        "f \<notin> tables s" "d < 4096" for f d r
    proof -
      have "f \<noteq> N" using pt_tree_fresh[OF t that(4,1)] that(2) NF by auto
      moreover have "f \<noteq> T"
        using ptablesI[OF assms(5) idx_ok_append[OF q]] that(5) by auto
      moreover have "page_aligned f" by (rule pt_tree_aligned[OF t that(4)])
      ultimately show ?thesis using fa(4)[of 519 f d] that(6) by simp
    qed
  qed
  moreover have "pt_inv ?s'" using tree N(2) s1 by (simp add: pt_inv_def)
  moreover have "walk_to ?s' (mmu_indices vadd) = Some N"
    using lp[OF idx_ok_indices[OF assms(3)], of 519] s1 by (simp add: mmu_indices_eq)
  moreover have "\<forall>d < 519. pmem ?s' (N + of_nat d) = 0"
    using zero_bytes_in[of _ 519] by (simp add: table_entered_def)
  ultimately show thesis
    using that[OF N(1,7,3) s1(1,2) _ run[unfolded e_def]] s1(2,4,5) N(4) by (simp add: e_def)
qed

lemma extends_fresh:
  assumes "pt_inv s" and "extends s s1" and "idx_ok q" and "length q = 4" and "walk_to s q = Some f"
    and "f \<notin> tables s"
  shows "f \<notin> tables s1" and "walk_to s1 q = Some f" and "page_aligned f"
proof -
  have t: "pt_tree (pmem s) (root s) (set (pool s))" using assms(1) by (simp add: pt_inv_def)
  have "f \<notin> set (pool s)" using pt_tree_fresh[OF t assms(5,3)] assms(4) by simp
  then show "f \<notin> tables s1" using assms(2,6) by (auto simp: extends_def)
  show "walk_to s1 q = Some f" using extends_walk[OF assms(2-4)] assms(5) by simp
  show "page_aligned f" by (rule pt_tree_aligned[OF t assms(5)])
qed

lemma extends_same_elsewhere:
  assumes "pt_inv s" and "extends s s1" and "same_elsewhere vadd s1 s'"
  shows "same_elsewhere vadd s s'"
  unfolding same_elsewhere_def
proof (intro allI impI conjI)
  fix va assume a: "p1_index va \<noteq> 0x1FE \<and> mmu_indices va \<noteq> mmu_indices vadd"
  have q: "idx_ok (mmu_indices va)" using a by (simp add: idx_ok_indices)
  have w: "walk_to s1 (mmu_indices va) = walk_to s (mmu_indices va)"
    using extends_walk[OF assms(2) q] by simp
  then have tr: "translate s1 va = translate s va" by (simp add: translate_def)
  moreover have "translate s' va = translate s1 va"
    using assms(3) a by (simp add: same_elsewhere_def)
  ultimately show "translate s' va = translate s va" by simp
  assume f: "\<forall>f. walk_to s (mmu_indices va) = Some f \<longrightarrow> f \<notin> tables s"
  have "vload8 va s1 = vload8 va s"
  proof (cases "walk_to s (mmu_indices va)")
    case None
    then show ?thesis using tr by (simp add: vload8_def translate_def)
  next
    case (Some g)
    obtain d where "d < 4096" "take_bit 12 va = of_nat d" by (rule take_bit12_nat)
    moreover note extends_fresh[OF assms(1,2) q _ Some]
    ultimately show ?thesis
      using f Some w vload8_page[OF Some] vload8_page[of s1 va g] assms(2)
      by (simp add: extends_def)
  qed
  moreover have "\<forall>f. walk_to s1 (mmu_indices va) = Some f \<longrightarrow> f \<notin> tables s1"
    using f w extends_fresh(1)[OF assms(1,2) q] by simp
  then have "vload8 va s' = vload8 va s1"
    using assms(3) a by (simp add: same_elsewhere_def)
  ultimately show "vload8 va s' = vload8 va s" by simp
qed

lemma translate_aligned:
  "page_aligned va \<Longrightarrow> translate s va = walk_to s (mmu_indices va)"
  by (cases "walk_to s (mmu_indices va)") (simp_all add: translate_def page_aligned_take_bit)

lemma leaf_entry:
  assumes "walk_to s [p1_index va, p2_index va, p3_index va] = Some T"
  shows "walk_to s (mmu_indices va) =
    (if bit (pte (pmem s) T (p4_index va)) 0
     then Some (frame_of (pte (pmem s) T (p4_index va))) else None)"
  unfolding indices_split path_append assms by simp

lemma map_phyaddr_absent:
  fixes s :: "'a machine_scheme"
  assumes "pt_inv s" and "8 \<le> totalblockcount s" and "p1_index vadd \<noteq> 0x1FE"
    and "page_aligned vadd" and "translate s vadd = None"
  obtains N s' where "map_phyaddr vadd s = Inr (N, s')" and "N \<in> set (pool s)"
    and "N \<notin> set (pool s')" and "set (pool s') \<subseteq> set (pool s)" and "pt_inv s'"
    and "translate s' vadd = Some N" and "same_elsewhere vadd s s'"
    and "\<forall>d < 519. vload8 (vadd + of_nat d) s' = Inr 0" and "machine.more s' = machine.more s"
    and "cr3 s' = cr3 s"
proof -
  obtain w T s1 where d: "descend vadd s = Inr (Some w, s1)" "pt_inv s1" "extends s s1"
      "walk_to s1 [p1_index vadd, p2_index vadd, p3_index vadd] = Some T" "page_aligned w"
      "mmu_indices w = replicate 1 0x1FE @ [p1_index vadd, p2_index vadd, p3_index vadd]"
      "totalblockcount s - 3 \<le> totalblockcount s1" "machine.more s1 = machine.more s"
    by (rule descend_ok[OF assms(1) _ assms(3)]) (use assms(2) in auto)
  have "walk_to s1 (mmu_indices vadd) = None"
    using assms(5) extends_walk[OF d(3) idx_ok_indices[OF assms(3)]]
      translate_aligned[OF assms(4), of s] by simp
  then have nb: "\<not> bit (pte (pmem s1) T (p4_index vadd)) 0"
    using leaf_entry[OF d(4)] by (simp split: if_splits)
  have t1: "pt_tree (pmem s1) (root s1) (set (pool s1))" using d(2) by (simp add: pt_inv_def)
  obtain N s2 s' where m: "get_page s1 = Inr (N, s2)" "N \<noteq> 0" "pool s1 = N # pool s2"
      "pmem s2 = pmem s1" "cr3 s2 = cr3 s1" "pool s' = pool s2"
      "clear_page vadd (s2\<lparr>pmem := store64 (pmem s1) (T + 8 * p4_index vadd)
            ((N AND 0xFFFFFFFFFFFFF000) OR 7)\<rparr>) = Inr s'"
      "pt_inv s'" "walk_to s' (mmu_indices vadd) = Some N" "same_elsewhere vadd s1 s'"
      "\<forall>d < 519. pmem s' (N + of_nat d) = 0" "machine.more s' = machine.more s1"
      "N \<notin> set (pool s2)" "cr3 s' = cr3 s1"
    by (rule map_leaf_absent[OF d(2) _ assms(3,4) d(4) nb]) (use assms(2) d(7) in auto)
  have ld: "vload64 (w + 8 * p4_index vadd) s1 = Inr (pte (pmem s1) T (p4_index vadd))"
    by (rule window_entry(1)[OF t1 d(5,6) _ d(4)]) simp
  have st: "vstore64 (w + 8 * p4_index vadd) e s2 =
      Inr (s2\<lparr>pmem := store64 (pmem s1) (T + 8 * p4_index vadd) e\<rparr>)" for e
    using window_entry(2)[of s2 "set (pool s1)", OF _ d(5,6) index_bound(4), of T] t1 d(4) m(4,5)
    by simp
  have run: "map_phyaddr vadd s = Inr (N, s')"
    using d(1) ld nb m(1,2,7) st by (simp add: map_phyaddr_def and_1_bit)
  show thesis
  proof (rule that[OF run])
    show "N \<in> set (pool s)" "N \<notin> set (pool s')" "set (pool s') \<subseteq> set (pool s)"
      using m(3,6,13) d(3) by (auto simp: extends_def)
    show "translate s' vadd = Some N" using m(9) translate_aligned[OF assms(4), of s'] by simp
    show "same_elsewhere vadd s s'" by (rule extends_same_elsewhere[OF assms(1) d(3) m(10)])
    show "\<forall>d < 519. vload8 (vadd + of_nat d) s' = Inr 0"
      using m(9,11) translate_page[OF assms(4), of _ s'] by (simp add: vload8_def)
    show "cr3 s' = cr3 s" using m(14) extends_cr3[OF d(3)] by simp
  qed (use m d in auto)
qed

section \<open>Reading the tables\<close>

text \<open>One step of a read-only descent.\<close>

lemma level_load:
  assumes "pt_inv s" and "idx_ok (q @ [i])" and "length q \<le> 2" and "walk_to s q = Some T"
    and "page_aligned w" and "mmu_indices w = replicate k 0x1FE @ q"
  shows "vload64 (w + 8 * i) s = Inr (pte (pmem s) T i)"
    and "walk_to s (q @ [i]) =
      (if pte (pmem s) T i = 0 then None else Some (frame_of (pte (pmem s) T i)))"
proof -
  have t: "pt_tree (pmem s) (root s) (set (pool s))" using assms(1) by (simp add: pt_inv_def)
  have i: "unat i < 512" using assms(2) idx_ok_bound[of q i "[]"] by simp
  show "vload64 (w + 8 * i) s = Inr (pte (pmem s) T i)"
    by (rule window_entry(1)[OF t assms(5,6) i assms(4)])
  show "walk_to s (q @ [i]) =
      (if pte (pmem s) T i = 0 then None else Some (frame_of (pte (pmem s) T i)))"
    using pt_tree_entry[OF t assms(4,2,3)] assms(4) by (auto simp: path_append)
qed

lemma path_None_prefix: "path m f p = None \<Longrightarrow> path m f (p @ q) = None"
  by (simp add: path_append)

text \<open>
  The value a read-only descent ends with: \<open>z\<close> where a table is missing, otherwise what
  \<open>k\<close> makes of the last entry.
\<close>

lemma descend_read:
  assumes "pt_inv s" and "p1_index a \<noteq> 0x1FE"
  defines "q \<equiv> [p1_index a, p2_index a, p3_index a]"
  shows "rbind (vload64 (window 0x1FE 0x1FE 0x1FE 0x1FE b1 + 8 * p1_index a) s) (\<lambda>e.
           if e = 0 then z
           else rbind (vload64 (window 0x1FE 0x1FE 0x1FE (p1_index a) b2 + 8 * p2_index a) s) (\<lambda>e.
             if e = 0 then z
             else rbind (vload64 (window 0x1FE 0x1FE (p1_index a) (p2_index a) b3 + 8 * p3_index a) s) (\<lambda>e.
               if e = 0 then z
               else rbind (vload64 (window 0x1FE (p1_index a) (p2_index a) (p3_index a) b4
                      + 8 * p4_index a) s) k)))
     = (case walk_to s q of None \<Rightarrow> z | Some T \<Rightarrow> k (pte (pmem s) T (p4_index a)))"
proof -
  note w = windows[OF index_bound(1-3)[of a]]
  have t: "pt_tree (pmem s) (root s) (set (pool s))" using assms(1) by (simp add: pt_inv_def)
  let ?i1 = "p1_index a" and ?i2 = "p2_index a" and ?i3 = "p3_index a"
  have ok: "idx_ok ([] @ [?i1])" "idx_ok ([?i1] @ [?i2])" "idx_ok ([?i1, ?i2] @ [?i3])"
    using assms(2) index_bound[of a] by (simp_all add: idx_ok_def)
  have R: "walk_to s [] = Some (root s)" by simp
  note l1 = level_load[OF assms(1) ok(1) _ R w(1,2), simplified]
  have q2: "q = [?i1] @ [?i2, ?i3]" and q3: "q = [?i1, ?i2] @ [?i3]" by (simp_all add: q_def)
  show ?thesis
  proof (cases "walk_to s [?i1]")
    case None
    then have "walk_to s q = None" unfolding q2 by (rule path_None_prefix)
    then show ?thesis using l1 None by (simp split: if_splits)
  next
    case (Some T1)
    note T1 = this
    note l2 = level_load[OF assms(1) ok(2) _ T1 w(3,4), simplified]
    show ?thesis
    proof (cases "walk_to s [?i1, ?i2]")
      case None
      then have "walk_to s q = None" unfolding q3 by (rule path_None_prefix)
      then show ?thesis using l1 l2 T1 None by (simp split: if_splits)
    next
      case (Some T2)
      note l3 = level_load[OF assms(1) ok(3) _ Some w(5,6), simplified]
      show ?thesis
      proof (cases "walk_to s q")
        case None
        then show ?thesis using l1 l2 l3 T1 Some by (simp add: q_def split: if_splits)
      next
        case (Some T3)
        have "vload64 (window 0x1FE ?i1 ?i2 ?i3 b4 + 8 * p4_index a) s =
            Inr (pte (pmem s) T3 (p4_index a))"
          by (rule window_entry(1)[OF t w(7,8) _ Some[unfolded q_def]]) simp
        then show ?thesis
          using l1 l2 l3 T1 \<open>walk_to s [?i1, ?i2] = Some T2\<close> Some by (simp add: q_def split: if_splits)
      qed
    qed
  qed
qed

lemma get_phys_addr_eq:
  assumes "pt_inv s" and "p1_index a \<noteq> 0x1FE"
  shows "get_phys_addr a s = Inr (case walk_to s [p1_index a, p2_index a, p3_index a] of
      None \<Rightarrow> 0 | Some T \<Rightarrow> pte (pmem s) T (p4_index a))"
proof -
  have "get_phys_addr a s = (case walk_to s [p1_index a, p2_index a, p3_index a] of
      None \<Rightarrow> Inr 0 | Some T \<Rightarrow> Inr (pte (pmem s) T (p4_index a)))"
    using descend_read[OF assms, where z = "Inr 0" and k = Inr]
    unfolding get_phys_addr_def p4_window_def Let_def by (simp only: rbind_Inr_right)
  then show ?thesis by (simp only: option.case_distrib[of Inr])
qed

section \<open>Storing a leaf entry\<close>

text \<open>
  \<open>s'\<close> has the tables and the memory of \<open>s\<close> with entry \<open>e\<close> stored for \<open>vadd\<close>; the
  allocator may have changed as long as the entry's page is not free afterwards.
\<close>

lemma leaf_store:
  fixes s s' :: "'a machine_scheme"
  assumes "pt_tree (pmem s) (root s) F" and "p1_index vadd \<noteq> 0x1FE"
    and "walk_to s [p1_index vadd, p2_index vadd, p3_index vadd] = Some T"
    and "pmem s' = store64 (pmem s) (T + 8 * p4_index vadd) e" and "cr3 s' = cr3 s"
    and "F' \<subseteq> F" and "bit e 0 \<longrightarrow> frame_of e \<notin> F'"
  shows "pt_tree (pmem s') (root s') F'" and "tables s' = tables s"
    and "walk_to s' (mmu_indices vadd) = (if bit e 0 then Some (frame_of e) else None)"
    and "walk_to s' [p1_index vadd, p2_index vadd, p3_index vadd] = Some T"
    and "pte (pmem s') T (p4_index vadd) = e"
    and "same_elsewhere vadd s s'"
    and "idx_ok q \<Longrightarrow> length q = 4 \<Longrightarrow> q \<noteq> mmu_indices vadd \<Longrightarrow> walk_to s' q = walk_to s q"
    and "idx_ok q \<Longrightarrow> length q \<le> 4 \<Longrightarrow> q \<noteq> mmu_indices vadd \<Longrightarrow> walk_to s' q = walk_to s q"
    and "U \<in> tables s \<Longrightarrow> unat j < 512 \<Longrightarrow> \<not> (U = T \<and> j = p4_index vadd) \<Longrightarrow> pte (pmem s') U j = pte (pmem s) U j"
proof -
  let ?P = "[p1_index vadd, p2_index vadd, p3_index vadd]" and ?i = "p4_index vadd"
  note t = assms(1)
  have ok: "idx_ok (?P @ [?i])" using idx_ok_indices[OF assms(2)] by (simp add: mmu_indices_eq)
  have al: "page_aligned T" by (rule pt_tree_aligned[OF t assms(3)])
  have ec: "entry_changed (pmem s) (pmem s') (root s) T ?i"
    unfolding assms(4) by (rule entry_changed_store64[OF t assms(3)]) simp
  show e: "pte (pmem s') T ?i = e"
    unfolding assms(4) by (simp add: pte_store64[OF al al])
  have R: "root s' = root s" using assms(5) by simp
  show tr: "pt_tree (pmem s') (root s') F'" and tb: "tables s' = tables s"
    unfolding R using leaf_tree[OF t assms(3) ok _ ec assms(6)] e assms(7) by simp_all
  have lp: "walk_to s' q = (if q = mmu_indices vadd
      then if bit e 0 then Some (frame_of e) else None else walk_to s q)"
    if "idx_ok q" "length q \<le> 4" for q
    unfolding R indices_split using leaf_path[OF t assms(3) ok _ ec that] e by simp
  show "walk_to s' (mmu_indices vadd) = (if bit e 0 then Some (frame_of e) else None)"
    using lp[OF idx_ok_indices[OF assms(2)]] by simp
  show "walk_to s' ?P = Some T"
    using lp[OF idx_ok_append[OF ok]] assms(3) by (simp add: mmu_indices_eq del: path.simps)
  show "walk_to s' q = walk_to s q" if "idx_ok q" "length q = 4" "q \<noteq> mmu_indices vadd" for q
    using lp[OF that(1)] that(2,3) by simp
  show "walk_to s' q = walk_to s q" if "idx_ok q" "length q \<le> 4" "q \<noteq> mmu_indices vadd" for q
    using lp[OF that(1,2)] that(3) by simp
  show "pte (pmem s') U j = pte (pmem s) U j" if "U \<in> tables s" "unat j < 512" "\<not> (U = T \<and> j = ?i)"
  proof -
    have "page_aligned U" using that(1) pt_tree_aligned[OF t] by (auto simp: ptables_def)
    then show ?thesis unfolding assms(4) using that(2,3) by (auto simp: pte_store64[OF al])
  qed
  show "same_elsewhere vadd s s'"
  proof (rule same_elsewhereI)
    show "pmem s' (f + of_nat d) = pmem s (f + of_nat d)"
      if "walk_to s r = Some f" "f \<notin> tables s" "d < 4096" for f d r
    proof -
      have "f \<noteq> T" using ptablesI[OF assms(3) idx_ok_append[OF ok]] that(2) by auto
      moreover have "page_aligned f" by (rule pt_tree_aligned[OF t that(1)])
      ultimately show ?thesis
        using store64_other_page[OF al _ index_bound(4)] that(3) by (simp add: assms(4))
    qed
  qed (use lp in simp)
qed

lemma check_cow_eq:
  assumes "pt_tree (pmem s) (root s) F"
    and "walk_to s [p1_index a, p2_index a, p3_index a] = Some T"
  shows "check_cow a s = Inr (pte (pmem s) T (p4_index a) AND 7 = 5)"
proof -
  note w = windows(7,8)[OF index_bound(1-3)[of a]]
  have "vload64 (p4_window a + 8 * p4_index a) s = Inr (pte (pmem s) T (p4_index a))"
    unfolding p4_window_def by (rule window_entry(1)[OF assms(1) w _ assms(2)]) simp
  then show ?thesis by (auto simp: check_cow_def)
qed

lemma entry_flags:
  assumes "unat fl < 8"
  shows "((p AND 0xFFFFFFFFFFFFF000) OR fl) AND 7 = (fl :: u64)"
proof -
  have m: "(0xFFFFFFFFFFFFF000 :: u64) = push_bit 12 (mask 52)" "(7 :: u64) = mask 3"
    by (simp_all add: mask_eq_exp_minus_1)
  have "n < 3" if "bit fl n" for n
    using high_bits_zero[of fl 3 n] assms that by (cases "3 \<le> n") auto
  then show ?thesis
    unfolding m by (intro bit_word_eqI) (auto simp: bit_simps)
qed

lemma set_Cow_maps:
  fixes s :: "'a machine_scheme"
  assumes "pt_inv s" and "7 \<le> totalblockcount s" and "p1_index vadd \<noteq> 0x1FE"
    and "frame_of padd \<notin> set (pool s)"
  obtains s' where "set_Cow vadd padd s = Inr (padd, s')" and "pt_inv s'"
    and "walk_to s' (mmu_indices vadd) = Some (frame_of padd)"
    and "check_cow vadd s' = Inr True" and "same_elsewhere vadd s s'"
    and "cr3 s' = cr3 s" and "machine.more s' = machine.more s"
proof -
  obtain w T s1 where d: "descend vadd s = Inr (Some w, s1)" "pt_inv s1" "extends s s1"
      "walk_to s1 [p1_index vadd, p2_index vadd, p3_index vadd] = Some T" "page_aligned w"
      "mmu_indices w = replicate 1 0x1FE @ [p1_index vadd, p2_index vadd, p3_index vadd]"
      "machine.more s1 = machine.more s"
    by (rule descend_ok[OF assms(1,2,3)])
  define e where "e = (padd AND 0xFFFFFFFFFFFFF000) OR 5"
  have e: "bit e 0" "frame_of e = frame_of padd" "e AND 7 = 5"
    using present_entry[of 5 padd] frame_of_masked[of 5 padd] entry_flags[of 5 padd]
    by (simp_all add: e_def)
  have t1: "pt_tree (pmem s1) (root s1) (set (pool s1))" and p1: "pmm_inv s1"
    using d(2) by (simp_all add: pt_inv_def)
  let ?s' = "s1\<lparr>pmem := store64 (pmem s1) (T + 8 * p4_index vadd) e\<rparr>"
  have "vstore64 (w + 8 * p4_index vadd) e s1 = Inr ?s'"
    by (rule window_entry(2)[OF t1 d(5,6) _ d(4)]) simp
  then have run: "set_Cow vadd padd s = Inr (padd, ?s')"
    using d(1) by (simp add: set_Cow_def e_def)
  have pl: "set (pool s1) \<subseteq> set (pool s)" using d(3) by (simp add: extends_def)
  have fr: "bit e 0 \<longrightarrow> frame_of e \<notin> set (pool s1)" using e(2) pl assms(4) by auto
  note st = leaf_store[where s' = ?s', OF t1 assms(3) d(4) _ _ subset_refl fr, simplified]
  show thesis
  proof (rule that[OF run])
    show "pt_inv ?s'" using st(1) p1 by (simp add: pt_inv_def)
    show "walk_to ?s' (mmu_indices vadd) = Some (frame_of padd)" using st(3) e by simp
    show "check_cow vadd ?s' = Inr True"
      using check_cow_eq[of ?s' "set (pool s1)" vadd T] st(1,4,5) e(3) by simp
    show "same_elsewhere vadd s ?s'" by (rule extends_same_elsewhere[OF assms(1) d(3) st(6)])
    show "cr3 ?s' = cr3 s" using extends_cr3[OF d(3)] by simp
  qed (use d(7) in simp)
qed

section \<open>Unmapping a page\<close>

lemma unmap_phyaddr_eq:
  assumes "pt_inv s" and "p1_index a \<noteq> 0x1FE"
  shows "\<exists>w. page_aligned w \<and> mmu_indices w = replicate 1 0x1FE @ [p1_index a, p2_index a, p3_index a] \<and>
    unmap_phyaddr a s = (case walk_to s [p1_index a, p2_index a, p3_index a] of
      None \<Rightarrow> Inr s
    | Some T \<Rightarrow> if \<not> bit (pte (pmem s) T (p4_index a)) 0 then Inr s
        else release_leaf a w (pte (pmem s) T (p4_index a)) s)"
proof -
  define p1 where "p1 = window 0x1FE 0x1FE 0x1FE 0x1FE base0"
  define p2 where "p2 = window 0x1FE 0x1FE 0x1FE (p1_index a) p1"
  define p3 where "p3 = window 0x1FE 0x1FE (p1_index a) (p2_index a) p2"
  define p4 where "p4 = window 0x1FE (p1_index a) (p2_index a) (p3_index a) p3"
  have "page_aligned p4" "mmu_indices p4 = replicate 1 0x1FE @ [p1_index a, p2_index a, p3_index a]"
    unfolding p4_def by (rule windows(7,8)[OF index_bound(1-3)])+
  moreover have "unmap_phyaddr a s = (case walk_to s [p1_index a, p2_index a, p3_index a] of
      None \<Rightarrow> Inr s
    | Some T \<Rightarrow> if \<not> bit (pte (pmem s) T (p4_index a)) 0 then Inr s
        else release_leaf a p4 (pte (pmem s) T (p4_index a)) s)"
    using descend_read[OF assms, where z = "Inr s" and ?b1.0 = base0 and ?b2.0 = p1 and ?b3.0 = p2
        and ?b4.0 = p3 and k = "\<lambda>padd. if padd AND 1 = 0 then Inr s else release_leaf a p4 padd s"]
    unfolding unmap_phyaddr_def Let_def p1_def[symmetric] p2_def[symmetric] p3_def[symmetric]
      p4_def[symmetric]
    by (simp only: and_1_bit)
  ultimately show ?thesis by blast
qed

lemma clear_page_mapped:
  fixes s :: "'a machine_scheme"
  assumes "pt_tree (pmem s) (root s) F" and "p1_index vadd \<noteq> 0x1FE" and "page_aligned vadd"
    and "walk_to s (mmu_indices vadd) = Some D" and "D \<notin> tables s"
  defines "m \<equiv> zero_bytes (pmem s) D 519"
  shows "clear_page vadd s = Inr (s\<lparr>pmem := m\<rparr>)"
    and "pt_tree m (root s) F" and "ptables m (root s) = tables s"
    and "idx_ok q \<Longrightarrow> length q \<le> 4 \<Longrightarrow> path m (root s) q = walk_to s q"
    and "T \<in> tables s \<Longrightarrow> unat j < 512 \<Longrightarrow> pte m T j = pte (pmem s) T j"
    and "page_aligned f \<Longrightarrow> d < 4096 \<Longrightarrow> f \<noteq> D \<Longrightarrow> m (f + of_nat d) = pmem s (f + of_nat d)"
proof -
  have D: "page_aligned D" by (rule pt_tree_aligned[OF assms(1,4)])
  have z: "pte (zero_bytes (pmem s) D n) T j = pte (pmem s) T j"
    if "T \<in> tables s" "unat j < 512" "n \<le> 4096" for T j n
  proof (rule pte_zero_other[OF D _ that(2,3)])
    show "page_aligned T" using that(1) pt_tree_aligned[OF assms(1)] by (auto simp: ptables_def)
    show "T \<noteq> D" using that(1) assms(5) by auto
  qed
  note dt = data_tree[OF assms(1) z]
  have "path (zero_bytes (pmem s) D n) (root s) (mmu_indices vadd) = Some D" if "n \<le> 4096" for n
    using dt(1)[of n, OF _ _ that idx_ok_indices[OF assms(2)]] assms(4) by simp
  then show "clear_page vadd s = Inr (s\<lparr>pmem := m\<rparr>)"
    using zero_loop[where s = s and N = D and w = vadd and c = 1 and k = 512] assms(3)
    by (simp add: clear_page_def m_def)
  show "pt_tree m (root s) F" "ptables m (root s) = tables s"
    unfolding m_def by (rule dt(2) dt(3); simp)+
  show "idx_ok q \<Longrightarrow> length q \<le> 4 \<Longrightarrow> path m (root s) q = walk_to s q"
    unfolding m_def by (rule dt(1)) simp_all
  show "T \<in> tables s \<Longrightarrow> unat j < 512 \<Longrightarrow> pte m T j = pte (pmem s) T j"
    unfolding m_def by (rule z) simp_all
  show "page_aligned f \<Longrightarrow> d < 4096 \<Longrightarrow> f \<noteq> D \<Longrightarrow> m (f + of_nat d) = pmem s (f + of_nat d)"
    unfolding m_def by (rule zero_bytes_other_page[OF D]) simp_all
qed

lemma pt_tree_insert:
  assumes "pt_tree m R F" and "\<And>q. idx_ok q \<Longrightarrow> length q \<le> 4 \<Longrightarrow> path m R q \<noteq> Some D"
  shows "pt_tree m R (insert D F)"
  using assms unfolding pt_tree_def by (intro conjI) blast+

lemma same_elsewhere_trans:
  assumes "same_elsewhere vadd s s1" and "same_elsewhere vadd s1 s2" and "tables s1 = tables s"
  shows "same_elsewhere vadd s s2"
  unfolding same_elsewhere_def
proof (intro allI impI conjI)
  fix va assume a: "p1_index va \<noteq> 0x1FE \<and> mmu_indices va \<noteq> mmu_indices vadd"
  have t1: "translate s1 va = translate s va" and t2: "translate s2 va = translate s1 va"
    using a assms(1,2) by (simp_all add: same_elsewhere_def)
  then show "translate s2 va = translate s va" by simp
  assume f: "\<forall>f. walk_to s (mmu_indices va) = Some f \<longrightarrow> f \<notin> tables s"
  have "walk_to s1 (mmu_indices va) = walk_to s (mmu_indices va)"
    using t1 by (cases "walk_to s (mmu_indices va)"; cases "walk_to s1 (mmu_indices va)")
      (simp_all add: translate_def)
  then have "\<forall>f. walk_to s1 (mmu_indices va) = Some f \<longrightarrow> f \<notin> tables s1"
    using f assms(3) by simp
  then show "vload8 va s2 = vload8 va s"
    using a f assms(1,2) by (simp add: same_elsewhere_def)
qed

lemma blockindex_entry:
  assumes "pmm_inv s" and "b \<in> {1..<50000}" and "e AND 0xFFFFFFFFFFFFF000 = page_addr s b"
  shows "blockindex s e = b"
proof (rule blockindex_page)
  have m: "(0xFFFFFFFFFFFFF000 :: u64) = push_bit 12 (mask 52)"
    by (simp add: mask_eq_exp_minus_1)
  have "drop_bit 12 e = drop_bit 12 (e AND 0xFFFFFFFFFFFFF000)"
    unfolding m by (intro bit_word_eqI) (auto simp: bit_simps dest: bit_imp_le_length)
  then show "drop_bit 12 e = drop_bit 12 (page_addr s b)" using assms(3) by simp
qed (use assms in \<open>auto simp: pmm_inv_def\<close>)

lemma frame_of_managed:
  assumes "pmm_inv s" and "b \<in> {1..<50000}" and "e AND 0xFFFFFFFFFFFFF000 = page_addr s b"
  shows "frame_of e = page_addr s b"
proof -
  have f: "freemem_ok (FREEMEMORY s)" using assms(1) by (simp add: pmm_inv_def)
  have "page_aligned (page_addr s b)" "unat (page_addr s b) < 2 ^ 52"
    using page_addr_aligned[OF f, of b] page_addr_limit[OF f, of b] assms(2)
    by (auto simp: page_aligned_dvd)
  then have "frame_of (page_addr s b) = page_addr s b" by (rule frame_of_page)
  moreover have "frame_of (e AND 0xFFFFFFFFFFFFF000) = frame_of e"
    using frame_of_masked[of 0 e] by simp
  ultimately show ?thesis using assms(3) by simp
qed

lemma pmm_pmem_simps [simp]:
  "blockindex (s\<lparr>pmem := m\<rparr>) = blockindex s"
  "page_addr (s\<lparr>pmem := m\<rparr>) = page_addr s"
  by (simp_all add: blockindex_def page_addr_def fun_eq_iff)

text \<open>The page is shared: the count drops and the entry goes, the page stays.\<close>

text \<open>What the release of the page at \<open>a\<close>, which lies in block \<open>b\<close>, leaves as it was.\<close>

definition released :: "u64 \<Rightarrow> int \<Rightarrow> 'a machine_scheme \<Rightarrow> 'a machine_scheme \<Rightarrow> bool" where
  "released a b s s' \<longleftrightarrow> tables s' = tables s \<and> FREEMEMORY s' = FREEMEMORY s \<and> cr3 s' = cr3 s \<and>
     (\<forall>i. i \<noteq> b \<longrightarrow> ref_count (p_list s' i) = ref_count (p_list s i)) \<and>
     (\<forall>q. idx_ok q \<and> length q \<le> 4 \<and> q \<noteq> mmu_indices a \<longrightarrow> walk_to s' q = walk_to s q) \<and>
     (\<forall>U \<in> tables s. \<forall>j. unat j < 512 \<and> \<not> (walk_to s [p1_index a, p2_index a, p3_index a] = Some U \<and> j = p4_index a) \<longrightarrow>
        pte (pmem s') U j = pte (pmem s) U j)"

lemma release_leaf_shared:
  fixes s :: "'a machine_scheme"
  assumes "pt_inv s" and "p1_index a \<noteq> 0x1FE" and "b \<in> {1..<50000}"
    and "walk_to s [p1_index a, p2_index a, p3_index a] = Some T"
    and "pte (pmem s) T (p4_index a) = e" and "e AND 0xFFFFFFFFFFFFF000 = page_addr s b"
    and "1 < ref_count (p_list s b)"
    and "page_aligned w" and "mmu_indices w = replicate 1 0x1FE @ [p1_index a, p2_index a, p3_index a]"
  obtains s' where "release_leaf a w e s = Inr s'" and "pt_inv s'"
    and "walk_to s' (mmu_indices a) = None" and "pool s' = pool s"
    and "ref_count (p_list s' b) = ref_count (p_list s b) - 1" and "same_elsewhere a s s'" and "released a b s s'"
proof -
  have p: "pmm_inv s" and t: "pt_tree (pmem s) (root s) (set (pool s))"
    using assms(1) by (simp_all add: pt_inv_def)
  have ix: "blockindex s e = b" by (rule blockindex_entry[OF p assms(3,6)])
  have ok: "plist_ok (blockindex s e)" using ix assms(3) by (simp add: plist_ok_def)
  obtain f where f: "decrement_reference_count e s = Inr (s\<lparr>p_list := f\<rparr>)"
      "pool (s\<lparr>p_list := f\<rparr>) = pool s" "pmm_inv (s\<lparr>p_list := f\<rparr>) = pmm_inv s"
      "ref_count (f (blockindex s e)) = (if ref_count (p_list s (blockindex s e)) < 1
         then ref_count (p_list s (blockindex s e)) else ref_count (p_list s (blockindex s e)) - 1)"
      "\<forall>i. i \<noteq> blockindex s e \<longrightarrow> f i = p_list s i"
    by (rule decrement_effect[OF ok])
  let ?s1 = "s\<lparr>p_list := f\<rparr>"
  let ?s' = "?s1\<lparr>pmem := store64 (pmem s) (T + 8 * p4_index a) 0\<rparr>"
  have "vstore64 (w + 8 * p4_index a) 0 ?s1 = Inr ?s'"
    using window_entry(2)[of ?s1 "set (pool s)" w 1 _ "p4_index a" T, OF _ assms(8,9)] t assms(4)
    by simp
  then have run: "release_leaf a w e s = Inr ?s'"
    using ok f(1) ix assms(7) by (simp add: release_leaf_def get_reference_count_def)
  note st = leaf_store[where s' = ?s' and e = 0, OF t assms(2,4) _ _ subset_refl, simplified]
  show thesis
  proof (rule that[OF run])
    show "pt_inv ?s'" using st(1) p f(2,3) by (simp add: pt_inv_def)
    show "pool ?s' = pool s" using f(2) by (simp only: pool_pmem)
    show "ref_count (p_list ?s' b) = ref_count (p_list s b) - 1" using f(4) ix assms(7) by simp
    show "released a b s ?s'"
      unfolding released_def using st(2,8,9) f(5) ix assms(4) by (auto simp del: path.simps)
  qed (use st in simp_all)
qed

text \<open>The last reference: the page is cleared, freed and its count becomes zero.\<close>

lemma release_leaf_last:
  fixes s :: "'a machine_scheme"
  assumes "pt_inv s" and "p1_index a \<noteq> 0x1FE" and "b \<in> {1..<50000}"
    and "walk_to s [p1_index a, p2_index a, p3_index a] = Some T"
    and "pte (pmem s) T (p4_index a) = e" and "e AND 0xFFFFFFFFFFFFF000 = page_addr s b"
    and "ref_count (p_list s b) = 1"
    and "page_aligned w" and "mmu_indices w = replicate 1 0x1FE @ [p1_index a, p2_index a, p3_index a]"
    and "bit e 0" and "page_aligned a" and "page_addr s b \<notin> tables s"
    and "\<And>q. idx_ok q \<Longrightarrow> length q = 4 \<Longrightarrow> walk_to s q = Some (page_addr s b) \<Longrightarrow> q = mmu_indices a"
  obtains s' where "release_leaf a w e s = Inr s'" and "pt_inv s'"
    and "walk_to s' (mmu_indices a) = None" and "pool s' = page_addr s b # pool s"
    and "ref_count (p_list s' b) = 0" and "same_elsewhere a s s'" and "released a b s s'"
proof -
  let ?D = "page_addr s b" and ?P = "[p1_index a, p2_index a, p3_index a]"
  have p: "pmm_inv s" and t: "pt_tree (pmem s) (root s) (set (pool s))"
    using assms(1) by (simp_all add: pt_inv_def)
  have ix: "blockindex s e = b" by (rule blockindex_entry[OF p assms(3,6)])
  have D: "walk_to s (mmu_indices a) = Some ?D"
    using leaf_entry[OF assms(4)] assms(5,10) frame_of_managed[OF p assms(3,6)] by simp
  have Dp: "?D \<notin> set (pool s)" using pt_tree_fresh[OF t D idx_ok_indices[OF assms(2)]] by simp
  let ?m = "zero_bytes (pmem s) ?D 519"
  note cl = clear_page_mapped[OF t assms(2,11) D assms(12)]
  let ?s1 = "s\<lparr>pmem := ?m\<rparr>"
  obtain f h n where fr: "free_page e ?s1 = Inr (?s1\<lparr>p_list := f, head_freelist := h, totalblockcount := n\<rparr>)"
      "pool (?s1\<lparr>p_list := f, head_freelist := h, totalblockcount := n\<rparr>) = ?D # pool s"
      "pmm_inv (?s1\<lparr>p_list := f, head_freelist := h, totalblockcount := n\<rparr>)"
      "\<forall>i. ref_count (f i) = ref_count (p_list s i)"
    by (rule release_indexed[of ?s1 b e]) (use p assms(3) ix Dp in simp_all)
  define s2 where "s2 = ?s1\<lparr>p_list := f, head_freelist := h, totalblockcount := n\<rparr>"
  have ix2: "blockindex s2 e = b" using ix by (simp add: s2_def blockindex_def)
  have ok: "plist_ok (blockindex s2 e)" using ix2 assms(3) by (simp add: plist_ok_def)
  obtain g where g: "decrement_reference_count e s2 = Inr (s2\<lparr>p_list := g\<rparr>)"
      "pool (s2\<lparr>p_list := g\<rparr>) = pool s2" "pmm_inv (s2\<lparr>p_list := g\<rparr>) = pmm_inv s2"
      "ref_count (g (blockindex s2 e)) = (if ref_count (p_list s2 (blockindex s2 e)) < 1
         then ref_count (p_list s2 (blockindex s2 e)) else ref_count (p_list s2 (blockindex s2 e)) - 1)"
      "\<forall>i. i \<noteq> blockindex s2 e \<longrightarrow> g i = p_list s2 i"
    by (rule decrement_effect[OF ok])
  define s3 where "s3 = s2\<lparr>p_list := g\<rparr>"
  have s3: "pmem s3 = ?m" "cr3 s3 = cr3 s" by (simp_all add: s3_def s2_def)
  have p3: "pool s3 = ?D # pool s" "pmm_inv s3"
    using fr(2,3) g(2,3) unfolding s3_def s2_def by simp_all
  have P: "path ?m (root s) ?P = Some T"
    using cl(4)[of ?P] assms(4) idx_ok_append[of ?P "[p4_index a]"] idx_ok_indices[OF assms(2)]
    by (simp add: mmu_indices_eq)
  let ?s' = "s3\<lparr>pmem := store64 ?m (T + 8 * p4_index a) 0\<rparr>"
  have "vstore64 (w + 8 * p4_index a) 0 s3 = Inr ?s'"
    using window_entry(2)[of s3 "set (pool s)" w 1 _ "p4_index a" T, OF _ assms(8,9)] cl(2) P s3
    by simp
  then have run: "release_leaf a w e s = Inr ?s'"
    using ok ix ix2 assms(7) fr(1) g(1) cl(1)
    by (simp add: release_leaf_def get_reference_count_def s2_def s3_def)
  have t1: "pt_tree (pmem ?s1) (root ?s1) (set (pool s))" using cl(2) by simp
  have P1: "walk_to ?s1 ?P = Some T" using P by (simp del: path.simps)
  have e1: "pmem ?s' = store64 (pmem ?s1) (T + 8 * p4_index a) 0" "cr3 ?s' = cr3 ?s1"
    using s3(2) by simp_all
  have nb: "bit (0 :: u64) 0 \<longrightarrow> frame_of 0 \<notin> set (pool s)" by simp
  note st = leaf_store[OF t1 assms(2) P1 e1 subset_refl nb]
  have noD: "walk_to ?s' q \<noteq> Some ?D" if "idx_ok q" "length q \<le> 4" for q
  proof (cases "length q = 4")
    case True
    then show ?thesis
      using st(3) st(7)[OF that(1)] cl(4)[OF that] assms(13)[OF that(1)] s3 by fastforce
  next
    case False
    then show ?thesis
      using ptablesI[of "pmem ?s'" "root ?s'" q ?D] that st(2) cl(3) assms(12) s3 by auto
  qed
  show thesis
  proof (rule that[OF run])
    show "pt_inv ?s'"
      using pt_tree_insert[OF st(1), of ?D] noD p3 by (simp add: pt_inv_def)
    show "pool ?s' = ?D # pool s" using p3 by simp
    show "ref_count (p_list ?s' b) = 0" using g(4) ix2 fr(4) assms(7) by (simp add: s3_def s2_def)
    show "walk_to ?s' (mmu_indices a) = None" using st(3) s3 by simp
    have "same_elsewhere a s ?s1"
    proof (rule same_elsewhereI)
      show "walk_to ?s1 q = walk_to s q" if "idx_ok q" "length q = 4" for q
        using cl(4)[OF that(1)] that(2) by simp
      show "pmem ?s1 (x + of_nat d) = pmem s (x + of_nat d)"
        if "idx_ok q" "length q = 4" "q \<noteq> mmu_indices a" "walk_to s q = Some x" "d < 4096" for x d q
        using cl(6)[OF pt_tree_aligned[OF t that(4)] that(5)] assms(13)[OF that(1,2)] that(3,4) by auto
    qed
    then show "same_elsewhere a s ?s'"
      by (rule same_elsewhere_trans) (use st(6) cl(3) in simp_all)
    show "released a b s ?s'"
      unfolding released_def
    proof (intro conjI allI ballI impI)
      show "ref_count (p_list ?s' i) = ref_count (p_list s i)" if "i \<noteq> b" for i
        using that g(5) fr(4) ix2 by (simp add: s3_def s2_def)
      show "walk_to ?s' q = walk_to s q" if "idx_ok q \<and> length q \<le> 4 \<and> q \<noteq> mmu_indices a" for q
        using st(8)[of q] cl(4)[of q] that by simp
      show "pte (pmem ?s') U j = pte (pmem s) U j"
        if "U \<in> tables s" "unat j < 512 \<and> \<not> (walk_to s ?P = Some U \<and> j = p4_index a)" for U j
        using st(9)[of U j] cl(3) cl(5)[OF that(1), of j] that assms(4) by (auto simp del: path.simps)
    qed (use st(2) cl(3) s3 in \<open>simp_all add: s3_def s2_def\<close>)
  qed
qed

section \<open>Copy on write\<close>

lemma page_base:
  fixes a :: u64
  shows "page_aligned (a AND 0xFFFFFFFFFFFFF000)"
    and "mmu_indices (a AND 0xFFFFFFFFFFFFF000) = mmu_indices a"
    and "p1_index (a AND 0xFFFFFFFFFFFFF000) = p1_index a"
proof -
  have m: "(0xFFFFFFFFFFFFF000 :: u64) = push_bit 12 (mask 52)"
    by (simp add: mask_eq_exp_minus_1)
  show "page_aligned (a AND 0xFFFFFFFFFFFFF000)"
    unfolding page_aligned_take_bit m by (rule bit_word_eqI) (auto simp: bit_simps)
  have d: "drop_bit 12 (a AND 0xFFFFFFFFFFFFF000) = drop_bit 12 a"
    unfolding m by (rule bit_word_eqI) (auto simp: bit_simps dest: bit_imp_le_length)
  show i: "mmu_indices (a AND 0xFFFFFFFFFFFFF000) = mmu_indices a"
    by (simp only: mmu_indices_drop d)
  then show "p1_index (a AND 0xFFFFFFFFFFFFF000) = p1_index a"
    by (simp add: mmu_indices_eq)
qed

text \<open>
  The allocator half of \<open>cow\<close>: the old page loses a reference and a new page is taken.
\<close>

lemma cow_alloc:
  fixes s :: "'a machine_scheme"
  assumes "pmm_inv s" and "5 \<le> totalblockcount s" and "b \<in> {1..<50000}"
    and "e AND 0xFFFFFFFFFFFFF000 = page_addr s b" and "page_addr s b \<notin> set (pool s)"
  obtains N s1 s2 where "decrement_reference_count e s = Inr s1" and "get_page s1 = Inr (N, s2)"
    and "pmm_inv s2" and "pool s = N # pool s2" and "N \<notin> set (pool s2)" and "page_aligned N"
    and "unat N < 2 ^ 52" and "pmem s2 = pmem s" and "cr3 s2 = cr3 s"
    and "machine.more s2 = machine.more s" and "page_addr s2 = page_addr s"
    and "ref_count (p_list s2 b) = max (min 0 (ref_count (p_list s b))) (ref_count (p_list s b) - 1)"
proof -
  have ix: "blockindex s e = b" by (rule blockindex_entry[OF assms(1,3,4)])
  have ok: "plist_ok (blockindex s e)" using ix assms(3) by (simp add: plist_ok_def)
  obtain f where f: "decrement_reference_count e s = Inr (s\<lparr>p_list := f\<rparr>)"
      "pool (s\<lparr>p_list := f\<rparr>) = pool s" "pmm_inv (s\<lparr>p_list := f\<rparr>) = pmm_inv s"
      "ref_count (f (blockindex s e)) = (if ref_count (p_list s (blockindex s e)) < 1
         then ref_count (p_list s (blockindex s e)) else ref_count (p_list s (blockindex s e)) - 1)"
    by (rule decrement_effect[OF ok])
  let ?s1 = "s\<lparr>p_list := f\<rparr>"
  have i1: "pmm_inv ?s1" "5 \<le> totalblockcount ?s1" using f(3) assms(1,2) by simp_all
  obtain N s2 where g: "get_page ?s1 = Inr (N, s2)" "pmm_inv s2" "pool ?s1 = N # pool s2"
      "N \<notin> set (pool s2)" "page_aligned N" "unat N < 2 ^ 52" "pmem s2 = pmem ?s1" "cr3 s2 = cr3 ?s1"
      "machine.more s2 = machine.more ?s1"
    by (rule get_page_machine[OF i1])
  have h: "N = page_addr ?s1 (head_freelist ?s1)" "s2 = after_get_page ?s1"
    using get_page_Inr[OF i1(1) g(1)] by simp_all
  have "N \<in> set (pool s)" using f(2) g(3) by (metis list.set_intros(1))
  then have "head_freelist s \<noteq> b" using h(1) assms(5) by (auto simp: page_addr_def)
  then have "ref_count (p_list s2 b) = ref_count (f b)" using h(2) by (simp add: after_get_page_def)
  then have rc: "ref_count (p_list s2 b) =
      max (min 0 (ref_count (p_list s b))) (ref_count (p_list s b) - 1)"
    using f(4) ix by (simp add: max_def min_def)
  have "page_addr s2 = page_addr s" using h(2) by (simp add: page_addr_def fun_eq_iff)
  then show thesis
    using that[OF f(1) g(1,2) _ g(4-6)] f(2) g(3,7-9) rc by simp
qed

text \<open>
  The memory half of \<open>cow\<close>: the entry is redirected to the new page \<open>N\<close>, and the
  saved bytes of the old page \<open>D\<close> are written through it.
\<close>

lemma leaf_copy:
  fixes s s2 :: "'a machine_scheme"
  assumes "pt_tree (pmem s) (root s) F" and "p1_index addr \<noteq> 0x1FE"
    and "walk_to s [p1_index addr, p2_index addr, p3_index addr] = Some T"
    and "N \<in> F" and "page_aligned N" and "unat N < 2 ^ 52" and "F' \<subseteq> F - {N}"
    and "pmem s2 = pmem s" and "cr3 s2 = cr3 s" and "length bs = 4096"
  defines "e \<equiv> (N AND 0xFFFFFFFFFFFFF000) OR 7"
  obtains m where
    "rbind (vstore64 (p4_window addr + 8 * p4_index addr) e s2)
       (vstore_bytes (addr AND 0xFFFFFFFFFFFFF000) bs) = Inr (s2\<lparr>pmem := m\<rparr>)"
    and "pt_tree m (root s) F'" and "path m (root s) (mmu_indices addr) = Some N"
    and "\<forall>d < 4096. m (N + of_nat d) = bs ! d"
    and "\<forall>f d. page_aligned f \<and> d < 4096 \<and> f \<notin> tables s \<and> f \<noteq> N \<longrightarrow> m (f + of_nat d) = pmem s (f + of_nat d)"
    and "check_cow addr (s2\<lparr>pmem := m\<rparr>) = Inr False" and "same_elsewhere addr s (s2\<lparr>pmem := m\<rparr>)"
    and "path m (root s) [p1_index addr, p2_index addr, p3_index addr] = Some T"
    and "pte m T (p4_index addr) AND 7 = 7"
proof -
  let ?P = "[p1_index addr, p2_index addr, p3_index addr]" and ?a = "addr AND 0xFFFFFFFFFFFFF000"
  note t = assms(1) and T = assms(3)
  have e: "bit e 0" "frame_of e = N" "e AND 7 = 7"
    using frame_of_entry[OF assms(5,6), of 7] entry_flags[of 7 N] by (simp_all add: e_def)
  define s3 where "s3 = s2\<lparr>pmem := store64 (pmem s) (T + 8 * p4_index addr) e\<rparr>"
  have s3: "pmem s3 = store64 (pmem s) (T + 8 * p4_index addr) e" "cr3 s3 = cr3 s"
    by (simp_all add: s3_def assms(9))
  have fr: "bit e 0 \<longrightarrow> frame_of e \<notin> F'" and sub: "F' \<subseteq> F" using e(2) assms(7) by auto
  note st = leaf_store[OF t assms(2) T s3 sub fr]
  have P: "idx_ok ?P" using idx_ok_append[of ?P "[p4_index addr]"] idx_ok_indices[OF assms(2)]
    by (simp add: mmu_indices_eq)
  have tabs: "N \<notin> tables s3" and TT: "T \<in> tables s3"
    using st(2) pt_tree_fresh[OF t] assms(4) ptablesI[OF T P] by (fastforce simp: ptables_def)+
  obtain m where m: "vstore_bytes ?a bs s3 = Inr (s3\<lparr>pmem := m\<rparr>)"
    "\<And>k. k < 4096 \<Longrightarrow> m (N + of_nat k) = bs ! k"
    "\<And>f e. page_aligned f \<Longrightarrow> e < 4096 \<Longrightarrow> f \<noteq> N \<Longrightarrow> m (f + of_nat e) = pmem s3 (f + of_nat e)"
    "pt_tree m (root s3) F'"
    "\<And>q. idx_ok q \<Longrightarrow> length q \<le> 4 \<Longrightarrow> path m (root s3) q = walk_to s3 q"
    "\<And>T j. T \<in> tables s3 \<Longrightarrow> unat j < 512 \<Longrightarrow> pte m T j = pte (pmem s3) T j"
    using vstore_bytes_page[OF st(1) _ page_base(1), of addr N 0 bs] assms(2,10) st(3) e tabs
    by (auto simp: page_base)
  let ?s' = "s2\<lparr>pmem := m\<rparr>"
  have w: "page_aligned (p4_window addr)" "mmu_indices (p4_window addr) = replicate 1 0x1FE @ ?P"
    unfolding p4_window_def by (rule windows(7,8)[OF index_bound(1-3)])+
  have st4: "vstore64 (p4_window addr + 8 * p4_index addr) e s2 = Inr s3"
    using window_entry(2)[of s2 F, OF _ w, of "p4_index addr" T e] t T assms(8,9)
    by (simp add: s3_def)
  have s': "s3\<lparr>pmem := m\<rparr> = ?s'" and R: "root s3 = root s" by (simp_all add: s3_def assms(9))
  have old: "f \<noteq> N \<and> page_aligned f \<and> walk_to s q = Some f"
    if q: "idx_ok q" "length q = 4" "q \<noteq> mmu_indices addr" "walk_to s3 q = Some f" for f q
  proof -
    have f: "walk_to s q = Some f" using st(7)[OF q(1-3)] q(4) by simp
    then show ?thesis using pt_tree_fresh[OF t f q(1)] q(2) assms(4) pt_tree_aligned[OF t f] by auto
  qed
  have se: "same_elsewhere addr s3 ?s'"
    by (rule same_elsewhereI) (use m(3,5) old assms(9) R in auto)
  show thesis
  proof (rule that)
    show "rbind (vstore64 (p4_window addr + 8 * p4_index addr) e s2) (vstore_bytes ?a bs) = Inr ?s'"
      using st4 m(1) s' by simp
    show "pt_tree m (root s) F'" using m(4) R by simp
    show "path m (root s) (mmu_indices addr) = Some N"
      using m(5)[OF idx_ok_indices[OF assms(2)]] st(3) e R by simp
    show "\<forall>f d. page_aligned f \<and> d < 4096 \<and> f \<notin> tables s \<and> f \<noteq> N \<longrightarrow> m (f + of_nat d) = pmem s (f + of_nat d)"
    proof (intro allI impI)
      fix f and d :: nat assume f: "page_aligned f \<and> d < 4096 \<and> f \<notin> tables s \<and> f \<noteq> N"
      then have "f \<noteq> T" using ptablesI[OF T P] by auto
      then show "m (f + of_nat d) = pmem s (f + of_nat d)"
        using f m(3)[of f d] store64_other_page[OF pt_tree_aligned[OF t T], of f] by (simp add: s3(1))
    qed
    show fl: "pte m T (p4_index addr) AND 7 = 7" using m(6)[OF TT, of "p4_index addr"] st(5) e(3) by simp
    show pT: "path m (root s) ?P = Some T" using m(5)[OF P] st(4) R by simp
    show "check_cow addr ?s' = Inr False"
      using check_cow_eq[of ?s' F' addr T] m(4) R assms(9) fl pT by simp
    show "same_elsewhere addr s ?s'" by (rule same_elsewhere_trans[OF st(6) se st(2)])
  qed (use m(2) in simp)
qed

lemma cow_copies:
  fixes s :: "'a machine_scheme"
  assumes "pt_inv s" and "5 \<le> totalblockcount s" and "p1_index addr \<noteq> 0x1FE"
    and "b \<in> {1..<50000}" and "get_phys_addr addr s = Inr e" and "bit e 0"
    and "e AND 0xFFFFFFFFFFFFF000 = page_addr s b" and "page_addr s b \<notin> tables s"
  obtains N s' where "cow addr s = Inr s'" and "pt_inv s'" and "N \<in> set (pool s)"
    and "walk_to s' (mmu_indices addr) = Some N" and "N \<noteq> page_addr s b"
    and "\<forall>d < 4096. pmem s' (N + of_nat d) = pmem s (page_addr s b + of_nat d)"
    and "\<forall>d < 4096. pmem s' (page_addr s b + of_nat d) = pmem s (page_addr s b + of_nat d)"
    and "check_cow addr s' = Inr False" and "same_elsewhere addr s s'"
    and "ref_count (p_list s' b) = max (min 0 (ref_count (p_list s b))) (ref_count (p_list s b) - 1)"
    and "\<exists>T. walk_to s' [p1_index addr, p2_index addr, p3_index addr] = Some T \<and>
      pte (pmem s') T (p4_index addr) AND 7 = 7"
proof -
  let ?P = "[p1_index addr, p2_index addr, p3_index addr]" and ?D = "page_addr s b"
  have p: "pmm_inv s" and t: "pt_tree (pmem s) (root s) (set (pool s))"
    using assms(1) by (simp_all add: pt_inv_def)
  obtain T where T: "walk_to s ?P = Some T" and eT: "pte (pmem s) T (p4_index addr) = e"
    using assms(5,6) get_phys_addr_eq[OF assms(1,3)] by (cases "walk_to s ?P") auto
  have D: "walk_to s (mmu_indices addr) = Some ?D"
    using leaf_entry[OF T] eT assms(6) frame_of_managed[OF p assms(4,7)] by simp
  have Dp: "?D \<notin> set (pool s)" using pt_tree_fresh[OF t D idx_ok_indices[OF assms(3)]] by simp
  have Dal: "page_aligned ?D" by (rule pt_tree_aligned[OF t D])
  have "?D \<noteq> 0" using page_addr_nonzero[of s b] p assms(4) by (auto simp: pmm_inv_def)
  then have e5: "e \<noteq> 5" "e \<noteq> 0" using assms(7) by auto
  obtain N s1 s2 where al: "decrement_reference_count e s = Inr s1" "get_page s1 = Inr (N, s2)"
      "pmm_inv s2" "pool s = N # pool s2" "N \<notin> set (pool s2)" "page_aligned N" "unat N < 2 ^ 52"
    and s2: "pmem s2 = pmem s" "cr3 s2 = cr3 s" "ref_count (p_list s2 b) =
         max (min 0 (ref_count (p_list s b))) (ref_count (p_list s b) - 1)"
    by (rule cow_alloc[OF p assms(2,4,7) Dp])
  have Ns: "N \<in> set (pool s)" "N \<noteq> ?D" using al(4) Dp by auto
  let ?bs = "map (\<lambda>k. pmem s (?D + of_nat k)) [0..<4096]"
  obtain m where m: "rbind (vstore64 (p4_window addr + 8 * p4_index addr)
        ((N AND 0xFFFFFFFFFFFFF000) OR 7) s2)
        (vstore_bytes (addr AND 0xFFFFFFFFFFFFF000) ?bs) = Inr (s2\<lparr>pmem := m\<rparr>)"
      "pt_tree m (root s) (set (pool s2))" "path m (root s) (mmu_indices addr) = Some N"
      "\<forall>d < 4096. m (N + of_nat d) = ?bs ! d"
      "\<forall>f d. page_aligned f \<and> d < 4096 \<and> f \<notin> tables s \<and> f \<noteq> N \<longrightarrow> m (f + of_nat d) = pmem s (f + of_nat d)"
      "check_cow addr (s2\<lparr>pmem := m\<rparr>) = Inr False" "same_elsewhere addr s (s2\<lparr>pmem := m\<rparr>)"
      "path m (root s) ?P = Some T" "pte m T (p4_index addr) AND 7 = 7"
    by (rule leaf_copy[OF t assms(3) T Ns(1) al(6,7) _ s2(1,2), of "set (pool s2)" ?bs])
      (use al(4,5) in auto)
  have ld: "vload_bytes 4096 (addr AND 0xFFFFFFFFFFFFF000) s = Inr ?bs"
    using vload_bytes_page[OF page_base(1), of s addr ?D 0 4096] D by (simp add: page_base(2))
  have "vload64 (p4_window addr + 8 * p4_index addr) s = Inr e"
    using window_entry(1)[OF t windows(7,8)[OF index_bound(1-3)] _ T, of "p4_index addr"] eT
    by (simp add: p4_window_def)
  then have run: "cow addr s = Inr (s2\<lparr>pmem := m\<rparr>)"
    using ld e5 al(1,2) m(1) by (simp add: cow_def Let_def del: vload_bytes.simps)
  show thesis
    by (rule that[OF run _ Ns(1) _ Ns(2)])
      (use m al(3) s2 Dal assms(8) Ns(2) in \<open>simp_all add: pt_inv_def\<close>)
qed

end
