(* ===== verification/Linked_List.thy ===== *)
theory Linked_List
  imports Kernel_Prelude
begin

text \<open>
  Singly linked lists of objects. There are four kinds of them: the memory areas of a
  process, the recycled memory areas, the recycled directory objects, and the shell's
  background processes. An object is found in a heap under its address; address 0 is the null pointer. The field
  that links the objects is a parameter.
\<close>

type_synonym 'n heap = "u64 \<Rightarrow> 'n option"

section \<open>Walking and appending\<close>

text \<open>\<open>None\<close>: the loop that looks for the last node does not end.\<close>

partial_function (option) last_node :: "('n \<Rightarrow> u64) \<Rightarrow> 'n heap \<Rightarrow> u64 \<Rightarrow> u64 res option" where
  "last_node nx h p =
     (case h p of
        None \<Rightarrow> Some (Inl NullPointer)
      | Some n \<Rightarrow> if nx n = 0 then Some (Inr p) else last_node nx h (nx n))"

definition run_loop :: "'a res option \<Rightarrow> 'a res" where
  "run_loop r = (case r of None \<Rightarrow> Inl Unterminated | Some x \<Rightarrow> x)"

text \<open>The node at \<open>p\<close> is linked behind the last node of the list at \<open>first\<close>.\<close>

definition link_last ::
    "('n \<Rightarrow> u64) \<Rightarrow> (u64 \<Rightarrow> 'n \<Rightarrow> 'n) \<Rightarrow> u64 \<Rightarrow> u64 \<Rightarrow> 'n heap \<Rightarrow> (u64 \<times> 'n heap) res" where
  "link_last nx upd first p h =
     (if first = 0 then Inr (p, h)
      else rbind (run_loop (last_node nx h first)) (\<lambda>l.
        Inr (first, h(l := map_option (upd p) (h l)))))"

section \<open>Abstraction\<close>

text \<open>The addresses of the nodes of the list that starts at an address.\<close>

fun chain :: "('n \<Rightarrow> u64) \<Rightarrow> 'n heap \<Rightarrow> u64 \<Rightarrow> u64 list \<Rightarrow> bool" where
  "chain nx h p [] \<longleftrightarrow> p = 0"
| "chain nx h p (a # as) \<longleftrightarrow> p = a \<and> a \<noteq> 0 \<and>
     (case h a of None \<Rightarrow> False | Some n \<Rightarrow> chain nx h (nx n) as)"

lemma run_loop_simps [simp]:
  "run_loop None = Inl Unterminated" "run_loop (Some x) = x"
  by (simp_all add: run_loop_def)

lemma chain_0 [simp]: "chain nx h 0 xs \<longleftrightarrow> xs = []"
  by (cases xs) auto

lemma chain_cong:
  "(\<And>a. a \<in> set xs \<Longrightarrow> h' a = h a) \<Longrightarrow> chain nx h' p xs = chain nx h p xs"
  by (induction xs arbitrary: p) (auto split: option.splits)

lemma chain_upd: "a \<notin> set xs \<Longrightarrow> chain nx (h(a := v)) p xs = chain nx h p xs"
  by (rule chain_cong) auto

lemma chain_in_heap: "chain nx h p xs \<Longrightarrow> a \<in> set xs \<Longrightarrow> \<exists>n. h a = Some n"
  by (induction xs arbitrary: p) (auto split: option.splits)

lemma chain_nonzero: "chain nx h p xs \<Longrightarrow> a \<in> set xs \<Longrightarrow> a \<noteq> 0"
  by (induction xs arbitrary: p) (auto split: option.splits)

lemma chain_inj: "chain nx h p xs \<Longrightarrow> chain nx h p ys \<Longrightarrow> xs = ys"
proof (induction xs arbitrary: p ys)
  case (Cons a xs)
  then show ?case by (cases ys) (auto split: option.splits)
qed simp

lemma last_node_chain:
  assumes "chain nx h p xs" and "xs \<noteq> []"
  shows "last_node nx h p = Some (Inr (last xs))"
  using assms
proof (induction xs arbitrary: p)
  case (Cons a xs)
  then obtain n where n: "p = a" "h a = Some n" "chain nx h (nx n) xs" by (auto split: option.splits)
  show ?case
  proof (cases xs)
    case Nil
    then show ?thesis using n by (simp add: last_node.simps)
  next
    case (Cons b ys)
    then have "nx n \<noteq> 0" using n(3) by auto
    then show ?thesis using n Cons Cons.IH by (subst last_node.simps) simp
  qed
qed simp

section \<open>The list interface\<close>

locale list_node =
  fixes nx :: "'n \<Rightarrow> u64" and upd :: "u64 \<Rightarrow> 'n \<Rightarrow> 'n"
  assumes nx_upd: "nx (upd p n) = p"
begin

lemma chain_snoc:
  assumes "chain nx h p xs" and "xs \<noteq> []" and "distinct (xs @ [a])" and "a \<noteq> 0"
    and "h a = Some n" and "nx n = 0"
  shows "chain nx (h(last xs := map_option (upd a) (h (last xs)))) p (xs @ [a])"
  using assms
proof (induction xs arbitrary: p)
  case (Cons b xs)
  then obtain m where m: "p = b" "b \<noteq> 0" "h b = Some m" "chain nx h (nx m) xs"
    by (auto split: option.splits)
  show ?case
  proof (cases "xs = []")
    case True
    then show ?thesis using m Cons.prems by (auto simp: nx_upd)
  next
    case False
    have "chain nx (h(last xs := map_option (upd a) (h (last xs)))) (nx m) (xs @ [a])"
      by (rule Cons.IH[OF m(4) False _ Cons.prems(4-6)]) (use Cons.prems(3) in auto)
    moreover have "last xs \<noteq> b" using Cons.prems False by auto
    ultimately show ?thesis using m False by (simp add: fun_upd_other del: fun_upd_apply)
  qed
qed simp

text \<open>Linking a fresh node to a list appends its address to the list of addresses.\<close>

lemma link_last_chain:
  assumes "chain nx h p xs" and "distinct (xs @ [a])" and "a \<noteq> 0" and "h a = Some n" and "nx n = 0"
  obtains p' h' where "link_last nx upd p a h = Inr (p', h')" and "chain nx h' p' (xs @ [a])"
    and "\<forall>b. xs = [] \<or> b \<noteq> last xs \<longrightarrow> h' b = h b"
    and "xs \<noteq> [] \<longrightarrow> h' (last xs) = map_option (upd a) (h (last xs))"
    and "dom h' = dom h"
proof (cases "xs = []")
  case True
  then show thesis using assms that[of a h] by (simp add: link_last_def)
next
  case False
  then have "p \<noteq> 0" using assms(1) by auto
  let ?h' = "h(last xs := map_option (upd a) (h (last xs)))"
  have "link_last nx upd p a h = Inr (p, ?h')"
    using \<open>p \<noteq> 0\<close> last_node_chain[OF assms(1) False] by (simp add: link_last_def)
  moreover have "chain nx ?h' p (xs @ [a])" by (rule chain_snoc[OF assms(1) False assms(2-5)])
  moreover have "dom ?h' = dom h"
    using chain_in_heap[OF assms(1), of "last xs"] False by (auto simp: dom_def)
  ultimately show thesis using that[of p ?h'] False by auto
qed

text \<open>Taking a node out behind its predecessor.\<close>

lemma chain_unlink:
  assumes "chain nx h p (us @ c # vs)" and "us \<noteq> []" and "distinct (us @ c # vs)" and "h c = Some n"
  shows "chain nx (h(last us := map_option (upd (nx n)) (h (last us)))) p (us @ vs)"
  using assms(1-3)
proof (induction us arbitrary: p)
  case (Cons b us)
  then obtain m where m: "p = b" "b \<noteq> 0" "h b = Some m" "chain nx h (nx m) (us @ c # vs)"
    by (auto split: option.splits)
  show ?case
  proof (cases "us = []")
    case True
    then have "chain nx h (nx n) vs" using m(4) assms(4) by simp
    moreover have "b \<notin> set vs" using Cons.prems(3) by simp
    ultimately show ?thesis
      using True m nx_upd[of "nx n" m] by (simp add: fun_upd_same chain_upd del: fun_upd_apply)
  next
    case False
    have "chain nx (h(last us := map_option (upd (nx n)) (h (last us)))) (nx m) (us @ vs)"
      by (rule Cons.IH[OF m(4) False]) (use Cons.prems(3) in auto)
    moreover have "last us \<noteq> b" using Cons.prems False by auto
    ultimately show ?thesis using m False by (simp add: fun_upd_other del: fun_upd_apply)
  qed
qed simp

end

end
