(* ===== verification/Virt_Mem.thy ===== *)
theory Virt_Mem
  imports Paging Linked_List
begin

text \<open>
  The kernel's virtual memory layer, \<open>sys/virt_mem.c\<close>: the bump allocator \<open>kmalloc\<close>, the
  memory areas (\<open>vma\<close>) of a process as a linked list with a recycle list for removed
  nodes, and the copy loop that fills a segment from a file. The objects that \<open>kmalloc\<close>
  hands out are kept in typed heaps indexed by their address.
\<close>

section \<open>State\<close>

record vma =
  vstart :: u64
  vend :: u64
  nextvma :: u64

record mm_struct =
  vma_list :: u64

record vmm = machine +
  kern_VA :: u64
  vmas :: "vma heap"
  vma_recycle_list :: u64

abbreviation MAX_KERN :: u64 where "MAX_KERN \<equiv> 0xFFFFFFFFFFFFFFFF"
abbreviation vma_link :: "u64 \<Rightarrow> vma \<Rightarrow> vma" where "vma_link p v \<equiv> v\<lparr>nextvma := p\<rparr>"

interpretation vl: list_node nextvma vma_link
  by unfold_locales simp

section \<open>Operations\<close>

definition recyclevmastruct :: "u64 \<Rightarrow> 'a vmm_scheme \<Rightarrow> 'a vmm_scheme res" where
  "recyclevmastruct p s =
     (case vmas s p of
        None \<Rightarrow> Inl NullPointer
      | Some v \<Rightarrow>
          rbind (link_last nextvma vma_link (vma_recycle_list s) p ((vmas s)(p \<mapsto> vma_link 0 v)))
            (\<lambda>(r, h). Inr (s\<lparr>vma_recycle_list := r, vmas := h\<rparr>)))"

definition getvma_from_recylebin :: "'a vmm_scheme \<Rightarrow> (u64 \<times> 'a vmm_scheme) res" where
  "getvma_from_recylebin s =
     (if vma_recycle_list s = 0 then Inr (0, s)
      else case vmas s (vma_recycle_list s) of
        None \<Rightarrow> Inl NullPointer
      | Some v \<Rightarrow> Inr (vma_recycle_list s, s\<lparr>vma_recycle_list := nextvma v\<rparr>))"

definition kmalloc :: "u64 \<Rightarrow> 'a vmm_scheme \<Rightarrow> (u64 \<times> 'a vmm_scheme) res" where
  "kmalloc byte_count s =
     (if MAX_KERN < kern_VA s + byte_count then Inl Unterminated
      else Inr (kern_VA s + 1, s\<lparr>kern_VA := kern_VA s + byte_count\<rparr>))"

definition kfree :: "u64 \<Rightarrow> u64 \<Rightarrow> 'a vmm_scheme \<Rightarrow> 'a vmm_scheme res" where
  "kfree vaddr byte_count s = run_loop (unmap_phyaddr_range vaddr (vaddr + byte_count) s)"

text \<open>\<open>sizeof(vma)\<close> is 24.\<close>

definition alloc_vma :: "u64 \<Rightarrow> u64 \<Rightarrow> 'a vmm_scheme \<Rightarrow> (u64 \<times> 'a vmm_scheme) res" where
  "alloc_vma startAdd endAddr s =
     rbind (getvma_from_recylebin s) (\<lambda>(new_vma, s).
     rbind (if new_vma = 0 then kmalloc 24 s else Inr (new_vma, s)) (\<lambda>(new_vma, s).
       Inr (new_vma,
            s\<lparr>vmas := (vmas s)(new_vma \<mapsto> \<lparr>vstart = startAdd, vend = endAddr, nextvma = 0\<rparr>)\<rparr>)))"

definition append_to_vma_list ::
    "mm_struct \<Rightarrow> u64 \<Rightarrow> 'a vmm_scheme \<Rightarrow> (mm_struct \<times> 'a vmm_scheme) res" where
  "append_to_vma_list mm vma_to_insert s =
     rbind (link_last nextvma vma_link (vma_list mm) vma_to_insert (vmas s))
       (\<lambda>(l, h). Inr (mm\<lparr>vma_list := l\<rparr>, s\<lparr>vmas := h\<rparr>))"

definition covers :: "vma \<Rightarrow> u64 \<Rightarrow> u64 \<Rightarrow> bool" where
  "covers v startAddr endAddr \<longleftrightarrow> vstart v \<le> startAddr \<and> vend v \<ge> endAddr"

partial_function (option) remove_loop ::
    "u64 \<Rightarrow> u64 \<Rightarrow> u64 \<Rightarrow> u64 \<Rightarrow> 'a vmm_scheme \<Rightarrow> (bool \<times> 'a vmm_scheme) res option" where
  "remove_loop prev_vma current_vma startAddr endAddr s =
     (if current_vma = 0 then Some (Inr (False, s))
      else case vmas s current_vma of
        None \<Rightarrow> Some (Inl NullPointer)
      | Some v \<Rightarrow>
          if covers v startAddr endAddr then
            Some (rbind
              (recyclevmastruct current_vma
                 (s\<lparr>vmas := (vmas s)(prev_vma := map_option (vma_link (nextvma v)) (vmas s prev_vma))\<rparr>))
              (\<lambda>s. rbind (run_loop (unmap_phyaddr_range (vstart v) (vend v) s))
                (\<lambda>s. Inr (True, s))))
          else remove_loop current_vma (nextvma v) startAddr endAddr s)"

definition remove_from_vma_list ::
    "mm_struct \<Rightarrow> u64 \<Rightarrow> u64 \<Rightarrow> 'a vmm_scheme \<Rightarrow> (bool \<times> mm_struct \<times> 'a vmm_scheme) res" where
  "remove_from_vma_list mm startAddr endAddr s =
     (if vma_list mm = 0 then Inr (False, mm, s)
      else case vmas s (vma_list mm) of
        None \<Rightarrow> Inl NullPointer
      | Some v \<Rightarrow>
          if covers v startAddr endAddr then
            rbind (run_loop (unmap_phyaddr_range (vstart v) (vend v) s)) (\<lambda>s.
            rbind (recyclevmastruct (vma_list mm) s) (\<lambda>s.
              Inr (True, mm\<lparr>vma_list := nextvma v\<rparr>, s)))
          else
            rbind (run_loop (remove_loop (vma_list mm) (vma_list mm) startAddr endAddr s))
              (\<lambda>(r, s). Inr (r, mm, s)))"

partial_function (option) area_loop :: "vma heap \<Rightarrow> u64 \<Rightarrow> u64 \<Rightarrow> bool res option" where
  "area_loop h itr vaddr =
     (if itr = 0 then Some (Inr False)
      else case h itr of
        None \<Rightarrow> Some (Inl NullPointer)
      | Some v \<Rightarrow> if vaddr \<ge> vstart v \<and> vaddr \<le> vend v then Some (Inr True)
                  else area_loop h (nextvma v) vaddr)"

definition IsPageInVmaList :: "mm_struct \<Rightarrow> u64 \<Rightarrow> 'a vmm_scheme \<Rightarrow> bool res" where
  "IsPageInVmaList mm vaddr s = run_loop (area_loop (vmas s) (vma_list mm) vaddr)"

text \<open>
  The kernel touches pages that are not mapped yet: the page fault handler, in its
  kernel mode branch, maps the page and the access is repeated. \<open>demand\<close> is that branch;
  \<open>kload8\<close> and \<open>kstore8\<close> are byte accesses of kernel code with it.
\<close>

definition demand :: "u64 \<Rightarrow> 'a machine_scheme \<Rightarrow> 'a machine_scheme res" where
  "demand addr s =
     rbind (map_phyaddr (push_bit 12 (drop_bit 12 addr)) s) (\<lambda>(r, s).
       if r = -1 then Inl (NoPhysicalPage addr) else Inr s)"

definition kload8 :: "u64 \<Rightarrow> 'a machine_scheme \<Rightarrow> (u8 \<times> 'a machine_scheme) res" where
  "kload8 a s =
     rbind (case translate s a of None \<Rightarrow> demand a s | Some _ \<Rightarrow> Inr s) (\<lambda>s.
     rbind (vload8 a s) (\<lambda>b. Inr (b, s)))"

definition kstore8 :: "u64 \<Rightarrow> u8 \<Rightarrow> 'a machine_scheme \<Rightarrow> 'a machine_scheme res" where
  "kstore8 a v s =
     rbind (case translate s a of None \<Rightarrow> demand a s | Some _ \<Rightarrow> Inr s) (vstore8 a v)"

text \<open>Accesses of kernel code to eight bytes; a page that is not present is mapped first.\<close>

definition touch :: "u64 \<Rightarrow> 'a machine_scheme \<Rightarrow> 'a machine_scheme res" where
  "touch a s = (case translate s a of None \<Rightarrow> demand a s | Some _ \<Rightarrow> Inr s)"

definition kload64 :: "u64 \<Rightarrow> 'a machine_scheme \<Rightarrow> (u64 \<times> 'a machine_scheme) res" where
  "kload64 a s =
     rbind (touch a s) (\<lambda>s. rbind (touch (a + 7) s) (\<lambda>s. rbind (vload64 a s) (\<lambda>v. Inr (v, s))))"

definition kstore64 :: "u64 \<Rightarrow> u64 \<Rightarrow> 'a machine_scheme \<Rightarrow> 'a machine_scheme res" where
  "kstore64 a v s = rbind (touch a s) (\<lambda>s. rbind (touch (a + 7) s) (vstore64 a v))"

text \<open>
  \<open>file_map\<close>: bytes 0 to \<open>fsize\<close> are copied (the test is \<open>i>fsize\<close>), the rest is zeroed.
  The result \<open>False\<close> is the return value -1.
\<close>

definition file_map ::
    "u64 \<Rightarrow> u64 \<Rightarrow> u64 \<Rightarrow> u64 \<Rightarrow> 'a machine_scheme \<Rightarrow> (bool \<times> 'a machine_scheme) res" where
  "file_map vadd source_add fsize msize s =
     (if fsize < 1 then Inr (False, s)
      else rbind
        (rfold (\<lambda>i s. if of_nat i > fsize then kstore8 (vadd + of_nat i) 0 s
                      else rbind (kload8 (source_add + of_nat i) s)
                             (\<lambda>(b, s). kstore8 (vadd + of_nat i) b s))
           [0..<unat msize] s)
        (\<lambda>s. Inr (True, s)))"


section \<open>The memory areas of a process\<close>

definition area :: "vma heap \<Rightarrow> u64 \<Rightarrow> u64 \<times> u64" where
  "area h a = (case h a of None \<Rightarrow> (0, 0) | Some v \<Rightarrow> (vstart v, vend v))"

definition areas :: "vma heap \<Rightarrow> u64 list \<Rightarrow> (u64 \<times> u64) list" where
  "areas h xs = map (area h) xs"

text \<open>
  The nodes \<open>xs\<close> of a process and the recycled nodes \<open>ys\<close> are pairwise different nodes of
  two lists, and all nodes lie below the top of the kernel heap.
\<close>

definition vma_inv :: "mm_struct \<Rightarrow> u64 list \<Rightarrow> u64 list \<Rightarrow> 'a vmm_scheme \<Rightarrow> bool" where
  "vma_inv mm xs ys s \<longleftrightarrow> chain nextvma (vmas s) (vma_list mm) xs \<and>
     chain nextvma (vmas s) (vma_recycle_list s) ys \<and> distinct (xs @ ys) \<and>
     (\<forall>a. vmas s a \<noteq> None \<longrightarrow> unat a \<le> unat (kern_VA s))"

lemma area_link [simp]: "area (h(a := map_option (vma_link p) (h a))) b = area h b"
  by (auto simp: area_def split: option.splits)

lemma areas_link [simp]: "areas (h(a := map_option (vma_link p) (h a))) xs = areas h xs"
  by (simp add: areas_def)

lemma areas_cong: "(\<And>a. a \<in> set xs \<Longrightarrow> area h' a = area h a) \<Longrightarrow> areas h' xs = areas h xs"
  by (simp add: areas_def)

lemma kmalloc_Inr: "kmalloc n s = Inr (kern_VA s + 1, s\<lparr>kern_VA := kern_VA s + n\<rparr>)"
proof -
  have "\<not> MAX_KERN < x" for x :: u64
  proof -
    have "unat x < 2 ^ 64" using unsigned_less[of x] by simp
    then show ?thesis by (simp add: word_less_nat_alt)
  qed
  then show ?thesis by (simp only: kmalloc_def if_False)
qed

lemma alloc_vma_ok:
  fixes s :: "'a vmm_scheme"
  assumes "vma_inv mm xs ys s" and "unat (kern_VA s) + 24 < 2 ^ 64"
  obtains p s' where "alloc_vma a b s = Inr (p, s')" and "p \<noteq> 0" and "p \<notin> set xs" and "p \<notin> set (tl ys)"
    and "vmas s' = (vmas s)(p \<mapsto> \<lparr>vstart = a, vend = b, nextvma = 0\<rparr>)"
    and "vma_inv mm xs (tl ys) s'" and "ys \<noteq> [] \<longrightarrow> p = hd ys"
proof -
  let ?new = "\<lparr>vstart = a, vend = b, nextvma = 0\<rparr>"
  have i: "chain nextvma (vmas s) (vma_list mm) xs" "chain nextvma (vmas s) (vma_recycle_list s) ys"
      "distinct (xs @ ys)" "\<And>a. vmas s a \<noteq> None \<Longrightarrow> unat a \<le> unat (kern_VA s)"
    using assms(1) by (auto simp: vma_inv_def)
  show thesis
  proof (cases ys)
    case Nil
    then have r: "vma_recycle_list s = 0" using i(2) by simp
    let ?p = "kern_VA s + 1"
    let ?s' = "s\<lparr>kern_VA := kern_VA s + 24, vmas := (vmas s)(?p \<mapsto> ?new)\<rparr>"
    have u: "unat ?p = unat (kern_VA s) + 1" "unat (kern_VA s + 24) = unat (kern_VA s) + 24"
      using assms(2) by (simp_all add: unat_word_ariths)
    then have new: "vmas s ?p = None" using i(4)[of ?p] by (cases "vmas s ?p") auto
    then have xs: "?p \<notin> set xs" using chain_in_heap[OF i(1), of ?p] by auto
    have "?p \<noteq> 0" using u(1) by auto
    moreover have "alloc_vma a b s = Inr (?p, ?s')"
      by (simp add: alloc_vma_def getvma_from_recylebin_def r kmalloc_Inr)
    moreover have "unat c \<le> unat (kern_VA ?s')" if "vmas ?s' c \<noteq> None" for c
      using that u i(4)[of c] by (cases "c = ?p") auto
    then have "vma_inv mm xs (tl ys) ?s'"
      using i Nil xs r by (simp add: vma_inv_def chain_upd del: fun_upd_apply)
    ultimately show thesis using that[of ?p ?s'] xs Nil by simp
  next
    case (Cons y zs)
    then obtain v where v: "vma_recycle_list s = y" "y \<noteq> 0" "vmas s y = Some v" "chain nextvma (vmas s) (nextvma v) zs"
      using i(2) by (auto split: option.splits)
    let ?s' = "s\<lparr>vma_recycle_list := nextvma v, vmas := (vmas s)(y \<mapsto> ?new)\<rparr>"
    have d: "y \<notin> set xs" "y \<notin> set zs" using i(3) Cons by auto
    have run: "alloc_vma a b s = Inr (y, ?s')"
      using v by (simp add: alloc_vma_def getvma_from_recylebin_def)
    have "unat c \<le> unat (kern_VA ?s')" if "vmas ?s' c \<noteq> None" for c
      using that i(4)[of c] i(4)[of y] v(3) by (cases "c = y") auto
    moreover have "chain nextvma (vmas ?s') (vma_list mm) xs"
      using i(1) by (simp add: chain_upd[OF d(1)] del: fun_upd_apply)
    moreover have "chain nextvma (vmas ?s') (nextvma v) zs"
      using v(4) by (simp add: chain_upd[OF d(2)] del: fun_upd_apply)
    ultimately have "vma_inv mm xs (tl ys) ?s'"
      using i(3) Cons by (simp add: vma_inv_def)
    then show thesis by (intro that[OF run]) (use v d Cons in simp_all)
  qed
qed

lemma recycle_ok:
  fixes s :: "'a vmm_scheme"
  assumes "chain nextvma (vmas s) (vma_recycle_list s) ys" and "distinct (ys @ [c])" and "c \<noteq> 0"
    and "vmas s c = Some v"
  obtains r h where "recyclevmastruct c s = Inr (s\<lparr>vma_recycle_list := r, vmas := h\<rparr>)"
    and "chain nextvma h r (ys @ [c])"
    and "\<forall>b. b \<noteq> c \<and> b \<notin> set ys \<longrightarrow> h b = vmas s b" and "area h = area (vmas s)"
    and "dom h = dom (vmas s)"
proof -
  let ?h = "(vmas s)(c \<mapsto> vma_link 0 v)"
  have ch: "chain nextvma ?h (vma_recycle_list s) ys"
    using assms(1,2) by (simp add: chain_upd del: fun_upd_apply)
  obtain r h' where r: "link_last nextvma vma_link (vma_recycle_list s) c ?h = Inr (r, h')"
      "chain nextvma h' r (ys @ [c])" "\<forall>b. ys = [] \<or> b \<noteq> last ys \<longrightarrow> h' b = ?h b"
      "ys \<noteq> [] \<longrightarrow> h' (last ys) = map_option (vma_link c) (?h (last ys))" "dom h' = dom ?h"
    by (rule vl.link_last_chain[OF ch assms(2,3), of "vma_link 0 v"]) auto
  have "area h' b = area (vmas s) b" for b
  proof (cases "ys = [] \<or> b \<noteq> last ys")
    case True
    then have "h' b = ?h b" using r(3) by blast
    then show ?thesis using assms(4) by (auto simp: area_def)
  next
    case False
    then have "h' b = map_option (vma_link c) (?h b)" using r(4) by simp
    then show ?thesis using assms(4) by (auto simp: area_def split: option.splits)
  qed
  moreover have "recyclevmastruct c s = Inr (s\<lparr>vma_recycle_list := r, vmas := h'\<rparr>)"
    using r(1) assms(4) by (simp add: recyclevmastruct_def del: fun_upd_apply)
  moreover have "dom h' = dom (vmas s)" using r(5) assms(4) by auto
  moreover have "h' b = vmas s b" if "b \<noteq> c" "b \<notin> set ys" for b
  proof -
    have "ys = [] \<or> b \<noteq> last ys" using that(2) by auto
    then have "h' b = ?h b" using r(3) by blast
    then show ?thesis using that(1) by simp
  qed
  ultimately show thesis using that[where r = r and h = h'] r(2) by (auto simp: fun_eq_iff)
qed

lemma append_ok:
  fixes s :: "'a vmm_scheme"
  assumes "vma_inv mm xs ys s" and "p \<noteq> 0" and "p \<notin> set (xs @ ys)" and "vmas s p = Some v" and "nextvma v = 0"
  obtains mm' h where "append_to_vma_list mm p s = Inr (mm', s\<lparr>vmas := h\<rparr>)"
    and "vma_inv mm' (xs @ [p]) ys (s\<lparr>vmas := h\<rparr>)"
    and "area h = area (vmas s)" and "\<forall>b. b \<notin> set xs \<longrightarrow> h b = vmas s b"
proof -
  have i: "chain nextvma (vmas s) (vma_list mm) xs" "chain nextvma (vmas s) (vma_recycle_list s) ys"
      "distinct (xs @ ys)" "\<And>a. vmas s a \<noteq> None \<Longrightarrow> unat a \<le> unat (kern_VA s)"
    using assms(1) by (auto simp: vma_inv_def)
  have d: "distinct (xs @ [p])" using i(3) assms(3) by auto
  obtain r h where r: "link_last nextvma vma_link (vma_list mm) p (vmas s) = Inr (r, h)"
      "chain nextvma h r (xs @ [p])" "\<forall>b. xs = [] \<or> b \<noteq> last xs \<longrightarrow> h b = vmas s b"
      "xs \<noteq> [] \<longrightarrow> h (last xs) = map_option (vma_link p) (vmas s (last xs))" "dom h = dom (vmas s)"
    by (rule vl.link_last_chain[OF i(1) d assms(2,4,5)])
  have same: "h b = vmas s b" if "b \<notin> set xs" for b
  proof -
    have "xs = [] \<or> b \<noteq> last xs" using that by auto
    then show ?thesis using r(3) by blast
  qed
  have "area h b = area (vmas s) b" for b
  proof (cases "xs = [] \<or> b \<noteq> last xs")
    case True
    then have "h b = vmas s b" using r(3) by blast
    then show ?thesis by (simp add: area_def)
  next
    case False
    then show ?thesis using r(4) by (auto simp: area_def split: option.splits)
  qed
  moreover have "chain nextvma h (vma_recycle_list s) ys"
    using chain_cong[of ys h "vmas s" nextvma "vma_recycle_list s"] same i(2,3) by auto
  then have "vma_inv (mm\<lparr>vma_list := r\<rparr>) (xs @ [p]) ys (s\<lparr>vmas := h\<rparr>)"
    using r(2,5) i(3,4) assms(3) by (auto simp: vma_inv_def)
  moreover have "append_to_vma_list mm p s = Inr (mm\<lparr>vma_list := r\<rparr>, s\<lparr>vmas := h\<rparr>)"
    using r(1) by (simp add: append_to_vma_list_def)
  ultimately show thesis using that same by (simp add: fun_eq_iff)
qed

section \<open>Unmapping keeps the kernel objects\<close>

lemma vstore64_more: "vstore64 a v s = Inr s' \<Longrightarrow> machine.more s' = machine.more s"
proof -
  have b: "vstore8 x y t = Inr t' \<Longrightarrow> machine.more t' = machine.more t"
    for x y and t t' :: "'a machine_scheme"
    by (auto simp: vstore8_def split: option.splits)
  have f: "rfold (\<lambda>k. vstore8 (x k) (y k)) ks t = Inr t' \<Longrightarrow> machine.more t' = machine.more t"
    for x :: "nat \<Rightarrow> u64" and y ks and t t' :: "'a machine_scheme"
    by (induction ks arbitrary: t) (auto simp: rbind_Inr_iff dest: b)
  show "vstore64 a v s = Inr s' \<Longrightarrow> machine.more s' = machine.more s"
    by (auto simp: vstore64_def dest: f split: if_splits option.splits)
qed

lemma clear_page_more: "clear_page a s = Inr s' \<Longrightarrow> machine.more s' = machine.more s"
proof -
  have "rfold (\<lambda>i. vstore64 (x i) 0) ks t = Inr t' \<Longrightarrow> machine.more t' = machine.more t"
    for x :: "nat \<Rightarrow> u64" and ks and t t' :: "'a machine_scheme"
    by (induction ks arbitrary: t) (auto simp: rbind_Inr_iff dest: vstore64_more)
  then show "clear_page a s = Inr s' \<Longrightarrow> machine.more s' = machine.more s"
    by (simp add: clear_page_def)
qed

lemma pmm_ops_more:
  fixes s :: "'a machine_scheme"
  shows "free_page x s = Inr s' \<Longrightarrow> machine.more s' = machine.more s"
    and "decrement_reference_count x s = Inr s' \<Longrightarrow> machine.more s' = machine.more s"
  by (auto simp: free_page_def decrement_reference_count_def Let_def split: if_splits)

lemma unmap_phyaddr_more:
  fixes s :: "'a machine_scheme"
  assumes "unmap_phyaddr a s = Inr s'"
  shows "machine.more s' = machine.more s"
proof -
  have "machine.more t' = machine.more t" if "release_leaf a w e t = Inr t'"
    for w e and t t' :: "'a machine_scheme"
    using that
    by (auto simp: release_leaf_def rbind_Inr_iff split: if_splits
        dest!: vstore64_more clear_page_more pmm_ops_more)
  then show ?thesis
    using assms by (auto simp: unmap_phyaddr_def Let_def rbind_Inr_iff split: if_splits)
qed

lemma unmap_loop_more:
  fixes s :: "'a machine_scheme"
  assumes "unmap_loop i e s = Some r"
  shows "\<forall>s'. r = Inr s' \<longrightarrow> machine.more s' = machine.more s"
proof (rule unmap_loop.raw_induct[where P = "\<lambda>i e s r. \<forall>s'. r = Inr s' \<longrightarrow> machine.more s' = machine.more s",
      OF _ assms])
  fix f and i :: int and e :: u64 and s :: "'a machine_scheme" and r
  assume IH: "\<And>i e (s :: 'a machine_scheme) r. f i e s = Some r \<Longrightarrow>
      \<forall>s'. r = Inr s' \<longrightarrow> machine.more s' = machine.more s"
    and step: "(if of_int i < e then case unmap_phyaddr (of_int i) s of
        Inl e \<Rightarrow> Some (Inl e)
      | Inr s' \<Rightarrow> if i + 4096 < 2 ^ 31 then f (i + 4096) e s' else Some (Inl IntOverflow) else Some (Inr s)) = Some r"
  show "\<forall>s'. r = Inr s' \<longrightarrow> machine.more s' = machine.more s"
    using step IH unmap_phyaddr_more[of "of_int i" s]
    by (cases "unmap_phyaddr (of_int i) s") (fastforce split: if_splits)+
qed

lemma unmap_range_more:
  "run_loop (unmap_phyaddr_range a b s) = Inr s' \<Longrightarrow> machine.more s' = machine.more s"
  unfolding unmap_phyaddr_range_def Let_def
  by (auto simp: run_loop_def split: option.splits dest: unmap_loop_more)


section \<open>Removing an area\<close>

lemma remove_loop_skip:
  fixes s :: "'a vmm_scheme"
  assumes "chain nextvma (vmas s) cur (zs @ c # vs)" and "prev \<noteq> 0"
    and "\<forall>z \<in> set zs. \<not> covers (the (vmas s z)) a b"
  shows "remove_loop prev cur a b s = remove_loop (last (prev # zs)) c a b s"
  using assms
proof (induction zs arbitrary: prev cur)
  case (Cons z zs)
  then obtain v where v: "cur = z" "z \<noteq> 0" "vmas s z = Some v" "chain nextvma (vmas s) (nextvma v) (zs @ c # vs)"
    by (auto split: option.splits)
  have "remove_loop prev cur a b s = remove_loop z (nextvma v) a b s"
    using v Cons.prems(3) by (subst remove_loop.simps) simp
  also have "\<dots> = remove_loop (last (z # zs)) c a b s"
    by (rule Cons.IH[OF v(4,2)]) (use Cons.prems(3) in simp)
  finally show ?case by simp
qed simp

lemma remove_loop_none:
  fixes s :: "'a vmm_scheme"
  assumes "chain nextvma (vmas s) cur zs" and "\<forall>z \<in> set zs. \<not> covers (the (vmas s z)) a b"
  shows "remove_loop prev cur a b s = Some (Inr (False, s))"
  using assms
proof (induction zs arbitrary: prev cur)
  case Nil
  then show ?case by (subst remove_loop.simps) simp
next
  case (Cons z zs)
  then obtain v where v: "cur = z" "z \<noteq> 0" "vmas s z = Some v" "chain nextvma (vmas s) (nextvma v) zs"
    by (auto split: option.splits)
  have "remove_loop prev cur a b s = remove_loop z (nextvma v) a b s"
    using v Cons.prems(2) by (subst remove_loop.simps) simp
  also have "\<dots> = Some (Inr (False, s))" by (rule Cons.IH[OF v(4)]) (use Cons.prems(2) in simp)
  finally show ?case .
qed

text \<open>Unmapping a range succeeds on every state with the same memory and allocator.\<close>

definition can_unmap :: "u64 \<Rightarrow> u64 \<Rightarrow> 'a vmm_scheme \<Rightarrow> bool" where
  "can_unmap a b s \<longleftrightarrow> (\<forall>h r. \<exists>s'.
     run_loop (unmap_phyaddr_range a b (s\<lparr>vma_recycle_list := r, vmas := h\<rparr>)) = Inr s')"

lemma vmm_more:
  fixes s s' :: "'a vmm_scheme"
  assumes "machine.more s' = machine.more s"
  shows "vmas s' = vmas s" and "vma_recycle_list s' = vma_recycle_list s" and "kern_VA s' = kern_VA s"
  using assms by (cases s, cases s', simp)+

lemma vma_invI:
  assumes "chain nextvma (vmas s) (vma_list mm) xs" and "chain nextvma (vmas s) (vma_recycle_list s) ys"
    and "distinct (xs @ ys)" and "dom (vmas s) = dom (vmas t)" and "kern_VA s = kern_VA t"
    and "\<And>a. vmas t a \<noteq> None \<Longrightarrow> unat a \<le> unat (kern_VA t)"
  shows "vma_inv mm xs ys s"
  using assms(1-3,5,6) domIff[of _ "vmas s"] domIff[of _ "vmas t"] unfolding vma_inv_def assms(4) by metis

lemma remove_head:
  fixes s :: "'a vmm_scheme"
  assumes "vma_inv mm (c # vs) ys s" and "vmas s c = Some v" and "covers v a b"
    and "run_loop (unmap_phyaddr_range (vstart v) (vend v) s) = Inr s1"
  obtains r h where
    "remove_from_vma_list mm a b s = Inr (True, mm\<lparr>vma_list := nextvma v\<rparr>, s1\<lparr>vma_recycle_list := r, vmas := h\<rparr>)"
    and "vma_inv (mm\<lparr>vma_list := nextvma v\<rparr>) vs (ys @ [c]) (s1\<lparr>vma_recycle_list := r, vmas := h\<rparr>)"
    and "area h = area (vmas s)"
proof -
  have i: "chain nextvma (vmas s) (vma_list mm) (c # vs)" "chain nextvma (vmas s) (vma_recycle_list s) ys"
      "distinct ((c # vs) @ ys)" "\<And>a. vmas s a \<noteq> None \<Longrightarrow> unat a \<le> unat (kern_VA s)"
    using assms(1) by (auto simp: vma_inv_def)
  have c: "vma_list mm = c" "c \<noteq> 0" "chain nextvma (vmas s) (nextvma v) vs"
    using i(1) assms(2) by simp_all
  note m = vmm_more[OF unmap_range_more[OF assms(4)]]
  obtain r h where r: "recyclevmastruct c s1 = Inr (s1\<lparr>vma_recycle_list := r, vmas := h\<rparr>)"
      "chain nextvma h r (ys @ [c])" "\<forall>b. b \<noteq> c \<and> b \<notin> set ys \<longrightarrow> h b = vmas s1 b"
      "area h = area (vmas s1)" "dom h = dom (vmas s1)"
    by (rule recycle_ok[of s1 ys c v]) (use i(2,3) c(2) assms(2) m in simp_all)
  let ?s' = "s1\<lparr>vma_recycle_list := r, vmas := h\<rparr>" and ?mm = "mm\<lparr>vma_list := nextvma v\<rparr>"
  have "remove_from_vma_list mm a b s = Inr (True, ?mm, ?s')"
    using c(1,2) assms(2,3,4) r(1) by (simp add: remove_from_vma_list_def)
  moreover have "chain nextvma h (nextvma v) vs"
  proof -
    have "h x = vmas s x" if "x \<in> set vs" for x
    proof -
      have "x \<noteq> c \<and> x \<notin> set ys" using that i(3) by auto
      then show ?thesis using r(3) m(1) by simp
    qed
    then show ?thesis using c(3) chain_cong[of vs h "vmas s"] by blast
  qed
  then have "vma_inv ?mm vs (ys @ [c]) ?s'"
    by (intro vma_invI[where t = s]) (use r(2,5) i(3,4) m in simp_all)
  ultimately show thesis using that r(4) m(1) by simp
qed

lemma remove_head_ok:
  fixes s :: "'a vmm_scheme"
  assumes "vma_inv mm (c # vs) ys s" and "vmas s c = Some v" and "covers v a b"
    and "can_unmap (vstart v) (vend v) s"
  shows "\<exists>mm' s'. remove_from_vma_list mm a b s = Inr (True, mm', s') \<and> vma_inv mm' vs (ys @ [c]) s' \<and>
    area (vmas s') = area (vmas s)"
proof -
  have "s\<lparr>vma_recycle_list := vma_recycle_list s, vmas := vmas s\<rparr> = s" by simp
  then obtain s1 where "run_loop (unmap_phyaddr_range (vstart v) (vend v) s) = Inr s1"
    using assms(4) unfolding can_unmap_def by metis
  then obtain r h where
      "remove_from_vma_list mm a b s = Inr (True, mm\<lparr>vma_list := nextvma v\<rparr>, s1\<lparr>vma_recycle_list := r, vmas := h\<rparr>)"
      "vma_inv (mm\<lparr>vma_list := nextvma v\<rparr>) vs (ys @ [c]) (s1\<lparr>vma_recycle_list := r, vmas := h\<rparr>)" "area h = area (vmas s)"
    by (rule remove_head[OF assms(1-3)])
  then show ?thesis by (intro exI[of _ "mm\<lparr>vma_list := nextvma v\<rparr>"] exI[of _ "s1\<lparr>vma_recycle_list := r, vmas := h\<rparr>"]) simp
qed

lemma remove_inner_ok:
  fixes s :: "'a vmm_scheme"
  assumes "vma_inv mm (us @ c # vs) ys s" and "us \<noteq> []" and "vmas s c = Some v" and "covers v a b"
    and "\<forall>z \<in> set us. \<not> covers (the (vmas s z)) a b" and "can_unmap (vstart v) (vend v) s"
  shows "\<exists>mm' s'. remove_from_vma_list mm a b s = Inr (True, mm', s') \<and>
    vma_inv mm' (us @ vs) (ys @ [c]) s' \<and> area (vmas s') = area (vmas s)"
proof -
  have i: "chain nextvma (vmas s) (vma_list mm) (us @ c # vs)" "chain nextvma (vmas s) (vma_recycle_list s) ys"
      "distinct ((us @ c # vs) @ ys)" "\<And>a. vmas s a \<noteq> None \<Longrightarrow> unat a \<le> unat (kern_VA s)"
    using assms(1) by (auto simp: vma_inv_def)
  obtain u us' where us: "us = u # us'" using assms(2) by (cases us) auto
  then obtain w where w: "vma_list mm = u" "u \<noteq> 0" "vmas s u = Some w" "\<not> covers w a b"
    using i(1) assms(5) by (auto split: option.splits)
  have c0: "c \<noteq> 0" by (rule chain_nonzero[OF i(1)]) simp
  let ?p = "last us"
  have "remove_loop u u a b s = remove_loop (last (u # us)) c a b s"
    by (rule remove_loop_skip[OF _ w(2) assms(5)]) (use i(1) w(1) in simp)
  also have "last (u # us) = ?p" using assms(2) by simp
  finally have skip: "remove_loop u u a b s = remove_loop ?p c a b s" .
  define h1 where "h1 = (vmas s)(?p := map_option (vma_link (nextvma v)) (vmas s ?p))"
  let ?s1 = "s\<lparr>vmas := h1\<rparr>"
  have ch1: "chain nextvma h1 (vma_list mm) (us @ vs)"
    unfolding h1_def by (rule vl.chain_unlink[OF i(1) assms(2) _ assms(3)]) (use i(3) in auto)
  have pin: "?p \<in> set us" using assms(2) by simp
  have ys1: "chain nextvma h1 (vma_recycle_list ?s1) ys"
    unfolding h1_def using i(2,3) pin by (subst chain_upd) auto
  have hc: "h1 c = Some v" unfolding h1_def using assms(3) i(3) pin by auto
  have a1: "area h1 = area (vmas s)" unfolding h1_def by (simp add: fun_eq_iff)
  have d1: "dom h1 = dom (vmas s)"
    using chain_in_heap[OF i(1), of ?p] pin by (auto simp: h1_def dom_def)
  obtain r h where r: "recyclevmastruct c ?s1 = Inr (?s1\<lparr>vma_recycle_list := r, vmas := h\<rparr>)"
      "chain nextvma h r (ys @ [c])" "\<forall>b. b \<noteq> c \<and> b \<notin> set ys \<longrightarrow> h b = vmas ?s1 b"
      "area h = area (vmas ?s1)" "dom h = dom (vmas ?s1)"
    by (rule recycle_ok[of ?s1 ys c v]) (use ys1 i(3) c0 hc in auto)
  let ?s2 = "s\<lparr>vma_recycle_list := r, vmas := h\<rparr>"
  have s2: "?s1\<lparr>vma_recycle_list := r, vmas := h\<rparr> = ?s2" by simp
  obtain s3 where s3: "run_loop (unmap_phyaddr_range (vstart v) (vend v) ?s2) = Inr s3"
    using assms(6) unfolding can_unmap_def by blast
  note m = vmm_more[OF unmap_range_more[OF s3]]
  have "remove_loop ?p c a b s = Some (Inr (True, s3))"
    using assms(3,4) c0 r(1) s3 s2
    by (subst remove_loop.simps) (simp add: h1_def del: fun_upd_apply)
  then have run: "remove_from_vma_list mm a b s = Inr (True, mm, s3)"
    using w skip by (simp add: remove_from_vma_list_def)
  have "chain nextvma h (vma_list mm) (us @ vs)"
  proof -
    have "h x = h1 x" if "x \<in> set (us @ vs)" for x
    proof -
      have "x \<noteq> c \<and> x \<notin> set ys" using that i(3) by auto
      then show ?thesis using r(3) by simp
    qed
    then show ?thesis using ch1 chain_cong[of "us @ vs" h h1] by blast
  qed
  then have "vma_inv mm (us @ vs) (ys @ [c]) s3"
    by (intro vma_invI[where t = s]) (use r(2,5) d1 i(3,4) m in auto)
  then show ?thesis using run r(4) a1 m(1) by (intro exI[of _ mm] exI[of _ s3]) simp
qed

end
