(* ===== verification/C_Strings.thy ===== *)
theory C_Strings
  imports Kernel_Prelude
begin

text \<open>
  C strings and the functions of \<open>sys/Utils/kstring.c\<close> that only read them. A C string is the
  list of its characters before the terminating NUL; reading at or behind the end gives NUL.
\<close>

section \<open>Characters of a C string\<close>

abbreviation NUL :: char where "NUL \<equiv> CHR 0x00"

definition cget :: "string \<Rightarrow> nat \<Rightarrow> char" where
  "cget s i = (if i < length s then s ! i else NUL)"

definition cstring :: "string \<Rightarrow> bool" where
  "cstring s \<longleftrightarrow> NUL \<notin> set s"

text \<open>A \<open>char\<close> is a signed byte.\<close>

definition schar :: "char \<Rightarrow> int" where
  "schar c = sint (of_char c :: u8)"

definition to_char :: "int \<Rightarrow> char" where
  "to_char i = char_of i"

section \<open>Operations\<close>

text \<open>\<open>for (int i = 0; i < n; ++i)\<close>, counted from \<open>i\<close> with \<open>k\<close> rounds to go.\<close>

fun strncmp_loop :: "string \<Rightarrow> string \<Rightarrow> nat \<Rightarrow> nat \<Rightarrow> int" where
  "strncmp_loop s1 s2 i 0 = 0"
| "strncmp_loop s1 s2 i (Suc k) =
     (if cget s1 i = NUL \<or> cget s2 i = NUL then -1
      else if cget s1 i \<noteq> cget s2 i then -1
      else strncmp_loop s1 s2 (Suc i) k)"

definition strncmp :: "string \<Rightarrow> string \<Rightarrow> nat \<Rightarrow> int" where
  "strncmp s1 s2 n = strncmp_loop s1 s2 0 n"

fun strlen :: "string \<Rightarrow> nat" where
  "strlen [] = 0"
| "strlen (c # cs) = (if c = NUL then 0 else Suc (strlen cs))"

section \<open>Laws\<close>

lemma cget_simps [simp]:
  "cget [] i = NUL" "cget (c # s) 0 = c" "cget (c # s) (Suc i) = cget s i"
  by (simp_all add: cget_def)

lemma strlen_cstring: "cstring s \<Longrightarrow> strlen s = length s"
  by (induction s) (auto simp: cstring_def)

lemma strlen_take: "strlen s = length (takeWhile (\<lambda>c. c \<noteq> NUL) s)"
  by (induction s) auto

lemma cget_NUL: "cstring s \<Longrightarrow> cget s i = NUL \<longleftrightarrow> length s \<le> i"
  unfolding cget_def cstring_def by (metis nth_mem not_le)

text \<open>\<open>strncmp\<close> is 0 exactly when both strings have \<open>n\<close> characters and agree on them.\<close>

lemma strncmp_loop_0:
  assumes "cstring s1" and "cstring s2"
  shows "strncmp_loop s1 s2 i k = 0 \<longleftrightarrow>
    (\<forall>j < k. i + j < length s1 \<and> i + j < length s2 \<and> s1 ! (i + j) = s2 ! (i + j))"
proof (induction k arbitrary: i)
  case (Suc k)
  have *: "(\<forall>j < Suc k. P j) \<longleftrightarrow> P 0 \<and> (\<forall>j < k. P (Suc j))" for P
    by (auto simp: less_Suc_eq_0_disj)
  show ?case
    unfolding * using Suc.IH[of "Suc i"] cget_NUL[OF assms(1), of i] cget_NUL[OF assms(2), of i]
    by (auto simp: cget_def)
qed simp

lemma strncmp_0:
  assumes "cstring s1" and "cstring s2"
  shows "strncmp s1 s2 n = 0 \<longleftrightarrow> n \<le> length s1 \<and> n \<le> length s2 \<and> take n s1 = take n s2"
proof -
  have "strncmp s1 s2 n = 0 \<longleftrightarrow> (\<forall>j < n. j < length s1 \<and> j < length s2 \<and> s1 ! j = s2 ! j)"
    by (simp add: strncmp_def strncmp_loop_0[OF assms])
  also have "\<dots> \<longleftrightarrow> n \<le> length s1 \<and> n \<le> length s2 \<and> take n s1 = take n s2"
  proof
    assume a: "\<forall>j < n. j < length s1 \<and> j < length s2 \<and> s1 ! j = s2 ! j"
    then have "n \<le> length s1" "n \<le> length s2" by (meson not_le less_irrefl)+
    then show "n \<le> length s1 \<and> n \<le> length s2 \<and> take n s1 = take n s2"
      using a by (auto intro: nth_equalityI)
  next
    assume "n \<le> length s1 \<and> n \<le> length s2 \<and> take n s1 = take n s2"
    then show "\<forall>j < n. j < length s1 \<and> j < length s2 \<and> s1 ! j = s2 ! j"
      by (metis less_le_trans nth_take)
  qed
  finally show ?thesis .
qed

end
