(* ===== verification/Kstring.thy ===== *)
theory Kstring
  imports Virt_Mem C_Strings
begin

text \<open>
  The kernel's string functions that allocate memory, \<open>sys/Utils/kstring.c\<close>. The memory that \<open>mystrtok\<close> takes for a token comes from \<open>kmalloc\<close>; the token itself is
  returned as a value.
\<close>

section \<open>Operations\<close>

text \<open>
  The scan of \<open>mystrtok\<close>: \<open>st\<close> holds \<open>start\<close> once \<open>startFound\<close> is set; the result is that
  and the value of \<open>i\<close> at which the loop ends.
\<close>

function tok_scan :: "string \<Rightarrow> char \<Rightarrow> nat \<Rightarrow> nat option \<Rightarrow> nat option \<times> nat" where
  "tok_scan str delim i st =
     (if cget str i = NUL then (st, i)
      else if cget str i \<noteq> delim \<and> st = None then tok_scan str delim (Suc i) (Some i)
      else if cget str i = delim \<and> st \<noteq> None then (st, i)
      else tok_scan str delim (Suc i) st)"
  by pat_completeness auto
termination
  by (relation "measure (\<lambda>(str, _, i, _). length str - i)") (auto simp: cget_def split: if_splits)

declare tok_scan.simps [simp del]

text \<open>The characters from \<open>start\<close> to \<open>end\<close>, both included.\<close>

definition substr :: "string \<Rightarrow> nat \<Rightarrow> nat \<Rightarrow> string" where
  "substr str a n = map (cget str) [a..<n]"

definition mystrtok ::
    "string \<Rightarrow> char \<Rightarrow> nat \<Rightarrow> 'a vmm_scheme \<Rightarrow> (string option \<times> nat \<times> 'a vmm_scheme) res" where
  "mystrtok str delim pos s =
     (case tok_scan str delim pos None of
        (None, i) \<Rightarrow> Inr (None, pos, s)
      | (Some start, i) \<Rightarrow>
          rbind (kmalloc (of_nat (i - 1) - of_nat start + 5) s)
            (\<lambda>(token, s). Inr (Some (substr str start i), i, s)))"

text \<open>
  The loop of \<open>SplitString\<close>. \<open>vector\<close> has room for 20 pointers, the terminating null
  pointer included.
\<close>

partial_function (option) split_loop ::
    "string \<Rightarrow> nat \<Rightarrow> string list \<Rightarrow> 'a vmm_scheme \<Rightarrow> (string list \<times> 'a vmm_scheme) res option" where
  "split_loop str pos vec s =
     (case mystrtok str CHR '' '' pos s of
        Inl e \<Rightarrow> Some (Inl e)
      | Inr (None, pos, s) \<Rightarrow> Some (if length vec < 20 then Inr (vec, s) else Inl OutOfBounds)
      | Inr (Some token, pos, s) \<Rightarrow>
          if length vec < 20 then split_loop str pos (vec @ [token]) s else Some (Inl OutOfBounds))"

definition SplitString :: "string \<Rightarrow> 'a vmm_scheme \<Rightarrow> (string list \<times> nat \<times> 'a vmm_scheme) res" where
  "SplitString str_copy s =
     rbind (kmalloc 1024 s) (\<lambda>(str, s).
     if strlen str_copy \<ge> 1024 then Inl OutOfBounds
     else rbind (kmalloc (8 * 20) s) (\<lambda>(vector, s).
       rbind (run_loop (split_loop (take (strlen str_copy) str_copy) 0 [] s))
         (\<lambda>(vec, s). Inr (vec, length vec, s))))"

section \<open>Tokens\<close>

text \<open>The words of a string between delimiters, empty words left out.\<close>

function tokens :: "char \<Rightarrow> string \<Rightarrow> string list" where
  "tokens d s = (case dropWhile (\<lambda>c. c = d) s of
      [] \<Rightarrow> []
    | r \<Rightarrow> takeWhile (\<lambda>c. c \<noteq> d) r # tokens d (dropWhile (\<lambda>c. c \<noteq> d) r))"
  by pat_completeness auto
termination
proof (relation "measure (\<lambda>(d, s). length s)")
  fix d :: char and s x xs
  assume a: "dropWhile (\<lambda>c. c = d) s = x # xs"
  then have "x \<noteq> d" using hd_dropWhile[of "\<lambda>c. c = d" s] by simp
  then have "length (dropWhile (\<lambda>c. c \<noteq> d) (x # xs)) \<le> length xs" by (simp add: length_dropWhile_le)
  also have "\<dots> < length s" using a length_dropWhile_le[of "\<lambda>c. c = d" s] by simp
  finally show "((d, dropWhile (\<lambda>c. c \<noteq> d) (x # xs)), d, s) \<in> measure (\<lambda>(d, s). length s)" by simp
qed simp

declare tokens.simps [simp del]

lemma tok_scan_in:
  assumes "cstring s" and "i \<le> length s"
  shows "tok_scan s d i (Some a) = (Some a, i + length (takeWhile (\<lambda>c. c \<noteq> d) (drop i s)))"
  using assms(2)
proof (induction "length s - i" arbitrary: i)
  case 0
  then show ?case using cget_NUL[OF assms(1), of i] by (subst tok_scan.simps) simp
next
  case (Suc n)
  then have i: "i < length s" by simp
  then have c: "cget s i = s ! i" "cget s i \<noteq> NUL"
    using cget_NUL[OF assms(1), of i] by (simp_all add: cget_def)
  show ?case
    using Suc.hyps(1)[of "Suc i"] Suc.hyps(2) i c Cons_nth_drop_Suc[OF i, symmetric]
    by (subst tok_scan.simps) auto
qed

lemma tok_scan_out:
  assumes "cstring s" and "i \<le> length s"
  shows "tok_scan s d i None = (case dropWhile (\<lambda>c. c = d) (drop i s) of
      [] \<Rightarrow> (None, length s)
    | r \<Rightarrow> (Some (length s - length r), length s - length (dropWhile (\<lambda>c. c \<noteq> d) r)))"
  using assms(2)
proof (induction "length s - i" arbitrary: i)
  case 0
  then show ?case using cget_NUL[OF assms(1), of i] by (subst tok_scan.simps) simp
next
  case (Suc n)
  then have i: "i < length s" by simp
  then have c: "cget s i = s ! i" "cget s i \<noteq> NUL"
    using cget_NUL[OF assms(1), of i] by (simp_all add: cget_def)
  note d = Cons_nth_drop_Suc[OF i, symmetric]
  show ?case
  proof (cases "s ! i = d")
    case True
    then show ?thesis
      using Suc.hyps(1)[of "Suc i"] Suc.hyps(2) i c d by (subst tok_scan.simps) auto
  next
    case False
    have len: "length (takeWhile (\<lambda>c. c \<noteq> d) (drop (Suc i) s)) +
        length (dropWhile (\<lambda>c. c \<noteq> d) (drop (Suc i) s)) = length s - Suc i"
      by (metis length_append length_drop takeWhile_dropWhile_id)
    show ?thesis
      using False c d i len tok_scan_in[OF assms(1), of "Suc i" d i]
      by (subst tok_scan.simps) auto
  qed
qed

lemma substr_take:
  assumes "n \<le> length s"
  shows "substr s a n = take (n - a) (drop a s)"
  using assms by (intro nth_equalityI) (auto simp: substr_def cget_def)

lemma dropWhile_drop: "dropWhile P xs = drop (length xs - length (dropWhile P xs)) xs"
proof -
  have "length xs - length (dropWhile P xs) = length (takeWhile P xs)"
    by (metis add_diff_cancel_right' length_append takeWhile_dropWhile_id)
  then show ?thesis by (simp add: dropWhile_eq_drop)
qed

text \<open>
  \<open>mystrtok\<close> returns the words of the rest of the string one by one, and the position
  behind the word.
\<close>

lemma mystrtok_tokens:
  fixes st :: "'a vmm_scheme"
  assumes "cstring s" and "pos \<le> length s"
  shows "case tokens d (drop pos s) of
      [] \<Rightarrow> mystrtok s d pos st = Inr (None, pos, st)
    | t # ts \<Rightarrow> \<exists>pos' k. mystrtok s d pos st = Inr (Some t, pos', st\<lparr>kern_VA := kern_VA st + of_nat k\<rparr>) \<and>
        k \<le> length s + 5 \<and> pos < pos' \<and> pos' \<le> length s \<and> tokens d (drop pos' s) = ts"
proof (cases "dropWhile (\<lambda>c. c = d) (drop pos s)")
  case Nil
  have "tokens d (drop pos s) = []" by (subst tokens.simps) (simp only: Nil list.case)
  moreover have "tok_scan s d pos None = (None, length s)"
    using tok_scan_out[OF assms, of d] by (simp only: Nil list.case)
  ultimately show ?thesis by (simp add: mystrtok_def)
next
  case (Cons x xs)
  let ?r = "x # xs" and ?a = "length s - length (x # xs)"
  let ?e = "dropWhile (\<lambda>c. c \<noteq> d) ?r" and ?n = "length s - length (dropWhile (\<lambda>c. c \<noteq> d) (x # xs))"
  have lr: "length ?r \<le> length s - pos"
    using length_dropWhile_le[of "\<lambda>c. c = d" "drop pos s"] Cons by simp
  have r: "?r = drop ?a s"
  proof -
    have "?r = drop (length (drop pos s) - length ?r) (drop pos s)"
      using dropWhile_drop[of "\<lambda>c. c = d" "drop pos s"] by (simp only: Cons)
    moreover have "length (drop pos s) - length ?r + pos = ?a" using lr assms(2) by simp
    ultimately show ?thesis by (simp only: drop_drop)
  qed
  have xd: "x \<noteq> d" using hd_dropWhile[of "\<lambda>c. c = d" "drop pos s"] Cons by simp
  have le: "length ?e \<le> length ?r" "length ?e < length ?r"
    using xd length_dropWhile_le[of "\<lambda>c. c \<noteq> d" xs] by (simp_all add: le_imp_less_Suc)
  have e: "?e = drop ?n s"
  proof -
    have "?e = drop (length ?r - length ?e) ?r" by (rule dropWhile_drop)
    also have "\<dots> = drop (length ?r - length ?e) (drop ?a s)" using r by simp
    also have "\<dots> = drop ?n s" using le lr by (simp add: drop_drop)
    finally show ?thesis .
  qed
  have tok: "substr s ?a ?n = takeWhile (\<lambda>c. c \<noteq> d) ?r"
  proof -
    have "length (takeWhile (\<lambda>c. c \<noteq> d) ?r) + length ?e = length ?r"
      by (metis length_append takeWhile_dropWhile_id)
    then have n: "?n - ?a = length (takeWhile (\<lambda>c. c \<noteq> d) ?r)" using lr by linarith
    have "substr s ?a ?n = take (?n - ?a) (drop ?a s)" by (rule substr_take) simp
    also have "\<dots> = take (length (takeWhile (\<lambda>c. c \<noteq> d) ?r)) ?r" by (simp only: n r[symmetric])
    finally show ?thesis by (simp only: takeWhile_eq_take[symmetric])
  qed
  have "tokens d (drop pos s) = takeWhile (\<lambda>c. c \<noteq> d) ?r # tokens d ?e"
    using Cons by (simp add: tokens.simps[of d "drop pos s"])
  moreover have "mystrtok s d pos st = Inr (Some (takeWhile (\<lambda>c. c \<noteq> d) ?r), ?n,
      st\<lparr>kern_VA := kern_VA st + of_nat (?n - 1 - ?a + 5)\<rparr>)"
  proof -
    have "?a \<le> ?n - 1" using le lr by linarith
    then have "(of_nat (?n - 1 - ?a + 5) :: u64) = of_nat (?n - 1) - of_nat ?a + 5"
      by (simp only: of_nat_add of_nat_diff of_nat_numeral)
    moreover have "tok_scan s d pos None = (Some ?a, ?n)"
      using tok_scan_out[OF assms, of d] by (simp only: Cons list.case)
    ultimately show ?thesis
      by (simp only: mystrtok_def kmalloc_Inr prod.case option.case rbind_simps tok)
  qed
  moreover have "?n - 1 - ?a + 5 \<le> length s + 5" by linarith
  moreover have "pos < ?n" using le lr assms(2) by linarith
  ultimately show ?thesis using e by (simp only: list.case) (metis diff_le_self)
qed

lemma split_loop_tokens:
  fixes st :: "'a vmm_scheme"
  assumes "cstring s" and "pos \<le> length s"
  shows "\<exists>k. split_loop s pos vec st =
     Some (if length vec + length (tokens CHR '' '' (drop pos s)) < 20
           then Inr (vec @ tokens CHR '' '' (drop pos s), st\<lparr>kern_VA := k\<rparr>) else Inl OutOfBounds)"
  using assms(2)
proof (induction "tokens CHR '' '' (drop pos s)" arbitrary: pos vec st)
  case Nil
  have "mystrtok s CHR '' '' pos st = Inr (None, pos, st)"
    using mystrtok_tokens[OF assms(1) Nil.prems, of "CHR '' ''" st] Nil.hyps by (simp split: list.splits)
  then show ?case
    using Nil.hyps by (intro exI[of _ "kern_VA st"], subst split_loop.simps) simp
next
  case (Cons t ts)
  obtain pos' k where p: "mystrtok s CHR '' '' pos st = Inr (Some t, pos', st\<lparr>kern_VA := k\<rparr>)"
      "pos' \<le> length s" "tokens CHR '' '' (drop pos' s) = ts"
    using mystrtok_tokens[OF assms(1) Cons.prems, of "CHR '' ''" st] Cons.hyps(2)[symmetric]
    by auto
  obtain k' where "split_loop s pos' (vec @ [t]) (st\<lparr>kern_VA := k\<rparr>) =
     Some (if length (vec @ [t]) + length ts < 20
           then Inr ((vec @ [t]) @ ts, st\<lparr>kern_VA := k\<rparr>\<lparr>kern_VA := k'\<rparr>) else Inl OutOfBounds)"
    using Cons.hyps(1)[OF _ p(2), of "vec @ [t]" "st\<lparr>kern_VA := k\<rparr>"] p(3) by metis
  then show ?case
    using p(1) Cons.hyps(2)[symmetric] by (intro exI[of _ k'], subst split_loop.simps) auto
qed

end
