(* ===== verification/Vfs.thy ===== *)
theory Vfs
  imports Kstring "HOL-Library.Signed_Division"
begin

text \<open>
  The in-memory file system, \<open>sys/vfs.c\<close>, and the archive it is built from,
  \<open>sys/tarfs.c\<close>: inodes with up to ten relatives (the parent first), directory objects
  with their recycle list, path lookup, and the scan over the headers of the archive that
  is linked into the kernel.
\<close>

section \<open>State\<close>

datatype inodeType = DIR | FILE

text \<open>
  \<open>family\<close> holds the first \<open>familyCount\<close> entries of the C array: entry 0 is the parent, the
  others are the children.
\<close>

record inode =
  istart :: u64
  iend :: u64
  family :: "u64 list"
  itype :: inodeType
  inodeName :: string

record dir =
  dpath :: string
  currInode :: u64
  d_name :: string
  nextdir :: u64

record vfs = vmm +
  inodes :: "inode heap"
  root_inode :: u64
  dirs :: "dir heap"
  dir_recycle_list :: u64

abbreviation MAX_FAMILY :: nat where "MAX_FAMILY \<equiv> 10"
abbreviation NAME_MAX :: nat where "NAME_MAX \<equiv> 255"
abbreviation dir_link :: "u64 \<Rightarrow> dir \<Rightarrow> dir" where "dir_link p d \<equiv> d\<lparr>nextdir := p\<rparr>"

interpretation dl: list_node nextdir dir_link
  by unfold_locales simp

section \<open>Directory objects\<close>

text \<open>
  \<open>recycledirstruct\<close>. A null pointer is not refused: the link field behind address 0 is
  written, at offset 520, in a page that the page fault handler maps for it.
\<close>

definition recycledirstruct :: "u64 \<Rightarrow> 'a vfs_scheme \<Rightarrow> 'a vfs_scheme res" where
  "recycledirstruct p s =
     rbind (if p = 0 then kstore64 520 0 s
            else (case dirs s p of
                    None \<Rightarrow> Inl NullPointer
                  | Some d \<Rightarrow> Inr (s\<lparr>dirs := (dirs s)(p \<mapsto> dir_link 0 d)\<rparr>))) (\<lambda>s.
     rbind (link_last nextdir dir_link (dir_recycle_list s) p (dirs s))
       (\<lambda>(r, h). Inr (s\<lparr>dir_recycle_list := r, dirs := h\<rparr>)))"

definition getdir_from_recylebin :: "'a vfs_scheme \<Rightarrow> (u64 \<times> 'a vfs_scheme) res" where
  "getdir_from_recylebin s =
     (if dir_recycle_list s = 0 then Inr (0, s)
      else case dirs s (dir_recycle_list s) of
        None \<Rightarrow> Inl NullPointer
      | Some d \<Rightarrow> Inr (dir_recycle_list s, s\<lparr>dir_recycle_list := nextdir d\<rparr>))"

text \<open>\<open>sizeof(dir)\<close> is 528: two names of 256 bytes, an integer and a pointer.\<close>

definition getnewdir :: "'a vfs_scheme \<Rightarrow> (u64 \<times> 'a vfs_scheme) res" where
  "getnewdir s =
     rbind (getdir_from_recylebin s) (\<lambda>(new_dir, s).
     rbind (if new_dir = 0 then kmalloc 528 s else Inr (new_dir, s)) (\<lambda>(new_dir, s).
       Inr (new_dir,
            s\<lparr>dirs := (dirs s)(new_dir \<mapsto>
               \<lparr>dpath = [], currInode = -1, d_name = [], nextdir = 0\<rparr>)\<rparr>)))"

section \<open>Inodes\<close>

text \<open>\<open>findFamily\<close>: the index of the first child that \<open>strncmp\<close> accepts, or 0.\<close>

fun find_from :: "inode heap \<Rightarrow> string \<Rightarrow> nat \<Rightarrow> u64 list \<Rightarrow> nat \<Rightarrow> nat res" where
  "find_from h token tokenLength [] i = Inr 0"
| "find_from h token tokenLength (c # cs) i =
     (case h c of
        None \<Rightarrow> Inl NullPointer
      | Some n \<Rightarrow> if strncmp (inodeName n) token tokenLength = 0 then Inr i
                  else find_from h token tokenLength cs (Suc i))"

definition findFamily :: "u64 \<Rightarrow> string \<Rightarrow> nat \<Rightarrow> 'a vfs_scheme \<Rightarrow> nat res" where
  "findFamily node token tokenLength s =
     (case inodes s node of
        None \<Rightarrow> Inl NullPointer
      | Some n \<Rightarrow> find_from (inodes s) token tokenLength (tl (family n)) 1)"

text \<open>
  \<open>appendToFamily\<close>; the result \<open>None\<close> is -1. \<open>sizeof(inode)\<close> is 360, and the name field has
  room for 254 characters.
\<close>

definition appendToFamily ::
    "u64 \<Rightarrow> string \<Rightarrow> u64 \<Rightarrow> u64 \<Rightarrow> inodeType \<Rightarrow> 'a vfs_scheme \<Rightarrow> (nat option \<times> 'a vfs_scheme) res" where
  "appendToFamily parent token start_addr end_addr ty s =
     (case inodes s parent of
        None \<Rightarrow> Inl NullPointer
      | Some p \<Rightarrow>
          if length (family p) \<ge> MAX_FAMILY then Inr (None, s)
          else rbind (kmalloc 360 s) (\<lambda>(new_node, s).
            if strlen token \<ge> NAME_MAX then Inl OutOfBounds
            else
              Inr (Some (length (family p)),
                   s\<lparr>inodes := (inodes s)(new_node \<mapsto> \<lparr>istart = start_addr, iend = end_addr,
                          family = [parent], itype = ty, inodeName = take (strlen token) token\<rparr>,
                        parent \<mapsto> p\<lparr>family := family p @ [new_node]\<rparr>)\<rparr>)))"

text \<open>
  The loop of \<open>InsertIntoRoot\<close>. When the directory is full the code goes on with the next
  component in the same directory.
\<close>

partial_function (option) insert_loop ::
    "string \<Rightarrow> nat \<Rightarrow> u64 \<Rightarrow> u64 \<Rightarrow> u64 \<Rightarrow> inodeType \<Rightarrow> 'a vfs_scheme \<Rightarrow> 'a vfs_scheme res option" where
  "insert_loop pathname pos node start_addr end_addr ty s =
     (case mystrtok pathname CHR ''/'' pos s of
        Inl e \<Rightarrow> Some (Inl e)
      | Inr (None, pos, s) \<Rightarrow> Some (Inr s)
      | Inr (Some token, pos, s) \<Rightarrow>
          (case rbind (findFamily node token (strlen token) s) (\<lambda>m.
                  if m = 0 then appendToFamily node token start_addr end_addr ty s
                  else Inr (Some m, s)) of
             Inl e \<Rightarrow> Some (Inl e)
           | Inr (m, s) \<Rightarrow>
               (case (m, inodes s node) of
                  (Some i, Some n) \<Rightarrow>
                    insert_loop pathname pos
                      (if 0 < i \<and> i < MAX_FAMILY then family n ! i else node) start_addr end_addr ty s
                | _ \<Rightarrow> insert_loop pathname pos node start_addr end_addr ty s)))"

definition InsertIntoRoot :: "string \<Rightarrow> u64 \<Rightarrow> u64 \<Rightarrow> inodeType \<Rightarrow> 'a vfs_scheme \<Rightarrow> 'a vfs_scheme res" where
  "InsertIntoRoot pathname start_addr end_addr ty s =
     run_loop (insert_loop pathname 0 (root_inode s) start_addr end_addr ty s)"

partial_function (option) getinode_loop ::
    "string \<Rightarrow> nat \<Rightarrow> u64 \<Rightarrow> 'a vfs_scheme \<Rightarrow> (u64 \<times> 'a vfs_scheme) res option" where
  "getinode_loop pathname pos node s =
     (case mystrtok pathname CHR ''/'' pos s of
        Inl e \<Rightarrow> Some (Inl e)
      | Inr (None, pos, s) \<Rightarrow> Some (Inr (node, s))
      | Inr (Some token, pos, s) \<Rightarrow>
          (case findFamily node token (strlen token) s of
             Inl e \<Rightarrow> Some (Inl e)
           | Inr m \<Rightarrow>
               if m = 0 then Some (Inr (0, s))
               else (case inodes s node of
                  None \<Rightarrow> Some (Inl NullPointer)
                | Some n \<Rightarrow> getinode_loop pathname pos
                     (if 0 < m \<and> m < MAX_FAMILY then family n ! m else node) s)))"

definition GetInode :: "string \<Rightarrow> 'a vfs_scheme \<Rightarrow> (u64 \<times> 'a vfs_scheme) res" where
  "GetInode pathname s = run_loop (getinode_loop pathname 0 (root_inode s) s)"

section \<open>The archive\<close>

text \<open>
  The archive is the byte sequence between \<open>_binary_tarfs_start\<close> and \<open>_binary_tarfs_end\<close>. A
  header is 512 bytes: \<open>name\<close> at offset 0, \<open>size\<close> at 124, \<open>typeflag\<close> at 156.
\<close>

type_synonym archive = string

definition cstr_at :: "archive \<Rightarrow> nat \<Rightarrow> string" where
  "cstr_at tar off = takeWhile (\<lambda>c. c \<noteq> NUL) (drop off tar)"

definition hdr_name :: "archive \<Rightarrow> nat \<Rightarrow> string" where
  "hdr_name tar header = cstr_at tar header"
definition hdr_size :: "archive \<Rightarrow> nat \<Rightarrow> string" where
  "hdr_size tar header = cstr_at tar (header + 124)"
definition hdr_typeflag :: "archive \<Rightarrow> nat \<Rightarrow> char" where
  "hdr_typeflag tar header = cget tar (header + 156)"

fun strcmp2_loop :: "string \<Rightarrow> string \<Rightarrow> int" where
  "strcmp2_loop [] [] = 0"
| "strcmp2_loop [] (c # cs) = -1"
| "strcmp2_loop (c # cs) [] = 1"
| "strcmp2_loop (a # as) (b # bs) =
     (if a = b then strcmp2_loop as bs
      else if schar a < schar b then -1 else 1)"

definition strcmp2 :: "string \<Rightarrow> string \<Rightarrow> int" where
  "strcmp2 str1 str2 = strcmp2_loop str1 str2"

function power :: "int \<Rightarrow> nat \<Rightarrow> int" where
  "power x y =
     (if y = 0 then 1
      else if y mod 2 = 0 then power x (y div 2) * power x (y div 2)
      else x * power x (y div 2) * power x (y div 2))"
  by pat_completeness auto
termination by (relation "measure snd") auto

declare power.simps [simp del]

text \<open>
  The first loop of \<open>oct_to_dec\<close> reads the digits as a decimal number, in a variable of type \<open>int\<close>; with ten
  significant digits or more the arithmetic of the machine wraps around.
\<close>

fun read_digits :: "string \<Rightarrow> int \<Rightarrow> int" where
  "read_digits [] oct = oct"
| "read_digits (c # cs) oct =
     (if c = CHR ''0'' \<and> oct = 0 then read_digits cs oct
      else read_digits cs (to_int32 (of_int (10 * oct + (schar c - schar CHR ''0'')))))"

text \<open>The second loop weighs its decimal digits with powers of eight.\<close>

function weigh :: "int \<Rightarrow> nat \<Rightarrow> int \<Rightarrow> int" where
  "weigh oct i dec =
     (if oct = 0 then dec else weigh (oct sdiv 10) (Suc i) (dec + (oct smod 10) * power 8 i))"
  by pat_completeness auto
termination
proof (relation "measure (\<lambda>(oct, _, _). nat \<bar>oct\<bar>)")
  fix oct dec :: int and i :: nat
  assume "oct \<noteq> 0"
  then have "\<bar>oct sdiv 10\<bar> = \<bar>oct\<bar> div 10" "\<bar>oct\<bar> div 10 < \<bar>oct\<bar>"
    by (simp_all add: signed_divide_int_def abs_mult abs_sgn_eq int_div_less_self)
  then have "nat \<bar>oct sdiv 10\<bar> < nat \<bar>oct\<bar>" by simp
  then show "((oct sdiv 10, Suc i, dec + (oct smod 10) * power 8 i), oct, i, dec)
      \<in> measure (\<lambda>(oct, _, _). nat \<bar>oct\<bar>)" by simp
qed simp

declare weigh.simps [simp del]

definition oct_to_dec :: "string \<Rightarrow> int" where
  "oct_to_dec num = weigh (read_digits num 0) 0 0"

text \<open>
  The step to the next header: the file data is padded to whole blocks. Pointers into the
  archive are offsets from its start; the number of blocks is converted to \<open>int\<close>.
\<close>

definition next_header :: "int \<Rightarrow> u64 \<Rightarrow> int" where
  "next_header header sz =
     (if sz mod 512 = 0 then header + 512 * (1 + to_int32 (sz div 512))
      else header + 512 * (2 + to_int32 (sz div 512)))"

text \<open>
  The loop of \<open>init_tarfs\<close>; \<open>base\<close> is the address of the archive. A size field that leads
  before the start of the archive stops the model.
\<close>

partial_function (option) init_loop ::
    "archive \<Rightarrow> u64 \<Rightarrow> int \<Rightarrow> 'a vfs_scheme \<Rightarrow> 'a vfs_scheme res option" where
  "init_loop tar base header s =
     (if header < 0 then Some (Inl OutOfBounds)
      else if nat header < length tar then
        (let h = nat header;
             sz = of_int (oct_to_dec (hdr_size tar h)) :: u64;
             dataStart = base + of_nat (h + 512);
             datEnd = dataStart + sz
         in case (if strlen (hdr_name tar h) > 0 \<and> cget (hdr_size tar h) 0 \<noteq> NUL then
                    (if hdr_typeflag tar h = CHR ''0''
                     then InsertIntoRoot (hdr_name tar h) dataStart datEnd FILE s
                     else if hdr_typeflag tar h = CHR ''5''
                     then InsertIntoRoot (hdr_name tar h) dataStart datEnd DIR s
                     else Inr s)
                  else Inr s) of
              Inl e \<Rightarrow> Some (Inl e)
            | Inr s \<Rightarrow> init_loop tar base (next_header header sz) s)
      else Some (Inr s))"

text \<open>
  The code does not set the type of the root; \<open>garbage\<close> is what the memory holds.
\<close>

definition init_tarfs :: "archive \<Rightarrow> u64 \<Rightarrow> inodeType \<Rightarrow> 'a vfs_scheme \<Rightarrow> 'a vfs_scheme res" where
  "init_tarfs tar base garbage s =
     rbind (kmalloc 360 s) (\<lambda>(root, s).
       run_loop (init_loop tar base 0
         (s\<lparr>root_inode := root,
            inodes := (inodes s)(root \<mapsto> \<lparr>istart = 0, iend = 1, family = [root], itype = garbage,
                                           inodeName = ''/''\<rparr>)\<rparr>)))"

end
