(* ===== verification/Paging_Spec.thy ===== *)
theory Paging_Spec
  imports Paging
begin

text \<open>
  The properties of the paging operations, and two concrete address spaces on which they
  are instantiated: one whose top table holds only the self reference, and one in which
  the page at virtual address \<open>0x400000\<close> is mapped.
\<close>

section \<open>Concrete address spaces\<close>

definition mem_root :: "u64 \<Rightarrow> u8" where
  "mem_root = store64 (\<lambda>_. 0) (0x100000 + 8 * 0x1FE) 0x100003"

definition machine_on :: "(u64 \<Rightarrow> u8) \<Rightarrow> machine" where
  "machine_on m = \<lparr>totalblockcount = 20, p_list = (\<lambda>i. \<lparr>nxt = i + 1, ref_count = (if i = 30 then 1 else 0)\<rparr>),
     head_freelist = 1, lastfreeblock = 21, currblock = 22, FREEMEMORY = 0x200000,
     pmem = m, cr3 = 0x100000\<rparr>"

lemma machine_on_simps [simp]:
  "pmem (machine_on m) = m" "cr3 (machine_on m) = 0x100000" "totalblockcount (machine_on m) = 20"
  "FREEMEMORY (machine_on m) = 0x200000" "frame_of 0x100000 = 0x100000"
  by (simp_all add: machine_on_def frame_of_def)

lemma free_blocks_machine_on:
  "free_blocks (machine_on m) = [1, 2, 3, 4, 5, 6, 7, 8, 9, 10, 11, 12, 13, 14, 15, 16, 17, 18, 19, 20, 21]"
  by (simp add: free_blocks_def machine_on_def numeral_eq_Suc)

lemma pmm_inv_machine_on: "pmm_inv (machine_on m)"
  unfolding pmm_inv_def free_blocks_machine_on by (simp add: freemem_ok_def)

lemma pool_machine_on:
  "pool (machine_on m) = [0x201000, 0x202000, 0x203000, 0x204000, 0x205000, 0x206000, 0x207000,
     0x208000, 0x209000, 0x20A000, 0x20B000, 0x20C000, 0x20D000, 0x20E000, 0x20F000, 0x210000,
     0x211000, 0x212000, 0x213000, 0x214000, 0x215000]"
  by (simp add: pool_def free_blocks_machine_on page_addr_def)

lemma load64_0: "load64 (\<lambda>_. 0) a = 0"
  by (rule load64_zero) simp

lemma pte_mem_root:
  assumes "unat j < 512"
  shows "pte mem_root 0x100000 j = (if j = 0x1FE then 0x100003 else 0)"
proof -
  have "pte mem_root 0x100000 j = (if 0x100000 = (0x100000 :: u64) \<and> j = 0x1FE then 0x100003
      else pte (\<lambda>_. 0) 0x100000 j)"
    unfolding mem_root_def
    by (rule pte_store64) (use assms in \<open>simp_all add: page_aligned_def\<close>)
  then show ?thesis by (simp add: pte_def load64_0)
qed

lemma path_mem_root: "idx_ok q \<Longrightarrow> path mem_root 0x100000 q = (if q = [] then Some 0x100000 else None)"
  by (cases q) (auto simp: idx_ok_def pte_mem_root)

lemma pt_tree_mem_root:
  assumes "0x100000 \<notin> F"
  shows "pt_tree mem_root 0x100000 F"
  unfolding pt_tree_def
proof (intro conjI allI impI)
  show "pte mem_root T i = 0 \<or> bit (pte mem_root T i) 0"
    if a: "idx_ok (q @ [i]) \<and> length q \<le> 2 \<and> path mem_root 0x100000 q = Some T" for q i T
  proof -
    have "T = 0x100000" "unat i < 512"
      using a path_mem_root[OF idx_ok_append[of q "[i]"]] idx_ok_bound[of q i "[]"]
      by (auto split: if_splits)
    then show ?thesis by (simp add: pte_mem_root)
  qed
qed (use assms in \<open>auto simp: path_mem_root pte_mem_root page_aligned_def frame_of_def split: if_splits\<close>)

lemma pt_inv_root: "pt_inv (machine_on mem_root)"
  unfolding pt_inv_def
  by (intro conjI pmm_inv_machine_on, simp, rule pt_tree_mem_root) (simp add: pool_machine_on)

text \<open>The page tables \<open>0x101000\<close>, \<open>0x102000\<close>, \<open>0x103000\<close> and the page \<open>0x21E000\<close>.\<close>

definition mem1 :: "u64 \<Rightarrow> u8" where
  "mem1 = table_entered mem_root 0x100000 0 0x101007 0x101000 4096"
definition mem2 :: "u64 \<Rightarrow> u8" where
  "mem2 = table_entered mem1 0x101000 0 0x102007 0x102000 4096"
definition mem3 :: "u64 \<Rightarrow> u8" where
  "mem3 = table_entered mem2 0x102000 2 0x103007 0x103000 4096"
definition mem_leaf :: "u64 \<Rightarrow> u64 \<Rightarrow> u8" where
  "mem_leaf e = store64 mem3 (0x103000 + 8 * 0) e"
definition mem_user :: "u64 \<Rightarrow> u8" where
  "mem_user = mem_leaf 0x21E007"

lemma idx_small [simp]: "idx_ok [0]" "idx_ok [0, 0]" "idx_ok [0, 0, 2]" "idx_ok [0, 0, 2, 0]"
  by (simp_all add: idx_ok_def)

lemma grow_tree:
  assumes "pt_tree m R (- A)" and "path m R P = Some T" and "idx_ok (P @ [i])" and "length P \<le> 2"
    and "N \<notin> A" and "page_aligned N" and "frame_of e = N" and "bit e 0" and "pte m T i = 0"
  shows "pt_tree (table_entered m T i e N 4096) R (- insert N A)"
    and "idx_ok q \<Longrightarrow> length q \<le> 4 \<Longrightarrow>
      path (table_entered m T i e N 4096) R q = (if q = P @ [i] then Some N else path m R q)"
    and "unat j < 512 \<Longrightarrow> pte (table_entered m T i e N 4096) N j = 0"
proof -
  have "N \<in> - A" "- insert N A \<subseteq> - A - {N}" using assms(5) by auto
  note tr = table_entered_tree[OF assms(1-4) this(1) assms(6-9) this(2)]
  show "pt_tree (table_entered m T i e N 4096) R (- insert N A)" by (rule tr(1))
  show "idx_ok q \<Longrightarrow> length q \<le> 4 \<Longrightarrow>
      path (table_entered m T i e N 4096) R q = (if q = P @ [i] then Some N else path m R q)"
    by (rule tr(3))
  show "unat j < 512 \<Longrightarrow> pte (table_entered m T i e N 4096) N j = 0"
    unfolding table_entered_def by (rule pte_zero_same[OF assms(6)]) auto
qed

lemma frames [simp]: "frame_of 0x101007 = 0x101000" "frame_of 0x102007 = 0x102000"
  "frame_of 0x103007 = 0x103000" "page_aligned 0x101000" "page_aligned 0x102000" "page_aligned 0x103000"
  by (simp_all add: frame_of_def page_aligned_def)

lemma mem_root_0: "pte mem_root 0x100000 0 = 0" "path mem_root 0x100000 [] = Some 0x100000"
  by (simp_all add: pte_mem_root)

lemmas mem1_tree = grow_tree[OF pt_tree_mem_root[of "- {0x100000}"] mem_root_0(2) _ _ _ _ _ _ mem_root_0(1),
    of "0x101000" "0x101007", folded mem1_def, simplified]

lemma mem1_0: "path mem1 0x100000 [0] = Some 0x101000" "pte mem1 0x101000 0 = 0"
  using mem1_tree(2)[of "[0]"] by (simp_all del: path.simps add: mem1_tree(3))

lemmas mem2_tree = grow_tree[OF mem1_tree(1) mem1_0(1) _ _ _ _ _ _ mem1_0(2),
    of "0x102000" "0x102007", folded mem2_def, simplified]

lemma mem2_0: "path mem2 0x100000 [0, 0] = Some 0x102000" "pte mem2 0x102000 2 = 0"
  using mem2_tree(2)[of "[0, 0]"] by (simp_all del: path.simps add: mem2_tree(3))

lemmas mem3_tree = grow_tree[OF mem2_tree(1) mem2_0(1) _ _ _ _ _ _ mem2_0(2),
    of "0x103000" "0x103007", folded mem3_def, simplified]

lemma mem3_0: "path mem3 0x100000 [0, 0, 2] = Some 0x103000"
  using mem3_tree(2)[of "[0, 0, 2]"] by (simp del: path.simps)

lemma indices_400000: "p1_index 0x400000 = 0" "p2_index 0x400000 = 0" "p3_index 0x400000 = 2"
    "p4_index 0x400000 = 0" "mmu_indices 0x400000 = [0, 0, 2, 0]"
  by (simp_all add: mmu_indices_eq p1_index_def p2_index_def p3_index_def p4_index_def)

lemma leaf_entered:
  assumes "bit e 0" and "frame_of e = 0x21E000"
  shows "pt_inv (machine_on (mem_leaf e))"
    and "walk_to (machine_on (mem_leaf e)) [0, 0, 2] = Some 0x103000"
    and "pte (mem_leaf e) 0x103000 0 = e"
    and "tables (machine_on (mem_leaf e)) \<subseteq> {0x100000, 0x101000, 0x102000, 0x103000}"
    and "idx_ok q \<Longrightarrow> length q = 4 \<Longrightarrow> walk_to (machine_on (mem_leaf e)) q =
      (if q = mmu_indices 0x400000 then Some 0x21E000 else None)"
proof -
  have t3: "pt_tree (pmem (machine_on mem3)) (root (machine_on mem3))
      (- {0x103000, 0x102000, 0x101000, 0x100000})"
    using mem3_tree(1) by simp
  have p3: "walk_to (machine_on mem3) [p1_index 0x400000, p2_index 0x400000, p3_index 0x400000]
      = Some 0x103000" using mem3_0 by (simp add: indices_400000 del: path.simps)
  have m: "pmem (machine_on (mem_leaf e)) = store64 (pmem (machine_on mem3))
      (0x103000 + 8 * p4_index 0x400000) e"
    by (simp add: mem_leaf_def indices_400000)
  have c: "cr3 (machine_on (mem_leaf e)) = cr3 (machine_on mem3)" by simp
  have f: "bit e 0 \<longrightarrow> frame_of e \<notin> set (pool (machine_on (mem_leaf e)))"
    "set (pool (machine_on (mem_leaf e))) \<subseteq> - {0x103000, 0x102000, 0x101000, 0x100000}"
    using assms(2) by (simp_all add: pool_machine_on)
  have n: "p1_index 0x400000 \<noteq> 0x1FE" by (simp add: indices_400000)
  note st = leaf_store[OF t3 n p3 m c f(2,1)]
  show "pt_inv (machine_on (mem_leaf e))" using st(1) pmm_inv_machine_on by (simp add: pt_inv_def)
  show "walk_to (machine_on (mem_leaf e)) [0, 0, 2] = Some 0x103000"
    using st(4) by (simp add: indices_400000 del: path.simps)
  show "pte (mem_leaf e) 0x103000 0 = e" using st(5) by (simp add: indices_400000)
  have "ptables mem3 0x100000 \<subseteq> {0x100000, 0x101000, 0x102000, 0x103000}"
    by (auto simp: ptables_def mem3_tree mem2_tree mem1_tree path_mem_root split: if_splits)
  then show "tables (machine_on (mem_leaf e)) \<subseteq> {0x100000, 0x101000, 0x102000, 0x103000}"
    using st(2) by simp
  show "walk_to (machine_on (mem_leaf e)) q = (if q = mmu_indices 0x400000 then Some 0x21E000 else None)"
    if "idx_ok q" "length q = 4"
  proof (cases "q = mmu_indices 0x400000")
    case True
    then show ?thesis using st(3) assms by simp
  next
    case False
    have "path mem3 0x100000 q = None"
      using that by (auto simp: mem3_tree mem2_tree mem1_tree path_mem_root)
    then show ?thesis using st(7)[OF that False] False by simp
  qed
qed

lemma user_tree:
  shows "pt_inv (machine_on mem_user)"
    and "walk_to (machine_on mem_user) [0, 0, 2] = Some 0x103000"
    and "pte mem_user 0x103000 0 = 0x21E007"
    and "tables (machine_on mem_user) \<subseteq> {0x100000, 0x101000, 0x102000, 0x103000}"
    and "idx_ok q \<Longrightarrow> length q = 4 \<Longrightarrow> walk_to (machine_on mem_user) q =
      (if q = mmu_indices 0x400000 then Some 0x21E000 else None)"
  unfolding mem_user_def by (rule leaf_entered; simp add: frame_of_def)+

section \<open>Properties\<close>

text \<open>C1. Demand mapping: for a page-aligned address whose page is not mapped,
  \<open>map_phyaddr\<close> succeeds when eight blocks are counted (three may become tables), returns
  a page that was free and now is not, and afterwards the processor translates the address
  to that page. The allocator and page table invariants hold again, every other page of
  the address space keeps its translation and its bytes, and the first 519 bytes of the
  new page read as zero.\<close>

theorem map_phyaddr_maps:
  fixes s :: "'a machine_scheme"
  assumes "pt_inv s" and "8 \<le> totalblockcount s" and "p1_index vadd \<noteq> 0x1FE"
    and "page_aligned vadd" and "translate s vadd = None"
  shows "\<exists>N s'. map_phyaddr vadd s = Inr (N, s') \<and> N \<in> set (pool s) \<and> N \<notin> set (pool s') \<and>
     pt_inv s' \<and> translate s' vadd = Some N \<and> same_elsewhere vadd s s' \<and>
     (\<forall>d < 519. vload8 (vadd + of_nat d) s' = Inr 0)"
  by (rule map_phyaddr_absent[OF assms]) blast

theorem map_phyaddr_maps_witness:
  "\<exists>N s'. map_phyaddr 0x400000 (machine_on mem_root) = Inr (N, s') \<and>
     N \<in> set (pool (machine_on mem_root)) \<and> N \<notin> set (pool s') \<and>
     pt_inv s' \<and> translate s' 0x400000 = Some N \<and>
     same_elsewhere 0x400000 (machine_on mem_root) s' \<and>
     (\<forall>d < 519. vload8 (0x400000 + of_nat d) s' = Inr 0)"
proof (rule map_phyaddr_maps[OF pt_inv_root])
  show "translate (machine_on mem_root) 0x400000 = None"
    by (simp add: translate_def indices_400000 pte_mem_root)
qed (simp_all add: indices_400000 page_aligned_def)

lemma map_phyaddr_present:
  fixes s :: "'a machine_scheme"
  assumes "pt_inv s" and "7 \<le> totalblockcount s" and "p1_index vadd \<noteq> 0x1FE"
    and "page_aligned vadd" and "translate s vadd = Some D" and "D \<notin> tables s"
  obtains e s1 where "map_phyaddr vadd s = Inr (e, s1\<lparr>pmem := zero_bytes (pmem s1) D 519\<rparr>)"
    and "frame_of e = D" and "extends s s1" and "pt_inv (s1\<lparr>pmem := zero_bytes (pmem s1) D 519\<rparr>)"
    and "\<forall>q. idx_ok q \<and> length q = 4 \<longrightarrow>
       walk_to (s1\<lparr>pmem := zero_bytes (pmem s1) D 519\<rparr>) q = walk_to s q"
    and "D \<notin> tables s1" and "page_aligned D"
proof -
  obtain w T s1 where d: "descend vadd s = Inr (Some w, s1)" "pt_inv s1" "extends s s1"
      "walk_to s1 [p1_index vadd, p2_index vadd, p3_index vadd] = Some T" "page_aligned w"
      "mmu_indices w = replicate 1 0x1FE @ [p1_index vadd, p2_index vadd, p3_index vadd]"
    by (rule descend_ok[OF assms(1-3)])
  have D: "walk_to s (mmu_indices vadd) = Some D"
    using assms(5) translate_aligned[OF assms(4), of s] by simp
  note ef = extends_fresh[OF assms(1) d(3) idx_ok_indices[OF assms(3)] _ D assms(6), simplified]
  let ?e = "pte (pmem s1) T (p4_index vadd)"
  have e: "bit ?e 0" "frame_of ?e = D"
    using ef(2) leaf_entry[OF d(4)] by (simp_all split: if_splits)
  have t1: "pt_tree (pmem s1) (root s1) (set (pool s1))" and p1: "pmm_inv s1"
    using d(2) by (simp_all add: pt_inv_def)
  have ld: "vload64 (w + 8 * p4_index vadd) s1 = Inr ?e"
    by (rule window_entry(1)[OF t1 d(5,6) _ d(4)]) simp
  note cl = clear_page_mapped[OF t1 assms(3,4) ef(2,1)]
  show thesis
  proof (rule that[OF _ e(2) d(3)])
    show "map_phyaddr vadd s = Inr (?e, s1\<lparr>pmem := zero_bytes (pmem s1) D 519\<rparr>)"
      using d(1) ld e(1) cl(1) by (simp add: map_phyaddr_def and_1_bit)
    show "pt_inv (s1\<lparr>pmem := zero_bytes (pmem s1) D 519\<rparr>)" using cl(2) p1 by (simp add: pt_inv_def)
    show "\<forall>q. idx_ok q \<and> length q = 4 \<longrightarrow>
        walk_to (s1\<lparr>pmem := zero_bytes (pmem s1) D 519\<rparr>) q = walk_to s q"
      using cl(4) extends_walk[OF d(3)] by simp
  qed (use ef in simp_all)
qed

text \<open>\<open>map_phyaddr\<close> on a page that is mapped already: the mapping stays, every
  translation stays, the invariant holds, but the loop that should clear a new page still
  runs: it zeroes the first 519 bytes of the page and leaves the other bytes.\<close>

theorem map_phyaddr_clears_mapped:
  fixes s :: "'a machine_scheme"
  assumes "pt_inv s" and "7 \<le> totalblockcount s" and "p1_index vadd \<noteq> 0x1FE"
    and "page_aligned vadd" and "translate s vadd = Some D" and "D \<notin> tables s"
  shows "\<exists>e s'. map_phyaddr vadd s = Inr (e, s') \<and> frame_of e = D \<and> pt_inv s' \<and>
     (\<forall>va. p1_index va \<noteq> 0x1FE \<longrightarrow> translate s' va = translate s va) \<and>
     (\<forall>d < 4096. vload8 (vadd + of_nat d) s' = (if d < 519 then Inr 0 else vload8 (vadd + of_nat d) s))"
proof -
  obtain e s1 where e: "map_phyaddr vadd s = Inr (e, s1\<lparr>pmem := zero_bytes (pmem s1) D 519\<rparr>)"
    and "frame_of e = D" and x: "extends s s1"
    and "pt_inv (s1\<lparr>pmem := zero_bytes (pmem s1) D 519\<rparr>)"
    and w: "\<forall>q. idx_ok q \<and> length q = 4 \<longrightarrow>
       walk_to (s1\<lparr>pmem := zero_bytes (pmem s1) D 519\<rparr>) q = walk_to s q"
    and D: "D \<notin> tables s1" "page_aligned D"
    by (rule map_phyaddr_present[OF assms])
  let ?s' = "s1\<lparr>pmem := zero_bytes (pmem s1) D 519\<rparr>"
  have tr: "\<forall>va. p1_index va \<noteq> 0x1FE \<longrightarrow> translate ?s' va = translate s va"
    using w idx_ok_indices unfolding translate_def by simp
  have Dw: "walk_to s (mmu_indices vadd) = Some D"
    using assms(5) translate_aligned[OF assms(4), of s] by simp
  have "vload8 (vadd + of_nat d) ?s' = (if d < 519 then Inr 0 else vload8 (vadd + of_nat d) s)"
    if d: "d < 4096" for d
  proof -
    have "translate s (vadd + of_nat d) = Some (D + of_nat d)"
      using translate_page[OF assms(4) d, of s] Dw by simp
    moreover have "translate ?s' (vadd + of_nat d) = Some (D + of_nat d)"
      using translate_page[OF assms(4) d, of ?s'] Dw w idx_ok_indices[OF assms(3)] by simp
    moreover have "pmem s1 (D + of_nat d) = pmem s (D + of_nat d)"
      using x D d by (simp add: extends_def)
    ultimately show ?thesis
      using d zero_bytes_in[of d 519] zero_bytes_out[of 519 d] by (simp add: vload8_def)
  qed
  then show ?thesis using e tr \<open>frame_of e = D\<close> \<open>pt_inv ?s'\<close> by blast
qed

lemma user_page:
  "translate (machine_on mem_user) 0x400000 = Some 0x21E000"
  "0x21E000 \<notin> tables (machine_on mem_user)"
  "get_phys_addr 0x400000 (machine_on mem_user) = Inr 0x21E007"
  "page_addr (machine_on mem_user) 30 = 0x21E000"
  "ref_count (p_list (machine_on mem_user) 30) = 1"
proof -
  show "translate (machine_on mem_user) 0x400000 = Some 0x21E000"
    using user_tree(5)[of "mmu_indices 0x400000"] by (simp add: translate_def indices_400000 del: path.simps)
  show "0x21E000 \<notin> tables (machine_on mem_user)" using user_tree(4) by auto
  show "get_phys_addr 0x400000 (machine_on mem_user) = Inr 0x21E007"
    using get_phys_addr_eq[OF user_tree(1), of "0x400000"] user_tree(2,3)
    by (simp add: indices_400000 del: path.simps)
qed (simp_all add: page_addr_def machine_on_def)

theorem map_phyaddr_clears_mapped_witness:
  "\<exists>e s'. map_phyaddr 0x400000 (machine_on mem_user) = Inr (e, s') \<and> frame_of e = 0x21E000 \<and> pt_inv s' \<and>
     (\<forall>va. p1_index va \<noteq> 0x1FE \<longrightarrow> translate s' va = translate (machine_on mem_user) va) \<and>
     (\<forall>d < 4096. vload8 (0x400000 + of_nat d) s' =
        (if d < 519 then Inr 0 else vload8 (0x400000 + of_nat d) (machine_on mem_user)))"
  by (rule map_phyaddr_clears_mapped[OF user_tree(1) _ _ _ user_page(1,2)])
    (simp_all add: indices_400000 page_aligned_def)

text \<open>C33. The kernel's software walk agrees with the processor: through the recursive
  window \<open>get_phys_addr\<close> returns the last-level entry of an address (0 where a table is
  missing), and the processor translates the address exactly when that entry is present,
  to the frame in it.\<close>

theorem get_phys_addr_mmu:
  assumes "pt_inv s" and "p1_index a \<noteq> 0x1FE"
  shows "\<exists>e. get_phys_addr a s = Inr e \<and>
     translate s a = (if bit e 0 then Some (frame_of e + take_bit 12 a) else None)"
proof (cases "walk_to s [p1_index a, p2_index a, p3_index a]")
  case None
  then have "walk_to s (mmu_indices a) = None" unfolding indices_split by (rule path_None_prefix)
  then show ?thesis using get_phys_addr_eq[OF assms] None by (simp add: translate_def)
next
  case (Some T)
  then show ?thesis using get_phys_addr_eq[OF assms] leaf_entry[OF Some] by (simp add: translate_def)
qed

theorem get_phys_addr_mmu_witness:
  "\<exists>e. get_phys_addr 0x400123 (machine_on mem_user) = Inr e \<and>
     translate (machine_on mem_user) 0x400123 =
       (if bit e 0 then Some (frame_of e + take_bit 12 0x400123) else None)"
  by (rule get_phys_addr_mmu[OF user_tree(1)]) (simp add: p1_index_def)

text \<open>\<open>set_Cow\<close> enters a page read-only: the address translates to the page, its
  entry carries the flags that \<open>check_cow\<close> recognises, the invariants hold and every other
  page keeps its translation and bytes.\<close>

theorem set_Cow_spec:
  fixes s :: "'a machine_scheme"
  assumes "pt_inv s" and "7 \<le> totalblockcount s" and "p1_index vadd \<noteq> 0x1FE"
    and "frame_of padd \<notin> set (pool s)"
  shows "\<exists>s'. set_Cow vadd padd s = Inr (padd, s') \<and> pt_inv s' \<and>
     translate s' vadd = Some (frame_of padd + take_bit 12 vadd) \<and>
     check_cow vadd s' = Inr True \<and> same_elsewhere vadd s s'"
proof -
  obtain s' where "set_Cow vadd padd s = Inr (padd, s')" "pt_inv s'"
      "walk_to s' (mmu_indices vadd) = Some (frame_of padd)"
      "check_cow vadd s' = Inr True" "same_elsewhere vadd s s'"
    by (rule set_Cow_maps[OF assms])
  then show ?thesis by (auto simp: translate_def)
qed

theorem set_Cow_spec_witness:
  "\<exists>s'. set_Cow 0x400000 0x300007 (machine_on mem_root) = Inr (0x300007, s') \<and> pt_inv s' \<and>
     translate s' 0x400000 = Some (frame_of 0x300007 + take_bit 12 0x400000) \<and>
     check_cow 0x400000 s' = Inr True \<and> same_elsewhere 0x400000 (machine_on mem_root) s'"
  by (rule set_Cow_spec[OF pt_inv_root])
    (simp_all add: indices_400000 pool_machine_on frame_of_def)

text \<open>C17. \<open>unmap_phyaddr\<close> on a mapped managed page: the mapping goes and the reference
  count drops by one. If it was the last reference (and the page is mapped nowhere else and
  is not a page table), the page goes back to the free pool; if the page is shared, the pool
  does not change. The invariants hold and other pages keep translation and bytes. On an
  address that is not mapped nothing happens.\<close>

theorem unmap_phyaddr_spec:
  fixes s :: "'a machine_scheme"
  assumes "pt_inv s" and "p1_index vadd \<noteq> 0x1FE" and "page_aligned vadd"
    and "get_phys_addr vadd s = Inr e"
    and "bit e 0 \<longrightarrow> b \<in> {1..<50000} \<and> e AND 0xFFFFFFFFFFFFF000 = page_addr s b \<and>
      1 \<le> ref_count (p_list s b) \<and>
      (ref_count (p_list s b) = 1 \<longrightarrow> page_addr s b \<notin> tables s \<and>
         (\<forall>q. idx_ok q \<and> length q = 4 \<and> walk_to s q = Some (page_addr s b) \<longrightarrow> q = mmu_indices vadd))"
  shows "if bit e 0 then \<exists>s'. unmap_phyaddr vadd s = Inr s' \<and> pt_inv s' \<and> translate s' vadd = None \<and>
       pool s' = (if ref_count (p_list s b) = 1 then page_addr s b # pool s else pool s) \<and>
       ref_count (p_list s' b) = ref_count (p_list s b) - 1 \<and> same_elsewhere vadd s s'
     else unmap_phyaddr vadd s = Inr s"
proof -
  let ?P = "[p1_index vadd, p2_index vadd, p3_index vadd]"
  obtain w where w: "page_aligned w" "mmu_indices w = replicate 1 0x1FE @ ?P"
    and u: "unmap_phyaddr vadd s = (case walk_to s ?P of None \<Rightarrow> Inr s
      | Some T \<Rightarrow> if \<not> bit (pte (pmem s) T (p4_index vadd)) 0 then Inr s
          else release_leaf vadd w (pte (pmem s) T (p4_index vadd)) s)"
    using unmap_phyaddr_eq[OF assms(1,2)] by blast
  note g = get_phys_addr_eq[OF assms(1,2), unfolded assms(4)]
  show ?thesis
  proof (cases "bit e 0")
    case False
    then show ?thesis using u g by (cases "walk_to s ?P") auto
  next
    case True
    then obtain T where T: "walk_to s ?P = Some T" and e: "pte (pmem s) T (p4_index vadd) = e"
      using g by (cases "walk_to s ?P") auto
    have run: "unmap_phyaddr vadd s = release_leaf vadd w e s" using u T e True by simp
    have b: "b \<in> {1..<50000}" "e AND 0xFFFFFFFFFFFFF000 = page_addr s b" "1 \<le> ref_count (p_list s b)"
      using assms(5) True by blast+
    have tr: "translate s' vadd = None \<longleftrightarrow> walk_to s' (mmu_indices vadd) = None"
      for s' :: "'a machine_scheme" by (simp add: translate_def)
    show ?thesis
    proof (cases "ref_count (p_list s b) = 1")
      case one: True
      have last: "page_addr s b \<notin> tables s"
        "\<And>q. idx_ok q \<Longrightarrow> length q = 4 \<Longrightarrow> walk_to s q = Some (page_addr s b) \<Longrightarrow> q = mmu_indices vadd"
        using assms(5) True one by blast+
      show ?thesis
        by (rule release_leaf_last[OF assms(1,2) b(1) T e b(2) one w True assms(3) last])
          (use True one run tr in auto)
    next
      case False
      then have "1 < ref_count (p_list s b)" using b(3) by simp
      then show ?thesis
        by (rule release_leaf_shared[OF assms(1,2) b(1) T e b(2) _ w]) (use True False run tr in auto)
    qed
  qed
qed

theorem unmap_phyaddr_spec_witness:
  "\<exists>s'. unmap_phyaddr 0x400000 (machine_on mem_user) = Inr s' \<and> pt_inv s' \<and>
     translate s' 0x400000 = None \<and> pool s' = 0x21E000 # pool (machine_on mem_user) \<and>
     ref_count (p_list s' 30) = 0"
proof -
  have q: "q = mmu_indices 0x400000"
    if "idx_ok q \<and> length q = 4 \<and> walk_to (machine_on mem_user) q = Some 0x21E000" for q
    using that user_tree(5)[of q] by (simp split: if_splits)
  show ?thesis
    using unmap_phyaddr_spec[OF user_tree(1) _ _ user_page(3), of 30] user_page(2,4,5) q
    by (simp add: indices_400000 page_aligned_def) metis
qed



end
