(* ===== verification/Virt_Mem_Spec.thy ===== *)
theory Virt_Mem_Spec
  imports Virt_Mem Paging_Spec
begin

text \<open>
  The properties of the virtual memory layer: the list of memory areas against operations
  on plain lists of intervals, the kernel heap, and the pages a range is made of.
\<close>

section \<open>Ranges of pages\<close>

lemma unmap_loop_pages:
  fixes s :: "'a machine_scheme"
  assumes "n < 2 ^ 19" and "k \<le> n"
  shows "unmap_loop (int (4096 * k)) (of_nat (4096 * n)) s =
    Some (rfold (\<lambda>i. unmap_phyaddr (of_nat (4096 * i))) [k..<n] s)"
  using assms(2)
proof (induction "n - k" arbitrary: k s)
  case 0
  then have "k = n" by simp
  then show ?case by (subst unmap_loop.simps) simp
next
  case (Suc d)
  then have k: "k < n" by simp
  have less: "(of_int (int (4096 * k)) :: u64) < of_nat (4096 * n)"
  proof -
    have "4096 * n < 2 ^ 64" "4096 * k < 2 ^ 64" using assms(1) k by simp_all
    then show ?thesis
      using k by (simp only: word_less_nat_alt of_int_of_nat_eq unat_of_nat_small len64)
  qed
  have step: "int (4096 * k) + 4096 = int (4096 * Suc k)" by simp
  have small: "int (4096 * Suc k) < 2 ^ 31" using assms(1) k by simp
  have IH: "unmap_loop (int (4096 * Suc k)) (of_nat (4096 * n)) t =
      Some (rfold (\<lambda>i. unmap_phyaddr (of_nat (4096 * i))) [Suc k..<n] t)" for t :: "'a machine_scheme"
    by (rule Suc.hyps(1)) (use Suc.hyps(2) k in simp_all)
  have "[k..<n] = k # [Suc k..<n]" by (rule upt_conv_Cons[OF k])
  then show ?case
    using less IH small by (subst unmap_loop.simps, unfold step)
      (auto simp: rbind_def simp del: of_nat_mult mult_Suc_right split: sum.splits)
qed

lemma round_up: "(b + 4095) div 4096 = b div 4096 + 1" if "b mod 4096 \<noteq> 0" for b :: nat
proof -
  define q r where "q = b div 4096" and "r = b mod 4096"
  have b: "b = q * 4096 + r" and r: "r < 4096" "1 \<le> r" using that by (simp_all add: q_def r_def)
  have "(b + 4095) div 4096 = q + 1" by (rule div_nat_eqI) (use b r in simp_all)
  then show ?thesis by (simp add: q_def)
qed

lemma page_down: "push_bit 12 (drop_bit 12 a) = (of_nat (4096 * (unat a div 4096)) :: u64)"
proof -
  have "unat (push_bit 12 (drop_bit 12 a)) = 4096 * (unat a div 4096)"
  proof -
    have "unat a < 2 ^ 64" using unsigned_less[of a] by simp
    then have "unat a div 4096 < 2 ^ 52" by simp
    then show ?thesis
      by (simp add: push_bit_eq_mult unat_word_ariths unat_drop12)
  qed
  then show ?thesis by (rule word_eq_of_nat)
qed

lemma page_up:
  assumes "unat a < 2 ^ 63"
  shows "push_bit 12 (drop_bit 12 a + 1) = (of_nat (4096 * (unat a div 4096 + 1)) :: u64)"
proof -
  have "unat a div 4096 < 2 ^ 51" using assms by simp
  then have "unat (push_bit 12 (drop_bit 12 a + 1)) = 4096 * (unat a div 4096 + 1)"
    by (simp add: push_bit_eq_mult unat_word_ariths unat_drop12)
  then show ?thesis by (rule word_eq_of_nat)
qed

text \<open>Below 2 GB, \<open>unmap_phyaddr_range\<close> unmaps exactly the pages that the interval
  touches, in ascending order: the start is rounded down and the end is rounded up to a
  page boundary.\<close>

theorem unmap_phyaddr_range_pages:
  assumes "unat a \<le> unat b" and "unat b \<le> 2 ^ 31 - 4096"
  shows "unmap_phyaddr_range a b s = Some (rfold (\<lambda>i. unmap_phyaddr (of_nat (4096 * i)))
     [unat a div 4096..<(unat b + 4095) div 4096] s)"
proof -
  let ?k = "unat a div 4096" and ?n = "(unat b + 4095) div 4096"
  have m: "x mod PAGE_SIZE \<noteq> 0 \<longleftrightarrow> unat x mod 4096 \<noteq> 0" for x
    by (simp add: word_unat_eq_iff unat_mod)
  have e: "(if b mod PAGE_SIZE \<noteq> 0 then push_bit 12 (drop_bit 12 b + 1) else b) = of_nat (4096 * ?n)"
  proof (cases "unat b mod 4096 = 0")
    case True
    then have "unat b = 4096 * ?n" by auto
    then show ?thesis using True m[of b] word_eq_of_nat[of b] by simp
  next
    case False
    have "?n = unat b div 4096 + 1"
      by (rule round_up) (use False in simp)
    then show ?thesis using False m[of b] page_up[of b] assms(2) by simp
  qed
  have st: "(if a mod PAGE_SIZE \<noteq> 0 then push_bit 12 (drop_bit 12 a) else a) = of_nat (4096 * ?k)"
  proof (cases "unat a mod 4096 = 0")
    case True
    then have "unat a = 4096 * ?k" by auto
    then show ?thesis using True m[of a] word_eq_of_nat[of a] by simp
  next
    case False
    then show ?thesis using m[of a] page_down[of a] by simp
  qed
  have k: "4096 * ?k < 2 ^ 31" using assms by simp
  have "to_int32 (of_nat (4096 * ?k)) = int (4096 * ?k)" by (rule to_int32_of_nat[OF k])
  moreover have "?n < 2 ^ 19" "?k \<le> ?n" using assms by simp_all
  ultimately show ?thesis
    using unmap_loop_pages[of ?n ?k s] e st by (simp add: unmap_phyaddr_range_def Let_def)
qed

theorem unmap_phyaddr_range_pages_witness:
  "unat (0x401000 :: u64) \<le> unat (0x402010 :: u64) \<and> unat (0x402010 :: u64) \<le> 2 ^ 31 - 4096 \<and>
   unmap_phyaddr_range 0x401000 0x402010 (machine_on mem_root) =
     Some (rfold (\<lambda>i. unmap_phyaddr (of_nat (4096 * i))) [1025, 1026] (machine_on mem_root))"
  using unmap_phyaddr_range_pages[of "0x401000" "0x402010" "machine_on mem_root"]
  by (simp add: upt_rec)

lemma bit_nat: "bit (w :: u64) n \<longleftrightarrow> odd (unat w div 2 ^ n)"
proof -
  have "bit w n \<longleftrightarrow> bit (unat w) n" by (simp add: bit_unsigned_iff)
  then show ?thesis by (simp only: bit_iff_odd)
qed

lemma sign_extended_large:
  assumes "2 ^ 31 \<le> unat w" and "unat w < 2 ^ 32"
  shows "2 ^ 63 \<le> unat (of_int (to_int32 w) :: u64)"
proof -
  let ?x = "of_int (to_int32 w) :: u64"
  have "unat w div 2 ^ 31 = 1" by (rule div_nat_eqI) (use assms in simp_all)
  then have "bit w 31" by (simp add: bit_nat)
  moreover have "?x = signed_take_bit 31 w"
    unfolding to_int32_def by (rule bit_word_eqI) (simp add: bit_simps min_def)
  ultimately have "bit ?x 63" by (simp add: bit_simps)
  then have "unat ?x div 2 ^ 63 \<noteq> 0" unfolding bit_nat by (metis even_zero)
  then show ?thesis by (metis div_less not_le)
qed

text \<open>C35. At 2 GB the \<open>int\<close> counter of the loop is negative: as an unsigned address it
  is above the end of every range in the lower half of the address space, so no page of a
  range that starts there is unmapped.\<close>

theorem unmap_phyaddr_range_above_2GB:
  assumes "0x80000000 \<le> unat a" and "unat a < 2 ^ 32" and "unat b < 2 ^ 62"
  shows "unmap_phyaddr_range a b s = Some (Inr s)"
proof -
  define e where "e = (if b mod PAGE_SIZE \<noteq> 0 then push_bit 12 (drop_bit 12 b + 1) else b)"
  define d where "d = (if a mod PAGE_SIZE \<noteq> 0 then push_bit 12 (drop_bit 12 a) else a)"
  have n: "4096 * (unat b div 4096 + 1) < 2 ^ 63" using assms(3) by simp
  then have "unat (of_nat (4096 * (unat b div 4096 + 1)) :: u64) = 4096 * (unat b div 4096 + 1)"
    by (intro unat_of_nat_small) simp
  then have e: "unat e < 2 ^ 63"
    using assms(3) page_up[of b] n by (cases "b mod PAGE_SIZE = 0") (simp_all add: e_def)
  have d: "unat d = 4096 * (unat a div 4096) \<or> d = a"
  proof -
    have "4096 * (unat a div 4096) < 2 ^ 64" using assms(2) by simp
    then show ?thesis using page_down[of a] by (auto simp: d_def unat_of_nat_small simp del: of_nat_mult)
  qed
  have "2 ^ 31 \<le> unat d" "unat d < 2 ^ 32" using d assms(1,2) by auto
  then have "2 ^ 63 \<le> unat (of_int (to_int32 d) :: u64)" by (rule sign_extended_large)
  then have "\<not> (of_int (to_int32 d) :: u64) < e" using e by (simp add: word_less_nat_alt)
  then show ?thesis
    unfolding unmap_phyaddr_range_def Let_def d_def[symmetric] e_def[symmetric]
    by (subst unmap_loop.simps) simp
qed

theorem unmap_phyaddr_range_above_2GB_witness:
  "unmap_phyaddr_range 0x80000000 0x80005000 (machine_on mem_user) = Some (Inr (machine_on mem_user))"
  by (rule unmap_phyaddr_range_above_2GB) simp_all


section \<open>The kernel heap\<close>

text \<open>Successive allocations, and the addresses of their blocks.\<close>

fun kmallocs :: "u64 list \<Rightarrow> 'a vmm_scheme \<Rightarrow> (u64 list \<times> 'a vmm_scheme) res" where
  "kmallocs [] s = Inr ([], s)"
| "kmallocs (n # ns) s = rbind (kmalloc n s) (\<lambda>(p, s). rbind (kmallocs ns s) (\<lambda>(ps, s). Inr (p # ps, s)))"

lemma kmallocs_Inr:
  "kmallocs ns s = Inr (map (\<lambda>i. kern_VA s + sum_list (take i ns) + 1) [0..<length ns],
     s\<lparr>kern_VA := kern_VA s + sum_list ns\<rparr>)"
proof (induction ns arbitrary: s)
  case (Cons n ns)
  have "[0..<Suc (length ns)] = 0 # map Suc [0..<length ns]" by (simp add: map_Suc_upt upt_conv_Cons del: upt_Suc)
  then show ?case by (simp add: kmalloc_Inr Cons.IH ac_simps)
qed simp

lemma unat_sum_list: "unat (k + sum_list ns) = (unat k + sum_list (map unat ns)) mod 2 ^ 64" for k :: u64
proof (induction ns arbitrary: k)
  case (Cons n ns)
  have "unat (k + sum_list (n # ns)) = unat ((k + n) + sum_list ns)" by (simp add: ac_simps)
  also have "\<dots> = ((unat k + unat n) mod 2 ^ 64 + sum_list (map unat ns)) mod 2 ^ 64"
    unfolding Cons.IH by (simp add: unat_word_ariths)
  finally show ?case by (simp only: mod_add_left_eq list.map sum_list.Cons add.assoc)
next
  case Nil
  have "unat k < 2 ^ 64" using unsigned_less[of k] by simp
  then show ?case by simp
qed

text \<open>The offset of a block from the heap pointer at the start.\<close>

abbreviation offset :: "u64 list \<Rightarrow> nat \<Rightarrow> nat" where
  "offset ns i \<equiv> sum_list (map unat (take i ns))"

lemma offset_Suc: "i < length ns \<Longrightarrow> offset ns (Suc i) = offset ns i + unat (ns ! i)"
  by (simp add: take_Suc_conv_app_nth)

lemma offset_mono: "i \<le> j \<Longrightarrow> offset ns i \<le> offset ns j"
  by (metis le_add1 map_append min.absorb1 sum_list_append take_add take_take le_Suc_ex)

lemma offset_all: "i \<le> length ns \<Longrightarrow> offset ns i \<le> sum_list (map unat ns)"
  using offset_mono[of i "length ns" ns] by simp

text \<open>C34. The check of \<open>kmalloc\<close> against the top of the address space never fires: any number of allocations of any
  sizes succeeds in every state, and changes nothing but the heap pointer, which advances by the sum of the sizes
  modulo the size of the address space. As long as this sum stays below the top, the blocks lie above the old heap
  pointer, one behind the other without overlap. When it does not, one of the blocks is the null pointer or runs over
  the end of the address space, and the allocation is reported as a success all the same.\<close>

theorem kmalloc_blocks_disjoint:
  fixes s :: "'a vmm_scheme"
  shows "\<exists>ps k. kmallocs ns s = Inr (ps, s\<lparr>kern_VA := k\<rparr>) \<and> length ps = length ns \<and>
    unat k = (unat (kern_VA s) + sum_list (map unat ns)) mod 2 ^ 64 \<and>
    (unat (kern_VA s) + sum_list (map unat ns) + 1 < 2 ^ 64 \<longrightarrow>
      (\<forall>i < length ns. unat (kern_VA s) < unat (ps ! i) \<and> unat (ps ! i) + unat (ns ! i) \<le> unat k + 1 \<and>
        (\<forall>j < i. unat (ps ! j) + unat (ns ! j) \<le> unat (ps ! i)))) \<and>
    (2 ^ 64 \<le> unat (kern_VA s) + sum_list (map unat ns) \<longrightarrow>
      (\<exists>i < length ns. ps ! i = 0 \<or> 2 ^ 64 < unat (ps ! i) + unat (ns ! i)))"
proof -
  let ?K = "unat (kern_VA s)" and ?n = "length ns" and ?S = "sum_list (map unat ns)"
  let ?p = "\<lambda>i. kern_VA s + sum_list (take i ns) + 1"
  have p: "unat (?p i) = ?K + offset ns i + 1" if "?K + offset ns i + 1 < 2 ^ 64" for i
    using unat_sum_list[of "kern_VA s" "take i ns"] that by (simp add: unat_word_ariths)
  have apart: "?K < unat (?p i) \<and> unat (?p i) + unat (ns ! i) \<le> ?K + ?S + 1 \<and>
      (\<forall>j < i. unat (?p j) + unat (ns ! j) \<le> unat (?p i))" if S: "?K + ?S + 1 < 2 ^ 64" and i: "i < ?n" for i
  proof -
    have pi: "unat (?p j) = ?K + offset ns j + 1" if "j \<le> i" for j
      using offset_all[of j ns] that i S by (intro p) simp
    have "unat (?p j) + unat (ns ! j) \<le> unat (?p i)" if "j < i" for j
      using pi[of i] pi[of j] offset_Suc[of j ns] offset_mono[of "Suc j" i ns] that i by simp
    moreover have "unat (?p i) + unat (ns ! i) \<le> ?K + ?S + 1"
      using pi[of i] offset_Suc[OF i] offset_all[of "Suc i" ns] i by simp
    ultimately show ?thesis using pi[of i] by simp
  qed
  have over: "\<exists>i < ?n. ?p i = 0 \<or> 2 ^ 64 < unat (?p i) + unat (ns ! i)" if S: "2 ^ 64 \<le> ?K + ?S"
  proof -
    define m where "m = (LEAST i. 2 ^ 64 \<le> ?K + offset ns i)"
    have top: "2 ^ 64 \<le> ?K + offset ns ?n" using S by simp
    have m: "2 ^ 64 \<le> ?K + offset ns m" "m \<le> ?n"
      using LeastI[of "\<lambda>i. 2 ^ 64 \<le> ?K + offset ns i", OF top] Least_le[of "\<lambda>i. 2 ^ 64 \<le> ?K + offset ns i", OF top]
      by (simp_all add: m_def)
    have "?K < 2 ^ 64" using unsigned_less[of "kern_VA s"] by simp
    then obtain i where i: "m = Suc i" using m(1) by (cases m) simp_all
    have "\<not> 2 ^ 64 \<le> ?K + offset ns i"
      using not_less_Least[of i "\<lambda>i. 2 ^ 64 \<le> ?K + offset ns i"] i by (simp add: m_def)
    moreover have "offset ns m = offset ns i + unat (ns ! i)" using offset_Suc[of i ns] m(2) i by simp
    moreover have "?p i = 0" if "?K + offset ns i + 1 = 2 ^ 64"
    proof -
      have "unat (kern_VA s + sum_list (take i ns)) = 2 ^ 64 - 1"
        using unat_sum_list[of "kern_VA s" "take i ns"] that by simp
      then have "unat (?p i) = 0" by (simp add: unat_word_ariths)
      then show ?thesis by (simp only: unsigned_eq_0_iff)
    qed
    ultimately show ?thesis using p[of i] m i by (intro exI[of _ i]) linarith
  qed
  let ?ps = "map ?p [0..<?n]" and ?k = "kern_VA s + sum_list ns"
  have nth: "?ps ! i = ?p i" if "i < ?n" for i using that by simp
  have below: "\<forall>i < ?n. ?K < unat (?ps ! i) \<and> unat (?ps ! i) + unat (ns ! i) \<le> unat ?k + 1 \<and>
      (\<forall>j < i. unat (?ps ! j) + unat (ns ! j) \<le> unat (?ps ! i))" if S: "?K + ?S + 1 < 2 ^ 64"
  proof -
    have "unat ?k = ?K + ?S" using unat_sum_list[of "kern_VA s" ns] S by simp
    then show ?thesis using apart[OF S] nth by fastforce
  qed
  have above: "\<exists>i < ?n. ?ps ! i = 0 \<or> 2 ^ 64 < unat (?ps ! i) + unat (ns ! i)" if S: "2 ^ 64 \<le> ?K + ?S"
    using over[OF S] nth by (elim exE conjE) metis
  show ?thesis
    by (intro exI[of _ ?ps] exI[of _ ?k] conjI impI)
      (rule kmallocs_Inr, simp, rule unat_sum_list, erule below, erule above)
qed

text \<open>A process with two areas, and one recycled node.\<close>

definition vm_small :: vmm where
  "vm_small = machine.extend (machine_on mem_root)
     \<lparr>kern_VA = 0x1000, vmas = [0x11 \<mapsto> \<lparr>vstart = 0x400000, vend = 0x401000, nextvma = 0x22\<rparr>,
        0x22 \<mapsto> \<lparr>vstart = 0x500000, vend = 0x600000, nextvma = 0\<rparr>,
        0x33 \<mapsto> \<lparr>vstart = 0, vend = 0, nextvma = 0\<rparr>], vma_recycle_list = 0x33\<rparr>"

lemma vm_small_simps [simp]:
  "kern_VA vm_small = 0x1000" "vma_recycle_list vm_small = 0x33"
  "vmas vm_small = [0x11 \<mapsto> \<lparr>vstart = 0x400000, vend = 0x401000, nextvma = 0x22\<rparr>,
        0x22 \<mapsto> \<lparr>vstart = 0x500000, vend = 0x600000, nextvma = 0\<rparr>,
        0x33 \<mapsto> \<lparr>vstart = 0, vend = 0, nextvma = 0\<rparr>]"
  by (simp_all add: vm_small_def machine.defs)

lemma vma_inv_small: "vma_inv \<lparr>vma_list = 0x11\<rparr> [0x11, 0x22] [0x33] vm_small"
  by (simp add: vma_inv_def)

text \<open>Two blocks below the top, and a block that runs over it.\<close>

theorem kmalloc_blocks_disjoint_witness:
  "(\<exists>ps k. kmallocs [24, 100] vm_small = Inr (ps, vm_small\<lparr>kern_VA := k\<rparr>) \<and>
      (\<forall>i < 2. 0x1000 < unat (ps ! i) \<and> unat (ps ! i) + unat ([24, 100 :: u64] ! i) \<le> unat k + 1 \<and>
        (\<forall>j < i. unat (ps ! j) + unat ([24, 100 :: u64] ! j) \<le> unat (ps ! i)))) \<and>
   (\<exists>p k. kmallocs [0xFFFFFFFFFFFFF000] vm_small = Inr ([p], vm_small\<lparr>kern_VA := k\<rparr>) \<and>
      (p = 0 \<or> 2 ^ 64 < unat p + unat (0xFFFFFFFFFFFFF000 :: u64)))"
proof
  obtain ps k where a: "kmallocs [24, 100] vm_small = Inr (ps, vm_small\<lparr>kern_VA := k\<rparr>)"
    and b: "unat (kern_VA vm_small) + sum_list (map unat [24, 100 :: u64]) + 1 < 2 ^ 64 \<longrightarrow>
      (\<forall>i < length [24, 100 :: u64]. unat (kern_VA vm_small) < unat (ps ! i) \<and>
        unat (ps ! i) + unat ([24, 100 :: u64] ! i) \<le> unat k + 1 \<and>
        (\<forall>j < i. unat (ps ! j) + unat ([24, 100 :: u64] ! j) \<le> unat (ps ! i)))"
    using kmalloc_blocks_disjoint[of "[24, 100]" vm_small] by (elim exE conjE)
  have "unat (kern_VA vm_small) + sum_list (map unat [24, 100 :: u64]) + 1 < 2 ^ 64" "length [24, 100 :: u64] = 2"
      "unat (kern_VA vm_small) = 0x1000"
    by simp_all
  then show "\<exists>ps k. kmallocs [24, 100] vm_small = Inr (ps, vm_small\<lparr>kern_VA := k\<rparr>) \<and>
      (\<forall>i < 2. 0x1000 < unat (ps ! i) \<and> unat (ps ! i) + unat ([24, 100 :: u64] ! i) \<le> unat k + 1 \<and>
        (\<forall>j < i. unat (ps ! j) + unat ([24, 100 :: u64] ! j) \<le> unat (ps ! i)))"
    using a b by metis
next
  obtain ps k where a: "kmallocs [0xFFFFFFFFFFFFF000] vm_small = Inr (ps, vm_small\<lparr>kern_VA := k\<rparr>)" "length ps = length [0xFFFFFFFFFFFFF000 :: u64]"
    and b: "2 ^ 64 \<le> unat (kern_VA vm_small) + sum_list (map unat [0xFFFFFFFFFFFFF000 :: u64]) \<longrightarrow>
      (\<exists>i < length [0xFFFFFFFFFFFFF000 :: u64]. ps ! i = 0 \<or> 2 ^ 64 < unat (ps ! i) + unat ([0xFFFFFFFFFFFFF000 :: u64] ! i))"
    using kmalloc_blocks_disjoint[of "[0xFFFFFFFFFFFFF000]" vm_small] by (elim exE conjE)
  obtain p where p: "ps = [p]" using a(2) by (auto simp: length_Suc_conv)
  have "2 ^ 64 \<le> unat (kern_VA vm_small) + sum_list (map unat [0xFFFFFFFFFFFFF000 :: u64])" by simp
  then have "p = 0 \<or> 2 ^ 64 < unat p + unat (0xFFFFFFFFFFFFF000 :: u64)" using b p by simp
  then show "\<exists>p k. kmallocs [0xFFFFFFFFFFFFF000] vm_small = Inr ([p], vm_small\<lparr>kern_VA := k\<rparr>) \<and>
      (p = 0 \<or> 2 ^ 64 < unat p + unat (0xFFFFFFFFFFFFF000 :: u64))"
    using a(1) p by blast
qed

section \<open>Memory areas\<close>

text \<open>The abstract operation: the first interval that covers a range is removed.\<close>

fun remove_area :: "u64 \<Rightarrow> u64 \<Rightarrow> (u64 \<times> u64) list \<Rightarrow> (u64 \<times> u64) list" where
  "remove_area a b [] = []"
| "remove_area a b (r # rs) = (if fst r \<le> a \<and> b \<le> snd r then rs else r # remove_area a b rs)"

lemma remove_area_split:
  "\<forall>r \<in> set us. \<not> (fst r \<le> a \<and> b \<le> snd r) \<Longrightarrow> remove_area a b (us @ vs) = us @ remove_area a b vs"
  by (induction us) auto

lemma covers_area: "h x = Some v \<Longrightarrow> covers v a b \<longleftrightarrow> fst (area h x) \<le> a \<and> b \<le> snd (area h x)"
  by (simp add: covers_def area_def)

lemma none_covers:
  assumes "chain nextvma h p xs" and "set us \<subseteq> set xs" and "\<forall>z \<in> set us. \<not> covers (the (h z)) a b"
  shows "\<forall>r \<in> set (areas h us). \<not> (fst r \<le> a \<and> b \<le> snd r)"
proof -
  have "\<not> (fst (area h z) \<le> a \<and> b \<le> snd (area h z))" if z: "z \<in> set us" for z
  proof -
    obtain w where "h z = Some w" using chain_in_heap[OF assms(1)] assms(2) z by blast
    then show ?thesis using assms(3) z covers_area[of h z w a b] by auto
  qed
  then show ?thesis by (auto simp: areas_def)
qed

text \<open>Growing an address space: \<open>alloc_vma\<close> followed by \<open>append_to_vma_list\<close>
  appends the new interval to the areas of the process, reusing the oldest recycled node
  when there is one; the list structure stays well formed.\<close>

theorem alloc_append_area:
  fixes s :: "'a vmm_scheme"
  assumes "vma_inv mm xs ys s" and "unat (kern_VA s) + 24 < 2 ^ 64"
  shows "\<exists>p s1 mm' s2. alloc_vma a b s = Inr (p, s1) \<and> append_to_vma_list mm p s1 = Inr (mm', s2) \<and>
     vma_inv mm' (xs @ [p]) (tl ys) s2 \<and>
     areas (vmas s2) (xs @ [p]) = areas (vmas s) xs @ [(a, b)] \<and> (ys \<noteq> [] \<longrightarrow> p = hd ys)"
proof -
  obtain p s1 where p: "alloc_vma a b s = Inr (p, s1)" "p \<noteq> 0" "p \<notin> set xs" "p \<notin> set (tl ys)"
      "vmas s1 = (vmas s)(p \<mapsto> \<lparr>vstart = a, vend = b, nextvma = 0\<rparr>)" "vma_inv mm xs (tl ys) s1"
      "ys \<noteq> [] \<longrightarrow> p = hd ys"
    by (rule alloc_vma_ok[OF assms])
  obtain mm' h where m: "append_to_vma_list mm p s1 = Inr (mm', s1\<lparr>vmas := h\<rparr>)"
      "vma_inv mm' (xs @ [p]) (tl ys) (s1\<lparr>vmas := h\<rparr>)" "area h = area (vmas s1)"
    by (rule append_ok[OF p(6,2), of "\<lparr>vstart = a, vend = b, nextvma = 0\<rparr>"]) (use p(3,4,5) in simp_all)
  have "areas h (xs @ [p]) = areas (vmas s) xs @ [(a, b)]"
    using m(3) p(3,5) by (auto simp: areas_def area_def)
  then show ?thesis
    using p(1,7) m(1,2)
    by (intro exI[of _ p] exI[of _ s1] exI[of _ mm'] exI[of _ "s1\<lparr>vmas := h\<rparr>"]) simp
qed

theorem alloc_append_area_witness:
  "\<exists>p s1 mm' s2. alloc_vma 0x700000 0x701000 vm_small = Inr (p, s1) \<and>
     append_to_vma_list \<lparr>vma_list = 0x11\<rparr> p s1 = Inr (mm', s2) \<and>
     vma_inv mm' ([0x11, 0x22] @ [p]) (tl [0x33 :: u64]) s2 \<and>
     areas (vmas s2) ([0x11, 0x22] @ [p]) = areas (vmas vm_small) [0x11, 0x22] @ [(0x700000, 0x701000)] \<and>
     ([0x33 :: u64] \<noteq> [] \<longrightarrow> p = hd [0x33])"
  by (rule alloc_append_area[OF vma_inv_small]) simp

lemma remove_area_ok:
  fixes s :: "'a vmm_scheme"
  assumes "vma_inv mm xs ys s"
    and "\<forall>x \<in> set xs. covers (the (vmas s x)) a b \<longrightarrow>
       can_unmap (vstart (the (vmas s x))) (vend (the (vmas s x))) s"
  shows "\<exists>r mm' s' xs' ys'. remove_from_vma_list mm a b s = Inr (r, mm', s') \<and>
     vma_inv mm' xs' ys' s' \<and> areas (vmas s') xs' = remove_area a b (areas (vmas s) xs) \<and>
     (r \<longleftrightarrow> (\<exists>x \<in> set xs. covers (the (vmas s x)) a b)) \<and>
     length ys' = length ys + (if r then 1 else 0) \<and> (\<not> r \<longrightarrow> s' = s)"
proof (cases "\<exists>x \<in> set xs. covers (the (vmas s x)) a b")
  case True
  then obtain us c vs where split: "xs = us @ c # vs" "covers (the (vmas s c)) a b"
      "\<forall>z \<in> set us. \<not> covers (the (vmas s z)) a b"
    using split_list_first_prop[of xs "\<lambda>x. covers (the (vmas s x)) a b"] by auto
  have ch: "chain nextvma (vmas s) (vma_list mm) xs" using assms(1) by (simp add: vma_inv_def)
  obtain v where v: "vmas s c = Some v" using chain_in_heap[OF ch, of c] split(1) by auto
  have un: "can_unmap (vstart v) (vend v) s" and cv: "covers v a b"
    using assms(2) split(1,2) v by auto
  have "\<exists>mm' s'. remove_from_vma_list mm a b s = Inr (True, mm', s') \<and>
      vma_inv mm' (us @ vs) (ys @ [c]) s' \<and> area (vmas s') = area (vmas s)"
  proof (cases "us = []")
    case True
    then show ?thesis using remove_head_ok[OF _ v cv un, of mm vs ys] assms(1) split(1) by simp
  next
    case False
    then show ?thesis using remove_inner_ok[OF _ False v cv split(3) un, of mm vs ys] assms(1) split(1) by simp
  qed
  then obtain mm' s' where r: "remove_from_vma_list mm a b s = Inr (True, mm', s')"
      "vma_inv mm' (us @ vs) (ys @ [c]) s'" "area (vmas s') = area (vmas s)" by blast
  have "\<forall>p \<in> set (areas (vmas s) us). \<not> (fst p \<le> a \<and> b \<le> snd p)"
    by (rule none_covers[OF ch _ split(3)]) (use split(1) in auto)
  then have "areas (vmas s') (us @ vs) = remove_area a b (areas (vmas s) xs)"
    using covers_area[of "vmas s" c v a b] v cv split(1) r(3) by (simp add: areas_def remove_area_split)
  then show ?thesis using r(1,2) True
    by (intro exI[of _ True] exI[of _ mm'] exI[of _ s'] exI[of _ "us @ vs"] exI[of _ "ys @ [c]"]) simp
next
  case False
  have ch: "chain nextvma (vmas s) (vma_list mm) xs" using assms(1) by (simp add: vma_inv_def)
  have "remove_from_vma_list mm a b s = Inr (False, mm, s)"
  proof (cases xs)
    case Nil
    then show ?thesis using ch by (simp add: remove_from_vma_list_def)
  next
    case (Cons x zs)
    then obtain v where "vma_list mm = x" "x \<noteq> 0" "vmas s x = Some v" "\<not> covers v a b"
      using ch False by (auto split: option.splits)
    then show ?thesis
      using remove_loop_none[OF ch, of a b x] False by (simp add: remove_from_vma_list_def)
  qed
  moreover have "areas (vmas s) xs = remove_area a b (areas (vmas s) xs)"
    using none_covers[OF ch subset_refl, of a b] False remove_area_split[of "areas (vmas s) xs" a b "[]"]
    by simp
  ultimately show ?thesis using assms(1) False
    by (intro exI[of _ False] exI[of _ mm] exI[of _ s] exI[of _ xs] exI[of _ ys]) simp
qed

text \<open>C12. \<open>remove_from_vma_list\<close> removes the first area that covers the given range, keeps
  the order of the others, and gives the node to the recycle list; it reports whether there
  was such an area and changes nothing otherwise. It returns whenever the pages of the area
  can be unmapped.\<close>

theorem remove_from_vma_list_spec:
  fixes s :: "'a vmm_scheme"
  assumes "vma_inv mm xs ys s"
    and "\<forall>x \<in> set xs. covers (the (vmas s x)) a b \<longrightarrow>
       can_unmap (vstart (the (vmas s x))) (vend (the (vmas s x))) s"
  shows "\<exists>r mm' s' xs' ys'. remove_from_vma_list mm a b s = Inr (r, mm', s') \<and>
     vma_inv mm' xs' ys' s' \<and> areas (vmas s') xs' = remove_area a b (areas (vmas s) xs) \<and>
     (r \<longleftrightarrow> (\<exists>x \<in> set xs. covers (the (vmas s x)) a b)) \<and>
     length ys' = length ys + (if r then 1 else 0) \<and> (\<not> r \<longrightarrow> s' = s)"
  by (rule remove_area_ok[OF assms])

lemma unmap_unmapped:
  fixes s :: "'a machine_scheme"
  assumes "pt_inv s" and "p1_index a \<noteq> 0x1FE" and "walk_to s [p1_index a, p2_index a, p3_index a] = None"
  shows "unmap_phyaddr a s = Inr s"
  using unmap_phyaddr_eq[OF assms(1,2)] assms(3) by auto

lemma pt_inv_extension:
  fixes s :: "'a machine_scheme"
  assumes "machine.truncate s = machine_on m" and "pt_inv (machine_on m)"
  shows "pt_inv s" and "pmem s = m" and "cr3 s = 0x100000" and "totalblockcount s = 20"
    and "FREEMEMORY s = 0x200000"
proof -
  have f: "totalblockcount s = 20" "p_list s = p_list (machine_on m)" "FREEMEMORY s = 0x200000"
      "head_freelist s = head_freelist (machine_on m)" "pmem s = m" "cr3 s = 0x100000"
    using arg_cong[OF assms(1), of totalblockcount] arg_cong[OF assms(1), of p_list]
      arg_cong[OF assms(1), of FREEMEMORY] arg_cong[OF assms(1), of head_freelist]
      arg_cong[OF assms(1), of pmem] arg_cong[OF assms(1), of cr3]
    by (simp_all add: machine.defs)
  then show "pmem s = m" "cr3 s = 0x100000" "totalblockcount s = 20" "FREEMEMORY s = 0x200000" by simp_all
  have "free_blocks s = free_blocks (machine_on m)" using f by (simp add: free_blocks_def)
  then have "pmm_inv s" "pool s = pool (machine_on m)"
    using pmm_inv_machine_on[of m] f by (simp_all add: pmm_inv_def pool_def page_addr_def fun_eq_iff)
  then show "pt_inv s" using f assms(2) by (simp add: pt_inv_def)
qed

lemma can_unmap_small: "can_unmap 0x400000 0x401000 vm_small"
  unfolding can_unmap_def
proof (intro allI)
  fix h :: "vma heap" and r :: u64
  let ?s = "vm_small\<lparr>vma_recycle_list := r, vmas := h\<rparr>"
  have "machine.truncate ?s = machine_on mem_root" by (simp add: vm_small_def machine.defs)
  note inv = pt_inv_extension(1)[OF this pt_inv_root] and m = pt_inv_extension(2,3)[OF this pt_inv_root]
  have "unmap_phyaddr 0x400000 ?s = Inr ?s"
    by (rule unmap_unmapped[OF inv]) (simp_all add: m indices_400000 pte_mem_root)
  then have "unmap_phyaddr_range 0x400000 0x401000 ?s = Some (Inr ?s)"
    using unmap_phyaddr_range_pages[of "0x400000" "0x401000" ?s] by (simp add: upt_rec)
  then show "\<exists>s'. run_loop (unmap_phyaddr_range 0x400000 0x401000 ?s) = Inr s'" by simp
qed

theorem remove_from_vma_list_spec_witness:
  "\<exists>r mm' s' xs' ys'. remove_from_vma_list \<lparr>vma_list = 0x11\<rparr> 0x400000 0x400800 vm_small = Inr (r, mm', s') \<and>
     vma_inv mm' xs' ys' s' \<and>
     areas (vmas s') xs' = remove_area 0x400000 0x400800 (areas (vmas vm_small) [0x11, 0x22]) \<and>
     (r \<longleftrightarrow> (\<exists>x \<in> set [0x11, 0x22]. covers (the (vmas vm_small x)) 0x400000 0x400800)) \<and>
     length ys' = length [0x33 :: u64] + (if r then 1 else 0) \<and> (\<not> r \<longrightarrow> s' = vm_small)"
  by (rule remove_from_vma_list_spec[OF vma_inv_small])
    (use can_unmap_small in \<open>simp add: covers_def\<close>)

lemma IsPageInVmaList_eq:
  fixes s :: "'a vmm_scheme"
  assumes "vma_inv mm xs ys s"
  shows "IsPageInVmaList mm va s = Inr (\<exists>(lo, hi) \<in> set (areas (vmas s) xs). lo \<le> va \<and> va \<le> hi)"
proof -
  have "area_loop (vmas s) p va = Some (Inr (\<exists>(lo, hi) \<in> set (areas (vmas s) xs). lo \<le> va \<and> va \<le> hi))"
    if "chain nextvma (vmas s) p xs" for p
    using that
  proof (induction xs arbitrary: p)
    case Nil
    then show ?case by (subst area_loop.simps) (simp add: areas_def)
  next
    case (Cons x zs)
    then obtain v where v: "p = x" "x \<noteq> 0" "vmas s x = Some v" "chain nextvma (vmas s) (nextvma v) zs"
      by (auto split: option.splits)
    then have "area (vmas s) x = (vstart v, vend v)" by (simp add: area_def)
    then show ?case using v Cons.IH[OF v(4)] by (subst area_loop.simps) (simp add: areas_def, blast)
  qed
  then show ?thesis using assms by (simp add: IsPageInVmaList_def vma_inv_def)
qed

text \<open>\<open>IsPageInVmaList\<close> decides whether an address lies in an area of the process
  (both ends included).\<close>

theorem IsPageInVmaList_spec:
  fixes s :: "'a vmm_scheme"
  assumes "vma_inv mm xs ys s"
  shows "IsPageInVmaList mm va s = Inr (\<exists>(lo, hi) \<in> set (areas (vmas s) xs). lo \<le> va \<and> va \<le> hi)"
  by (rule IsPageInVmaList_eq[OF assms])

theorem IsPageInVmaList_spec_witness:
  "IsPageInVmaList \<lparr>vma_list = 0x11\<rparr> 0x550000 vm_small =
     Inr (\<exists>(lo, hi) \<in> set (areas (vmas vm_small) [0x11, 0x22]). lo \<le> 0x550000 \<and> 0x550000 \<le> hi)"
  by (rule IsPageInVmaList_spec[OF vma_inv_small])

end
