(* ===== verification/Vfs_Spec.thy ===== *)
theory Vfs_Spec
  imports Vfs Virt_Mem_Spec "HOL-Library.Sublist"
begin

text \<open>
  What the file system promises: a path lookup is a walk over the words of the path, an
  inserted path is found again and the paths found before still lead to the same inodes,
  and the archive's octal size fields are decoded.
\<close>

section \<open>Abstract view\<close>

text \<open>The first child whose name starts with the word.\<close>

definition child :: "inode heap \<Rightarrow> u64 \<Rightarrow> string \<Rightarrow> u64 option" where
  "child h node t = (case h node of None \<Rightarrow> None
     | Some n \<Rightarrow> find (\<lambda>c. case h c of None \<Rightarrow> False | Some m \<Rightarrow> prefix t (inodeName m)) (tl (family n)))"

fun lookup :: "inode heap \<Rightarrow> u64 \<Rightarrow> string list \<Rightarrow> u64 option" where
  "lookup h node [] = Some node"
| "lookup h node (t # ts) = (case child h node t of None \<Rightarrow> None | Some c \<Rightarrow> lookup h c ts)"

text \<open>The directory in which the first missing word has to be created is not full.\<close>

fun room :: "inode heap \<Rightarrow> u64 \<Rightarrow> string list \<Rightarrow> bool" where
  "room h node [] = True"
| "room h node (t # ts) = (case child h node t of
       Some c \<Rightarrow> room h c ts
     | None \<Rightarrow> (case h node of None \<Rightarrow> False | Some n \<Rightarrow> length (family n) < MAX_FAMILY))"

definition fs_wf :: "inode heap \<Rightarrow> nat \<Rightarrow> bool" where
  "fs_wf h hi \<longleftrightarrow> (\<forall>a n. h a = Some n \<longrightarrow> a \<noteq> 0 \<and> unat a \<le> hi \<and> family n \<noteq> [] \<and>
     length (family n) \<le> MAX_FAMILY \<and> (\<forall>c \<in> set (family n). c \<in> dom h) \<and> cstring (inodeName n))"

text \<open>Inodes only gain children.\<close>

definition grows :: "inode heap \<Rightarrow> inode heap \<Rightarrow> bool" where
  "grows h h' \<longleftrightarrow> (\<forall>a n. h a = Some n \<longrightarrow> (\<exists>cs. h' a = Some (n\<lparr>family := family n @ cs\<rparr>)))"

section \<open>Tokens\<close>

lemma set_tokens: "t \<in> set (tokens d s) \<Longrightarrow> set t \<subseteq> set s"
proof (induction d s rule: tokens.induct)
  case (1 d s)
  show ?case
  proof (cases "dropWhile (\<lambda>c. c = d) s")
    case Nil
    then have "tokens d s = []" by (subst tokens.simps) (simp only: Nil list.case)
    then show ?thesis using 1(2) by simp
  next
    case (Cons x xs)
    have sub: "set (x # xs) \<subseteq> set s" using Cons by (metis set_dropWhileD subsetI)
    have "t = takeWhile (\<lambda>c. c \<noteq> d) (x # xs) \<or> t \<in> set (tokens d (dropWhile (\<lambda>c. c \<noteq> d) (x # xs)))"
      using 1(2) Cons by (simp add: tokens.simps[of d s])
    then show ?thesis
    proof
      assume "t = takeWhile (\<lambda>c. c \<noteq> d) (x # xs)"
      then show ?thesis using sub by (metis set_takeWhileD subset_iff)
    next
      assume "t \<in> set (tokens d (dropWhile (\<lambda>c. c \<noteq> d) (x # xs)))"
      then have "set t \<subseteq> set (dropWhile (\<lambda>c. c \<noteq> d) (x # xs))" using 1(1)[OF Cons] by simp
      then show ?thesis using sub by (metis set_dropWhileD subset_iff)
    qed
  qed
qed

lemma cstring_tokens: "cstring s \<Longrightarrow> t \<in> set (tokens d s) \<Longrightarrow> cstring t"
  using set_tokens[of t d s] by (auto simp: cstring_def)

section \<open>Looking up one word\<close>

lemma strncmp_prefix:
  assumes "cstring a" and "cstring t"
  shows "strncmp a t (strlen t) = 0 \<longleftrightarrow> prefix t a"
proof -
  have "prefix t a \<longleftrightarrow> length t \<le> length a \<and> take (length t) a = t"
    by (auto simp: prefix_def) (metis append_take_drop_id)
  then show ?thesis by (auto simp: strncmp_0[OF assms] strlen_cstring[OF assms(2)])
qed

lemma find_from_spec:
  assumes "\<forall>c \<in> set cs. \<exists>m. h c = Some m \<and> cstring (inodeName m)" and "cstring t"
  shows "case find (\<lambda>c. case h c of None \<Rightarrow> False | Some m \<Rightarrow> prefix t (inodeName m)) cs of
      None \<Rightarrow> find_from h t (strlen t) cs i = Inr 0
    | Some c \<Rightarrow> \<exists>j < length cs. find_from h t (strlen t) cs i = Inr (i + j) \<and> cs ! j = c"
  using assms(1)
proof (induction cs arbitrary: i)
  case (Cons a cs)
  then obtain m where m: "h a = Some m" "cstring (inodeName m)" by auto
  show ?case
  proof (cases "prefix t (inodeName m)")
    case True
    then show ?thesis using m strncmp_prefix[OF m(2) assms(2)] by auto
  next
    case False
    then show ?thesis
      using m strncmp_prefix[OF m(2) assms(2)] Cons.IH[of "Suc i"] Cons.prems
      by (fastforce split: option.splits)
  qed
qed simp

lemma findFamily_spec:
  fixes s :: "'a vfs_scheme"
  assumes "fs_wf (inodes s) hi" and "inodes s node = Some n" and "cstring t"
  shows "case child (inodes s) node t of
      None \<Rightarrow> findFamily node t (strlen t) s = Inr 0
    | Some c \<Rightarrow> c \<in> dom (inodes s) \<and> (\<exists>m. findFamily node t (strlen t) s = Inr m \<and>
        0 < m \<and> m < MAX_FAMILY \<and> family n ! m = c)"
proof -
  have w: "family n \<noteq> []" "length (family n) \<le> MAX_FAMILY" "\<forall>c \<in> set (family n). c \<in> dom (inodes s)"
    using assms(1,2) by (auto simp: fs_wf_def)
  have all: "\<forall>c \<in> set (tl (family n)). \<exists>m. inodes s c = Some m \<and> cstring (inodeName m)"
  proof
    fix c assume "c \<in> set (tl (family n))"
    then have "c \<in> set (family n)" by (metis list.set_sel(2) w(1))
    then obtain m where "inodes s c = Some m" using w(3) by auto
    then show "\<exists>m. inodes s c = Some m \<and> cstring (inodeName m)" using assms(1) by (auto simp: fs_wf_def)
  qed
  have "family n ! Suc j = tl (family n) ! j" "Suc j < MAX_FAMILY" if "j < length (tl (family n))" for j
    using that w(1,2) by (simp_all add: nth_tl)
  then show ?thesis
    using find_from_spec[OF all assms(3), of 1] assms(2) all
    by (fastforce simp: child_def findFamily_def split: option.splits)
qed

lemma child_dom:
  assumes "fs_wf h hi" and "child h node t = Some c"
  shows "c \<in> dom h"
  using assms(2) by (auto simp: child_def find_Some_iff split: option.splits)

section \<open>Path lookup\<close>

lemma getinode_loop_spec:
  fixes s :: "'a vfs_scheme"
  assumes "cstring pth"
  shows "fs_wf (inodes s) hi \<Longrightarrow> node \<in> dom (inodes s) \<Longrightarrow> pos \<le> length pth \<Longrightarrow>
    \<exists>k. getinode_loop pth pos node s =
      Some (Inr ((case lookup (inodes s) node (tokens CHR ''/'' (drop pos pth)) of None \<Rightarrow> 0 | Some a \<Rightarrow> a),
                 s\<lparr>kern_VA := k\<rparr>))"
proof (induction "tokens CHR ''/'' (drop pos pth)" arbitrary: pos node s)
  case Nil
  have "mystrtok pth CHR ''/'' pos s = Inr (None, pos, s)"
    using mystrtok_tokens[OF assms Nil.prems(3), of "CHR ''/''" s] Nil.hyps by (simp split: list.splits)
  then show ?case
    using Nil.hyps by (intro exI[of _ "kern_VA s"], subst getinode_loop.simps) simp
next
  case (Cons t ts)
  note tok = Cons.hyps(2)[symmetric]
  obtain pos' k where p: "mystrtok pth CHR ''/'' pos s = Inr (Some t, pos', s\<lparr>kern_VA := k\<rparr>)"
      "pos' \<le> length pth" "tokens CHR ''/'' (drop pos' pth) = ts"
    using mystrtok_tokens[OF assms Cons.prems(3), of "CHR ''/''" s] tok by auto
  have ct: "cstring t"
    using cstring_tokens[of "drop pos pth" t "CHR ''/''"] tok assms set_drop_subset[of pos pth]
    by (auto simp: cstring_def)
  obtain n where n: "inodes s node = Some n" using Cons.prems(2) by auto
  let ?s = "s\<lparr>kern_VA := k\<rparr>"
  have wf: "fs_wf (inodes ?s) hi" and n': "inodes ?s node = Some n" using Cons.prems(1) n by simp_all
  show ?case
  proof (cases "child (inodes s) node t")
    case None
    then have "findFamily node t (strlen t) ?s = Inr 0" using findFamily_spec[OF wf n' ct] by simp
    then show ?thesis
      using None tok p(1) by (intro exI[of _ k], subst getinode_loop.simps) simp
  next
    case (Some c)
    then obtain m where m: "findFamily node t (strlen t) ?s = Inr m" "0 < m" "m < MAX_FAMILY"
        "family n ! m = c" "c \<in> dom (inodes ?s)"
      using findFamily_spec[OF wf n' ct] by auto
    obtain k' where "getinode_loop pth pos' c ?s =
      Some (Inr ((case lookup (inodes ?s) c ts of None \<Rightarrow> 0 | Some a \<Rightarrow> a), ?s\<lparr>kern_VA := k'\<rparr>))"
      using Cons.hyps(1)[OF p(3)[symmetric] wf m(5) p(2)] p(3) by auto
    then show ?thesis
      using Some tok p(1) m n by (intro exI[of _ k'], subst getinode_loop.simps) simp
  qed
qed

lemma GetInode_lookup:
  fixes s :: "'a vfs_scheme"
  assumes "fs_wf (inodes s) hi" and "root_inode s \<in> dom (inodes s)" and "cstring pth"
  shows "\<exists>k. GetInode pth s =
    Inr ((case lookup (inodes s) (root_inode s) (tokens CHR ''/'' pth) of None \<Rightarrow> 0 | Some a \<Rightarrow> a),
         s\<lparr>kern_VA := k\<rparr>)"
  using getinode_loop_spec[OF assms(3,1,2), of 0] by (auto simp: GetInode_def)

section \<open>Inserting a path\<close>

lemma grows_refl [simp]: "grows h h"
proof -
  have "n\<lparr>family := family n @ []\<rparr> = n" for n :: inode by simp
  then show ?thesis unfolding grows_def by metis
qed

lemma grows_trans: "grows h h1 \<Longrightarrow> grows h1 h2 \<Longrightarrow> grows h h2"
  unfolding grows_def by fastforce

lemma find_append: "find P (xs @ ys) = (case find P xs of None \<Rightarrow> find P ys | Some x \<Rightarrow> Some x)"
  by (induction xs) auto

lemma find_cong_set: "(\<And>x. x \<in> set xs \<Longrightarrow> P x = Q x) \<Longrightarrow> find P xs = find Q xs"
  by (induction xs) auto

text \<open>A word that was found before leads to the same inode afterwards.\<close>

lemma child_grows:
  assumes "grows h h'" and "fs_wf h hi" and "child h node t = Some c"
  shows "child h' node t = Some c"
proof -
  obtain n where n: "h node = Some n"
      "find (\<lambda>c. case h c of None \<Rightarrow> False | Some m \<Rightarrow> prefix t (inodeName m)) (tl (family n)) = Some c"
    using assms(3) by (auto simp: child_def split: option.splits)
  obtain cs where cs: "h' node = Some (n\<lparr>family := family n @ cs\<rparr>)" using assms(1) n(1) by (auto simp: grows_def)
  have w: "family n \<noteq> []" "\<forall>c \<in> set (family n). c \<in> dom h" using assms(2) n(1) by (auto simp: fs_wf_def)
  have "find (\<lambda>c. case h' c of None \<Rightarrow> False | Some m \<Rightarrow> prefix t (inodeName m)) (tl (family n)) = Some c"
  proof -
    have "(case h' c of None \<Rightarrow> False | Some m \<Rightarrow> prefix t (inodeName m)) =
        (case h c of None \<Rightarrow> False | Some m \<Rightarrow> prefix t (inodeName m))" if "c \<in> set (tl (family n))" for c
    proof -
      have "c \<in> dom h" using that w by (metis list.set_sel(2))
      then obtain m cs where "h c = Some m" "h' c = Some (m\<lparr>family := family m @ cs\<rparr>)"
        using assms(1) unfolding grows_def by blast
      then show ?thesis by simp
    qed
    then show ?thesis using n(2) by (metis (no_types, lifting) find_cong_set)
  qed
  then show ?thesis using cs w(1) by (simp add: child_def find_append tl_append2)
qed

lemma lookup_grows:
  assumes "grows h h'" and "fs_wf h hi"
  shows "lookup h node ts = Some a \<Longrightarrow> lookup h' node ts = Some a"
  by (induction ts arbitrary: node) (auto split: option.splits dest: child_grows[OF assms])

text \<open>Linking a fresh inode to its parent.\<close>

definition add_child :: "inode heap \<Rightarrow> u64 \<Rightarrow> inode \<Rightarrow> u64 \<Rightarrow> inode \<Rightarrow> inode heap" where
  "add_child h node n c new = h(c \<mapsto> new, node \<mapsto> n\<lparr>family := family n @ [c]\<rparr>)"

lemma add_child_at:
  assumes "h node = Some n" and "h c = None"
  shows "add_child h node n c new node = Some (n\<lparr>family := family n @ [c]\<rparr>)"
    and "add_child h node n c new c = Some new"
    and "a \<noteq> node \<Longrightarrow> a \<noteq> c \<Longrightarrow> add_child h node n c new a = h a"
    and "dom (add_child h node n c new) = insert c (dom h)"
  using assms by (auto simp: add_child_def)

lemma add_child_grows:
  assumes "h node = Some n" and "h c = None"
  shows "grows h (add_child h node n c new)"
  unfolding grows_def
proof (intro allI impI)
  fix a m assume a: "h a = Some m"
  have "m\<lparr>family := family m @ []\<rparr> = m" by simp
  then show "\<exists>cs. add_child h node n c new a = Some (m\<lparr>family := family m @ cs\<rparr>)"
    using a assms add_child_at[OF assms] by (cases "a = node") (force, metis option.distinct(1))
qed

lemma add_child_wf:
  assumes "fs_wf h hi" and "h node = Some n" and "h c = None" and "c \<noteq> 0" and "unat c \<le> hi'" and "hi \<le> hi'"
    and "length (family n) < MAX_FAMILY" and "family new = [node]" and "cstring (inodeName new)"
  shows "fs_wf (add_child h node n c new) hi'"
  unfolding fs_wf_def
proof (intro allI impI)
  fix a m assume a: "add_child h node n c new a = Some m"
  note at = add_child_at[OF assms(2,3)]
  have old: "b \<noteq> 0 \<and> unat b \<le> hi' \<and> family k \<noteq> [] \<and> length (family k) \<le> MAX_FAMILY \<and>
      set (family k) \<subseteq> dom h \<and> cstring (inodeName k)" if "h b = Some k" for b k
    using assms(1) that order_trans[OF _ assms(6)] by (auto simp: fs_wf_def)
  consider "a = c" | "a = node" "a \<noteq> c" | "a \<noteq> c" "a \<noteq> node" by blast
  then show "a \<noteq> 0 \<and> unat a \<le> hi' \<and> family m \<noteq> [] \<and> length (family m) \<le> MAX_FAMILY \<and>
      (\<forall>x\<in>set (family m). x \<in> dom (add_child h node n c new)) \<and> cstring (inodeName m)"
  proof cases
    case 1
    then have "m = new" using a at(2) by simp
    then show ?thesis using 1 assms at(4) by auto
  next
    case 2
    then have "m = n\<lparr>family := family n @ [c]\<rparr>" using a at(1) by simp
    then show ?thesis using 2 old[OF assms(2)] assms(7) unfolding at(4) by auto
  next
    case 3
    then have "h a = Some m" using a at(3) by simp
    then show ?thesis using old[of a m] unfolding at(4) by auto
  qed
qed

lemma add_child_child:
  assumes "fs_wf h hi" and "h node = Some n" and "h c = None" and "child h node t = None"
    and "prefix t (inodeName new)"
  shows "child (add_child h node n c new) node t = Some c"
proof -
  let ?h = "add_child h node n c new"
  let ?P = "\<lambda>h c. case h c of None \<Rightarrow> False | Some m \<Rightarrow> prefix t (inodeName m)"
  note at = add_child_at[OF assms(2,3)]
  have w: "family n \<noteq> []" "\<forall>c \<in> set (family n). c \<in> dom h" using assms(1,2) by (auto simp: fs_wf_def)
  have "\<not> ?P ?h x" if "x \<in> set (tl (family n))" for x
  proof -
    have "\<not> ?P h x" using assms(2,4) that by (auto simp: child_def find_None_iff split: option.splits)
    moreover have "x \<in> dom h" using that w by (metis list.set_sel(2))
    moreover have "x \<noteq> node \<Longrightarrow> ?h x = h x"
      using at(3)[of x] \<open>x \<in> dom h\<close> assms(3) by (metis domIff)
    ultimately show ?thesis using at(1) assms(2) by (cases "x = node") (auto split: option.splits)
  qed
  then have "find (?P ?h) (tl (family n)) = None" by (auto simp: find_None_iff)
  then show ?thesis using at(1,2) assms(5) w(1) by (simp add: child_def find_append tl_append2)
qed

text \<open>
  The inodes form a tree: the root is its own parent and nobody's child, every inode is reached from the root
  along the entries for children, every child names the directory it is in as its parent and is found there under
  its own name, and no directory lists a child twice.
\<close>

definition links :: "inode heap \<Rightarrow> (u64 \<times> u64) set" where
  "links h = {(a, c). \<exists>n. h a = Some n \<and> c \<in> set (tl (family n))}"

definition fs_tree :: "inode heap \<Rightarrow> u64 \<Rightarrow> bool" where
  "fs_tree h r \<longleftrightarrow>
     (\<exists>n. h r = Some n \<and> family n ! 0 = r) \<and>
     (\<forall>a \<in> dom h. (r, a) \<in> (links h)\<^sup>*) \<and>
     (\<forall>a c. (a, c) \<in> links h \<longrightarrow> c \<noteq> r \<and>
        (\<exists>m. h c = Some m \<and> family m ! 0 = a \<and> child h a (inodeName m) = Some c)) \<and>
     (\<forall>a n. h a = Some n \<longrightarrow> distinct (tl (family n)))"

lemma fs_tree_acyclic:
  assumes "fs_tree h r" and "a \<in> dom h"
  shows "(a, a) \<notin> (links h)\<^sup>+"
proof -
  have parent: "b = b' \<and> c \<noteq> r" if b: "(b, c) \<in> links h" and b': "(b', c) \<in> links h" for b b' c
  proof -
    obtain m where "h c = Some m" "family m ! 0 = b" "c \<noteq> r"
      using assms(1) b unfolding fs_tree_def by blast
    moreover obtain m' where "h c = Some m'" "family m' ! 0 = b'"
      using assms(1) b' unfolding fs_tree_def by blast
    ultimately show ?thesis by simp
  qed
  have "(r, a) \<in> (links h)\<^sup>*" using assms by (simp add: fs_tree_def)
  then show ?thesis
  proof (induction rule: rtrancl_induct)
    case base
    show ?case
    proof
      assume "(r, r) \<in> (links h)\<^sup>+"
      then obtain b where "(b, r) \<in> links h" by (meson tranclD2)
      then show False using parent[of b r b] by simp
    qed
  next
    case (step b c)
    show ?case
    proof
      assume "(c, c) \<in> (links h)\<^sup>+"
      then obtain b' where "(c, b') \<in> (links h)\<^sup>*" "(b', c) \<in> links h" by (meson tranclD2)
      moreover have "b' = b" using parent[OF \<open>(b', c) \<in> links h\<close> step.hyps(2)] by simp
      ultimately have "(b, b) \<in> (links h)\<^sup>+" using step.hyps(2) by (simp add: rtrancl_into_trancl2)
      then show False using step.IH by simp
    qed
  qed
qed

lemma fs_tree_links: "fs_tree h r \<Longrightarrow> acyclic (links h)"
proof (rule acyclicI, rule allI)
  fix a
  assume t: "fs_tree h r"
  show "(a, a) \<notin> (links h)\<^sup>+"
  proof (cases "a \<in> dom h")
    case False
    then have "(a, b) \<notin> links h" for b by (auto simp: links_def)
    then show ?thesis by (meson tranclD)
  qed (rule fs_tree_acyclic[OF t])
qed

lemma add_child_links:
  assumes "h node = Some n" and "h c = None" and "family n \<noteq> []" and "family new = [node]"
  shows "links (add_child h node n c new) = insert (node, c) (links h)"
  using assms by (auto simp: links_def add_child_def tl_append2 split: if_splits)

lemma add_child_tree:
  assumes wf: "fs_wf h hi" and tree: "fs_tree h r" and n: "h node = Some n" and c: "h c = None"
    and new: "family new = [node]" "child h node (inodeName new) = None"
  shows "fs_tree (add_child h node n c new) r"
proof -
  let ?h = "add_child h node n c new"
  note at = add_child_at[OF n c]
  have w: "family n \<noteq> []" "set (family n) \<subseteq> dom h" using wf n by (auto simp: fs_wf_def)
  have l: "links ?h = insert (node, c) (links h)" by (rule add_child_links[OF n c w(1) new(1)])
  have g: "grows h ?h" by (rule add_child_grows[OF n c])
  have up: "\<exists>m'. ?h a = Some m' \<and> family m' ! 0 = family m ! 0 \<and> inodeName m' = inodeName m" if "h a = Some m" for a m
  proof -
    have "family m \<noteq> []" using wf that by (auto simp: fs_wf_def)
    then show ?thesis using g that unfolding grows_def by (fastforce simp: nth_append)
  qed
  have root: "\<exists>m. ?h r = Some m \<and> family m ! 0 = r" using tree up unfolding fs_tree_def by metis
  have mono: "(links h)\<^sup>* \<subseteq> (links ?h)\<^sup>*" using l by (intro rtrancl_mono) blast
  have node: "(r, node) \<in> (links ?h)\<^sup>*" using tree n mono unfolding fs_tree_def by blast
  have reach: "(r, a) \<in> (links ?h)\<^sup>*" if "a \<in> dom ?h" for a
  proof (cases "a = c")
    case True
    then show ?thesis using node l by (simp add: rtrancl.rtrancl_into_rtrancl)
  next
    case False
    then show ?thesis using that at(4) tree mono unfolding fs_tree_def by blast
  qed
  have parent: "y \<noteq> r \<and> (\<exists>m. ?h y = Some m \<and> family m ! 0 = x \<and> child ?h x (inodeName m) = Some y)"
    if "(x, y) \<in> links ?h" for x y
  proof (cases "(x, y) \<in> links h")
    case True
    then obtain m where "y \<noteq> r" "h y = Some m" "family m ! 0 = x" "child h x (inodeName m) = Some y"
      using tree unfolding fs_tree_def by blast
    then show ?thesis using up[of y m] child_grows[OF g wf] by metis
  next
    case False
    then have xy: "x = node" "y = c" using that l by auto
    moreover have "c \<noteq> r" using tree c by (auto simp: fs_tree_def)
    ultimately show ?thesis using at(2) new add_child_child[OF wf n c new(2), of new] by simp
  qed
  have "distinct (tl (family m))" if "?h a = Some m" for a m
  proof (cases "a = node")
    case True
    have "distinct (tl (family n))" "c \<notin> set (tl (family n))"
      using tree n c w by (auto simp: fs_tree_def dest: list.set_sel(2))
    then show ?thesis using that at(1) True w(1) by (auto simp: tl_append2)
  next
    case False
    then show ?thesis using that at(2,3) new(1) tree unfolding fs_tree_def by (cases "a = c") auto
  qed
  then show ?thesis using root reach parent unfolding fs_tree_def by blast
qed

lemma appendToFamily_spec:
  fixes s :: "'a vfs_scheme"
  assumes wf: "fs_wf (inodes s) (unat (kern_VA s))" and n: "inodes s node = Some n"
    and t: "cstring t" "length t < NAME_MAX" and r: "length (family n) < MAX_FAMILY"
    and k: "unat (kern_VA s) + 360 < 2 ^ 64" and none: "child (inodes s) node t = None"
  obtains c h where
    "appendToFamily node t st en ty s =
       Inr (Some (length (family n)), s\<lparr>kern_VA := kern_VA s + 360, inodes := h\<rparr>)"
    "fs_wf h (unat (kern_VA s + 360))" "grows (inodes s) h" "child h node t = Some c"
    "h c = Some \<lparr>istart = st, iend = en, family = [node], itype = ty, inodeName = t\<rparr>"
    "h node = Some (n\<lparr>family := family n @ [c]\<rparr>)" "\<forall>r. fs_tree (inodes s) r \<longrightarrow> fs_tree h r"
proof -
  let ?c = "kern_VA s + 1" and ?k = "kern_VA s + 360"
  let ?new = "\<lparr>istart = st, iend = en, family = [node], itype = ty, inodeName = t\<rparr>"
  have u: "unat ?c = unat (kern_VA s) + 1" "unat ?k = unat (kern_VA s) + 360"
    using k by (simp_all add: unat_word_ariths)
  have fresh: "inodes s ?c = None"
  proof (cases "inodes s ?c")
    case (Some m)
    then have "unat ?c \<le> unat (kern_VA s)" using wf by (auto simp: fs_wf_def)
    then show ?thesis using u by simp
  qed simp
  have "?c \<noteq> 0" using u(1) by auto
  then have "fs_wf (add_child (inodes s) node n ?c ?new) (unat ?k)"
    by (intro add_child_wf[OF wf n fresh]) (use u r t in simp_all)
  moreover have "appendToFamily node t st en ty s = Inr (Some (length (family n)),
      s\<lparr>kern_VA := ?k, inodes := add_child (inodes s) node n ?c ?new\<rparr>)"
    using n r t by (simp add: appendToFamily_def kmalloc_Inr strlen_cstring add_child_def del: fun_upd_apply)
  ultimately show thesis
    using that[of "add_child (inodes s) node n ?c ?new" ?c] add_child_grows[OF n fresh]
      add_child_child[OF wf n fresh none, of ?new] add_child_at[OF n fresh]
      add_child_tree[OF wf _ n fresh, of _ ?new] none by simp
qed

lemma fs_wf_mono: "fs_wf h lo \<Longrightarrow> lo \<le> hi \<Longrightarrow> fs_wf h hi"
  unfolding fs_wf_def by (auto intro: order_trans)

lemma fresh_dir:
  assumes "h c = Some n" and "family n = [p]"
  shows "room h c ts" and "ts \<noteq> [] \<Longrightarrow> lookup h c ts = None"
  using assms by (cases ts; simp add: child_def)+

definition created :: "inode heap \<Rightarrow> u64 \<Rightarrow> u64 \<Rightarrow> u64 \<Rightarrow> inodeType \<Rightarrow> bool" where
  "created h a st en ty \<longleftrightarrow> (\<exists>n. h a = Some n \<and> istart n = st \<and> iend n = en \<and> itype n = ty)"

lemma created_grows: "grows h h' \<Longrightarrow> created h a st en ty \<Longrightarrow> created h' a st en ty"
  unfolding grows_def created_def by fastforce

text \<open>What inserting the words \<open>ts\<close> below \<open>node\<close> does to the heap of inodes.\<close>

definition inserted ::
    "inode heap \<Rightarrow> inode heap \<Rightarrow> u64 \<Rightarrow> string list \<Rightarrow> u64 \<Rightarrow> u64 \<Rightarrow> inodeType \<Rightarrow> bool" where
  "inserted h h' node ts st en ty \<longleftrightarrow> grows h h' \<and> (\<exists>a. lookup h' node ts = Some a \<and> a \<in> dom h' \<and>
     (lookup h node ts = None \<longrightarrow> created h' a st en ty))"

lemma inserted_Cons_old:
  assumes "fs_wf h hi" and "child h node t = Some c" and "inserted h h' c ts st en ty"
  shows "inserted h h' node (t # ts) st en ty"
  using assms(2,3) child_grows[OF _ assms(1,2), of h'] by (auto simp: inserted_def)

lemma inserted_Cons_new:
  assumes "grows h h1" and "fs_wf h1 hi" and "child h1 node t = Some c" and "inserted h1 h' c ts st en ty"
    and "h1 c = Some \<lparr>istart = st, iend = en, family = [node], itype = ty, inodeName = t\<rparr>"
  shows "inserted h h' node (t # ts) st en ty"
proof -
  have g: "grows h1 h'" using assms(4) by (simp add: inserted_def)
  obtain a where "lookup h' c ts = Some a \<and> a \<in> dom h' \<and> (lookup h1 c ts = None \<longrightarrow> created h' a st en ty)"
    using assms(4)[unfolded inserted_def, THEN conjunct2] by (rule exE)
  then have a: "lookup h' c ts = Some a" "a \<in> dom h'" "lookup h1 c ts = None \<longrightarrow> created h' a st en ty"
    by simp_all
  have "created h' a st en ty"
  proof (cases "ts = []")
    case True
    have "created h1 c st en ty" using assms(5) by (simp add: created_def)
    then show ?thesis using True a(1) created_grows[OF g] by simp
  next
    case False
    then show ?thesis using a(3) fresh_dir(2)[of h1 c, OF assms(5), of node ts] by simp
  qed
  then show ?thesis
    using a child_grows[OF g assms(2,3)] grows_trans[OF assms(1) g] by (auto simp: inserted_def)
qed

text \<open>One word of a path: the code goes on in the child with that name, in a new one, or, in a full directory, in the same.\<close>

lemma insert_step:
  fixes s :: "'a vfs_scheme"
  assumes p: "cstring pth" "pos \<le> length pth" "tokens CHR ''/'' (drop pos pth) = t # ts" "length t < NAME_MAX"
    and wf: "fs_wf (inodes s) (unat (kern_VA s))" and node: "node \<in> dom (inodes s)"
    and mem: "unat (kern_VA s) + (length pth + 365) < 2 ^ 64"
  obtains pos' node' k h where
    "insert_loop pth pos node st en ty s = insert_loop pth pos' node' st en ty (s\<lparr>kern_VA := k, inodes := h\<rparr>)"
    "pos' \<le> length pth" "tokens CHR ''/'' (drop pos' pth) = ts" "fs_wf h (unat k)" "grows (inodes s) h"
    "node' \<in> dom h" "unat k \<le> unat (kern_VA s) + (length pth + 365)"
    "\<And>c. child (inodes s) node t = Some c \<Longrightarrow> node' = c \<and> h = inodes s"
    "\<And>n. child (inodes s) node t = None \<Longrightarrow> inodes s node = Some n \<Longrightarrow> length (family n) < MAX_FAMILY \<Longrightarrow>
      child h node t = Some node' \<and>
      h node' = Some \<lparr>istart = st, iend = en, family = [node], itype = ty, inodeName = t\<rparr>"
    "\<And>r. fs_tree (inodes s) r \<Longrightarrow> fs_tree h r"
proof -
  obtain pos' j where m: "mystrtok pth CHR ''/'' pos s = Inr (Some t, pos', s\<lparr>kern_VA := kern_VA s + of_nat j\<rparr>)"
      "j \<le> length pth + 5" "pos' \<le> length pth" "tokens CHR ''/'' (drop pos' pth) = ts"
    using mystrtok_tokens[OF p(1,2), of "CHR ''/''" s] p(3) by auto
  let ?s = "s\<lparr>kern_VA := kern_VA s + of_nat j\<rparr>"
  have ct: "cstring t"
    using cstring_tokens[of "drop pos pth" t "CHR ''/''"] p(1,3) set_drop_subset[of pos pth] by (auto simp: cstring_def)
  have "unat (of_nat j :: u64) = j" using mem m(2) by (intro unat_of_nat_small) simp
  then have uk: "unat (kern_VA ?s) = unat (kern_VA s) + j"
    using unat_add_small[of "kern_VA s" "of_nat j"] mem m(2) by simp
  obtain n where n: "inodes ?s node = Some n" using node by auto
  have wf': "fs_wf (inodes ?s) (unat (kern_VA ?s))" using fs_wf_mono[OF wf] uk by simp
  note found = findFamily_spec[OF wf' n ct]
  have s: "s\<lparr>kern_VA := kern_VA ?s, inodes := inodes s\<rparr> = ?s" by simp
  consider c where "child (inodes s) node t = Some c"
    | "child (inodes s) node t = None" "length (family n) < MAX_FAMILY"
    | "child (inodes s) node t = None" "MAX_FAMILY \<le> length (family n)" by fastforce
  then show thesis
  proof cases
    case (1 c)
    then obtain i where i: "findFamily node t (strlen t) ?s = Inr i" "0 < i" "i < MAX_FAMILY"
        "family n ! i = c" "c \<in> dom (inodes ?s)"
      using found by auto
    then have "insert_loop pth pos node st en ty s = insert_loop pth pos' c st en ty ?s"
      using m(1) n by (subst insert_loop.simps) simp
    then show thesis
      using 1 m i(5) wf' uk that[where k = "kern_VA ?s" and h = "inodes s", unfolded s, OF _ m(3,4)] by simp
  next
    case 2
    moreover have "unat (kern_VA ?s) + 360 < 2 ^ 64" using mem uk m(2) by simp
    moreover have "child (inodes ?s) node t = None" using 2 by simp
    ultimately obtain c h where a: "appendToFamily node t st en ty ?s =
          Inr (Some (length (family n)), ?s\<lparr>kern_VA := kern_VA ?s + 360, inodes := h\<rparr>)"
        "fs_wf h (unat (kern_VA ?s + 360))" "grows (inodes ?s) h" "child h node t = Some c"
        "h c = Some \<lparr>istart = st, iend = en, family = [node], itype = ty, inodeName = t\<rparr>"
        "h node = Some (n\<lparr>family := family n @ [c]\<rparr>)" "\<forall>r. fs_tree (inodes ?s) r \<longrightarrow> fs_tree h r"
      by (elim appendToFamily_spec[OF wf' n ct p(4)])
    have "family n \<noteq> []" using wf' n by (auto simp: fs_wf_def)
    then have "insert_loop pth pos node st en ty s =
        insert_loop pth pos' c st en ty (s\<lparr>kern_VA := kern_VA ?s + 360, inodes := h\<rparr>)"
      using m(1) a(1,6) 2 found by (subst insert_loop.simps) simp
    moreover have "unat (kern_VA ?s + 360) = unat (kern_VA s) + j + 360"
      using unat_add_small[of "kern_VA ?s" 360] mem m(2) uk by simp
    ultimately show thesis
      using 2 m(2) a(2-5,7) that[OF _ m(3,4), where node' = c and k = "kern_VA ?s + 360" and h = h] by auto
  next
    case 3
    then have "insert_loop pth pos node st en ty s = insert_loop pth pos' node st en ty ?s"
      using m(1) n found by (subst insert_loop.simps) (simp add: appendToFamily_def)
    then show thesis
      using 3 m n node wf' uk that[where k = "kern_VA ?s" and h = "inodes s", unfolded s, OF _ m(3,4)] by simp
  qed
qed

lemma insert_loop_spec:
  fixes s :: "'a vfs_scheme"
  assumes "cstring pth"
  shows "fs_wf (inodes s) (unat (kern_VA s)) \<Longrightarrow> node \<in> dom (inodes s) \<Longrightarrow> pos \<le> length pth \<Longrightarrow>
    \<forall>t \<in> set (tokens CHR ''/'' (drop pos pth)). length t < NAME_MAX \<Longrightarrow>
    room (inodes s) node (tokens CHR ''/'' (drop pos pth)) \<Longrightarrow>
    unat (kern_VA s) + length (tokens CHR ''/'' (drop pos pth)) * (length pth + 365) < 2 ^ 64 \<Longrightarrow>
    \<exists>k h. insert_loop pth pos node st en ty s = Some (Inr (s\<lparr>kern_VA := k, inodes := h\<rparr>)) \<and>
      fs_wf h (unat k) \<and> inserted (inodes s) h node (tokens CHR ''/'' (drop pos pth)) st en ty"
proof (induction "tokens CHR ''/'' (drop pos pth)" arbitrary: pos node s)
  case Nil
  have "mystrtok pth CHR ''/'' pos s = Inr (None, pos, s)"
    using mystrtok_tokens[OF assms Nil.prems(3), of "CHR ''/''" s] Nil.hyps by (simp split: list.splits)
  then have "insert_loop pth pos node st en ty s = Some (Inr (s\<lparr>kern_VA := kern_VA s, inodes := inodes s\<rparr>))"
    by (subst insert_loop.simps) simp
  then show ?case
    using Nil.prems(1,2) Nil.hyps
    by (intro exI[of _ "kern_VA s"] exI[of _ "inodes s"]) (auto simp: inserted_def)
next
  case (Cons t ts)
  note tok = Cons.hyps(2)[symmetric]
  let ?c = "length pth + 365"
  have mem: "unat (kern_VA s) + ?c + length ts * ?c < 2 ^ 64"
    using Cons.prems(6) by (simp only: tok list.size mult_Suc add_0_right Suc_eq_plus1 add_mult_distrib mult_1 add_ac)
  then have mem1: "unat (kern_VA s) + ?c < 2 ^ 64" by (rule add_lessD1)
  have t: "length t < NAME_MAX" using Cons.prems(4) tok by simp
  obtain pos' node' k h where p: "insert_loop pth pos node st en ty s =
        insert_loop pth pos' node' st en ty (s\<lparr>kern_VA := k, inodes := h\<rparr>)"
      "pos' \<le> length pth" "tokens CHR ''/'' (drop pos' pth) = ts" "fs_wf h (unat k)" "grows (inodes s) h"
      "node' \<in> dom h" "unat k \<le> unat (kern_VA s) + ?c"
      and old: "\<And>c. child (inodes s) node t = Some c \<Longrightarrow> node' = c \<and> h = inodes s"
      and new: "\<And>n. child (inodes s) node t = None \<Longrightarrow> inodes s node = Some n \<Longrightarrow> length (family n) < MAX_FAMILY \<Longrightarrow>
        child h node t = Some node' \<and>
        h node' = Some \<lparr>istart = st, iend = en, family = [node], itype = ty, inodeName = t\<rparr>"
    by (rule insert_step[OF assms Cons.prems(3) tok t Cons.prems(1,2) mem1, of st en ty]) blast
  let ?s = "s\<lparr>kern_VA := k, inodes := h\<rparr>"
  have rest: "\<exists>k' h'. insert_loop pth pos node st en ty s = Some (Inr (s\<lparr>kern_VA := k', inodes := h'\<rparr>)) \<and>
      fs_wf h' (unat k') \<and> inserted h h' node' ts st en ty" if "room h node' ts"
  proof -
    have "unat k + length ts * ?c < 2 ^ 64" using p(7) mem by linarith
    then have "\<exists>k' h'. insert_loop pth pos' node' st en ty ?s = Some (Inr (?s\<lparr>kern_VA := k', inodes := h'\<rparr>)) \<and>
        fs_wf h' (unat k') \<and> inserted (inodes ?s) h' node' (tokens CHR ''/'' (drop pos' pth)) st en ty"
      using p that Cons.prems(4) tok by (intro Cons.hyps(1)) auto
    then show ?thesis using p(1,3) by simp
  qed
  show ?case
  proof (cases "child (inodes s) node t")
    case (Some c)
    then have c: "node' = c" "h = inodes s" using old by simp_all
    then have "room h node' ts" using Cons.prems(5) Some tok by simp
    then obtain k' h' where "insert_loop pth pos node st en ty s = Some (Inr (s\<lparr>kern_VA := k', inodes := h'\<rparr>))"
        "fs_wf h' (unat k')" "inserted (inodes s) h' c ts st en ty"
      using rest c by auto
    then show ?thesis
      using inserted_Cons_old[OF Cons.prems(1) Some] tok by (intro exI[of _ k'] exI[of _ h']) simp
  next
    case None
    obtain n where n: "inodes s node = Some n" using Cons.prems(2) by auto
    then have "length (family n) < MAX_FAMILY" using Cons.prems(5) None tok by simp
    then have a: "child h node t = Some node'"
        "h node' = Some \<lparr>istart = st, iend = en, family = [node], itype = ty, inodeName = t\<rparr>"
      using new[OF None n] by simp_all
    then obtain k' h' where "insert_loop pth pos node st en ty s = Some (Inr (s\<lparr>kern_VA := k', inodes := h'\<rparr>))"
        "fs_wf h' (unat k')" "inserted h h' node' ts st en ty"
      using rest fresh_dir(1)[of h node', OF a(2), of node ts] by auto
    then show ?thesis
      using inserted_Cons_new[OF p(5,4) a(1) _ a(2)] tok by (intro exI[of _ k'] exI[of _ h']) simp
  qed
qed

section \<open>Octal numbers\<close>

definition octal :: "char \<Rightarrow> bool" where
  "octal c \<longleftrightarrow> c \<in> set ''01234567''"

text \<open>The digits of a string, read in a base.\<close>

definition digits_in :: "int \<Rightarrow> string \<Rightarrow> int" where
  "digits_in b cs = foldl (\<lambda>v c. b * v + (schar c - schar CHR ''0'')) 0 cs"

lemma power_pow: "power x y = x ^ y"
proof (induction x y rule: power.induct)
  case (1 x y)
  show ?case
  proof (cases "y = 0")
    case False
    have "x ^ y = x ^ (y mod 2) * (x ^ (y div 2) * x ^ (y div 2))"
      by (metis div_mult_mod_eq mult.commute power_add mult_2 power_mult power2_eq_square)
    moreover have "y mod 2 = 0 \<or> y mod 2 = 1" by auto
    ultimately show ?thesis using 1 False by (subst power.simps) auto
  qed (simp add: power.simps)
qed

lemma octal_digit: "octal c \<Longrightarrow> 0 \<le> schar c - schar CHR ''0'' \<and> schar c - schar CHR ''0'' < 8"
  by (auto simp: octal_def schar_def)

lemma read_digits_foldl:
  "\<forall>c \<in> set cs. octal c \<Longrightarrow> 0 \<le> v \<Longrightarrow> (v + 1) * 10 ^ length cs \<le> 2 ^ 31 \<Longrightarrow>
    read_digits cs v = foldl (\<lambda>v c. 10 * v + (schar c - schar CHR ''0'')) v cs"
proof (induction cs arbitrary: v)
  case (Cons c cs)
  let ?v = "10 * v + (schar c - schar CHR ''0'')"
  have x: "0 \<le> schar c - schar CHR ''0''" "schar c - schar CHR ''0'' < 8" using Cons.prems(1) octal_digit by auto
  then have v: "0 \<le> ?v" "?v + 1 \<le> 10 * (v + 1)" using Cons.prems(2) by (simp_all add: schar_def)
  have "(?v + 1) * 10 ^ length cs \<le> 10 * (v + 1) * 10 ^ length cs" using v(2) by (intro mult_right_mono) simp_all
  moreover have "10 * (v + 1) * 10 ^ length cs \<le> 2 ^ 31"
    using Cons.prems(3) by (simp only: length_Cons power_Suc ac_simps)
  ultimately have m: "(?v + 1) * 10 ^ length cs \<le> 2 ^ 31" by (rule order_trans)
  moreover have "?v + 1 \<le> (?v + 1) * 10 ^ length cs" using v(1) by simp
  ultimately have "?v < 2 ^ 31" by linarith
  then have "to_int32 (of_int ?v) = ?v" using to_int32_of_nat[of "nat ?v"] v(1) by simp
  then show ?case using Cons.IH[of ?v] Cons.prems(1) v(1) m by auto
qed simp

lemma read_digits_zeros: "read_digits (replicate z CHR ''0'' @ cs) 0 = read_digits cs 0"
  by (induction z) simp_all

lemma weigh_digits:
  assumes "\<forall>c \<in> set cs. octal c"
  shows "0 \<le> digits_in 10 cs \<and> weigh (digits_in 10 cs) i d = d + 8 ^ i * digits_in 8 cs"
  using assms
proof (induction cs arbitrary: i d rule: rev_induct)
  case Nil
  then show ?case by (simp add: digits_in_def weigh.simps)
next
  case (snoc c cs)
  let ?x = "schar c - schar CHR ''0''" and ?v = "digits_in 10 cs"
  have x: "0 \<le> ?x" "?x < 8" using snoc.prems octal_digit by auto
  have v: "0 \<le> ?v" using snoc by auto
  have e: "digits_in b (cs @ [c]) = b * digits_in b cs + ?x" for b by (simp add: digits_in_def)
  have dm: "(10 * ?v + ?x) sdiv 10 = ?v" "(10 * ?v + ?x) smod 10 = ?x"
    using x v by (simp_all add: signed_divide_int_def signed_modulo_int_def sgn_if)
  have w: "weigh (10 * ?v + ?x) i d = weigh ?v (Suc i) (d + ?x * power 8 i)"
  proof (cases "10 * ?v + ?x = 0")
    case True
    then have "?v = 0" "?x = 0" using x v by auto
    then show ?thesis by (simp add: weigh.simps)
  next
    case False
    then show ?thesis by (subst weigh.simps) (simp add: dm)
  qed
  have "weigh ?v (Suc i) (d + ?x * power 8 i) = d + ?x * power 8 i + 8 ^ Suc i * digits_in 8 cs"
    using snoc by auto
  then show ?case
    using x v unfolding e w by (simp add: power_pow algebra_simps)
qed

lemma digits_in_bound: "\<forall>c \<in> set cs. octal c \<Longrightarrow> digits_in 10 cs < 10 ^ length cs"
proof (induction cs rule: rev_induct)
  case (snoc c cs)
  have "schar c - schar CHR ''0'' < 8" using snoc.prems octal_digit by auto
  then show ?case using snoc by (simp add: digits_in_def)
qed (simp add: digits_in_def)

lemma digits_in_zeros: "digits_in b (replicate z CHR ''0'' @ cs) = digits_in b cs"
  by (simp add: digits_in_def) (induction z; simp)

section \<open>Termination of the archive scan\<close>

lemma mystrtok_Inr:
  assumes "cstring str" and "pos \<le> length str"
  shows "\<exists>t p k. mystrtok str d pos s = Inr (t, p, s\<lparr>kern_VA := k\<rparr>) \<and> p \<le> length str \<and>
     (t \<noteq> None \<longrightarrow> pos < p)"
proof (cases "tokens d (drop pos str)")
  case Nil
  then show ?thesis using mystrtok_tokens[OF assms, of d s] assms(2) by (force intro!: exI[of _ "kern_VA s"])
next
  case (Cons t ts)
  then show ?thesis using mystrtok_tokens[OF assms, of d s] by force
qed

lemma findFamily_Inl: "findFamily node t n s = Inl e \<Longrightarrow> e = NullPointer"
proof -
  have "find_from h t n cs i = Inl e \<Longrightarrow> e = NullPointer" for h cs i
    by (induction cs arbitrary: i) (auto split: option.splits if_splits)
  then show "findFamily node t n s = Inl e \<Longrightarrow> e = NullPointer"
    by (auto simp: findFamily_def split: option.splits)
qed

lemma appendToFamily_Inl: "appendToFamily node t st en ty s = Inl e \<Longrightarrow> e \<noteq> Unterminated"
  by (auto simp: appendToFamily_def kmalloc_Inr split: option.splits if_splits)

lemma insert_loop_ends:
  assumes "cstring pth"
  shows "pos \<le> length pth \<Longrightarrow> \<exists>r. insert_loop pth pos node st en ty s = Some r \<and> r \<noteq> Inl Unterminated"
proof (induction "length pth - pos" arbitrary: pos node s rule: less_induct)
  case less
  obtain t p k where m: "mystrtok pth CHR ''/'' pos s = Inr (t, p, s\<lparr>kern_VA := k\<rparr>)" "p \<le> length pth"
      "t \<noteq> None \<longrightarrow> pos < p"
    using mystrtok_Inr[OF assms less.prems, of "CHR ''/''" s] by blast
  show ?case
  proof (cases t)
    case None
    then show ?thesis using m(1) by (subst insert_loop.simps) simp
  next
    case (Some tk)
    let ?s = "s\<lparr>kern_VA := k\<rparr>"
    have IH: "\<exists>r. insert_loop pth p nd st en ty s' = Some r \<and> r \<noteq> Inl Unterminated" for nd and s' :: "'a vfs_scheme"
      using less.hyps[of p nd s'] m(2,3) Some by simp
    let ?r = "rbind (findFamily node tk (strlen tk) ?s) (\<lambda>m.
        if m = 0 then appendToFamily node tk st en ty ?s else Inr (Some m, ?s))"
    show ?thesis
    proof (cases ?r)
      case (Inl e)
      then have "e \<noteq> Unterminated"
        using findFamily_Inl[of node tk _ ?s e] appendToFamily_Inl[of node tk st en ty ?s e]
        by (auto simp: rbind_def split: sum.splits if_splits)
      then show ?thesis using m(1) Some Inl by (subst insert_loop.simps) simp
    next
      case (Inr x)
      then show ?thesis
        using m(1) Some IH by (subst insert_loop.simps) (auto split: prod.splits option.splits)
    qed
  qed
qed

lemma cstring_cstr_at: "cstring (cstr_at tar off)"
  by (auto simp: cstring_def cstr_at_def dest: set_takeWhileD)

lemma InsertIntoRoot_ends:
  fixes s :: "'a vfs_scheme"
  shows "InsertIntoRoot (hdr_name tar h) st en ty s \<noteq> Inl Unterminated"
  using insert_loop_ends[OF cstring_cstr_at, of 0 tar h "root_inode s" st en ty s]
  by (auto simp: InsertIntoRoot_def hdr_name_def)

text \<open>The number of whole blocks a file takes.\<close>

definition blocks :: "nat \<Rightarrow> nat" where
  "blocks n = (n + 511) div 512"

lemma blocks_alt: "blocks n = (if n mod 512 = 0 then n div 512 else n div 512 + 1)"
proof -
  define q r where "q = n div 512" and "r = n mod 512"
  then have n: "n = 512 * q + r" "r < 512" by simp_all
  have "(512 * q + r + 511) div 512 = (if r = 0 then q else q + 1)"
    using n(2) by (auto intro!: div_nat_eqI)
  then show ?thesis using n by (simp add: blocks_def)
qed

lemma next_header_blocks:
  assumes "unat sz < 2 ^ 31"
  shows "next_header h sz = h + 512 * (1 + int (blocks (unat sz)))"
proof -
  let ?n = "unat sz"
  have "to_int32 (sz div 512) = int (?n div 512)"
    using to_int32_small[of "sz div 512"] assms by (simp add: unat_div)
  moreover have "sz mod 512 = 0 \<longleftrightarrow> ?n mod 512 = 0"
    by (simp add: word_unat_eq_iff unat_mod)
  ultimately show ?thesis by (simp add: next_header_def blocks_alt)
qed

definition sizes_ok :: "archive \<Rightarrow> bool" where
  "sizes_ok tar \<longleftrightarrow> (\<forall>k < length tar. 512 * k < length tar \<longrightarrow>
     0 \<le> oct_to_dec (hdr_size tar (512 * k)) \<and> oct_to_dec (hdr_size tar (512 * k)) < 2 ^ 31)"

lemma init_loop_ends:
  assumes "sizes_ok tar"
  shows "\<exists>r. init_loop tar base (512 * int k) s = Some r \<and> r \<noteq> Inl Unterminated"
proof (induction "length tar - k" arbitrary: k s rule: less_induct)
  case less
  show ?case
  proof (cases "512 * k < length tar")
    case False
    then show ?thesis by (subst init_loop.simps) (simp add: nat_mult_distrib)
  next
    case True
    let ?h = "nat (512 * int k)"
    have h: "?h = 512 * k" by (simp add: nat_mult_distrib)
    define x where "x = oct_to_dec (hdr_size tar (512 * k))"
    have x: "0 \<le> x" "x < 2 ^ 31" using assms True by (auto simp: sizes_ok_def x_def)
    let ?sz = "of_int x :: u64"
    have "?sz = of_nat (nat x)" using x by simp
    then have u: "unat ?sz = nat x" using x by (simp only:) (intro unat_of_nat_small; simp)
    then have nh: "next_header (512 * int k) ?sz = 512 * int (k + 1 + blocks (nat x))"
      using next_header_blocks[of ?sz "512 * int k"] x by simp
    have IH: "\<exists>r. init_loop tar base (512 * int (k + 1 + blocks (nat x))) s' = Some r \<and> r \<noteq> Inl Unterminated"
      for s' :: "'a vfs_scheme"
      by (rule less.hyps) (use True in simp)
    have I: "InsertIntoRoot (hdr_name tar (512 * k)) st en ty s' \<noteq> Inl Unterminated"
      for st en ty and s' :: "'a vfs_scheme" by (rule InsertIntoRoot_ends)
    show ?thesis
      using True IH I
      by (subst init_loop.simps) (auto simp: h nh Let_def x_def[symmetric] split: sum.splits)
  qed
qed

section \<open>A small file system\<close>

text \<open>The root with the directory \<open>bin\<close>, and in it the file \<open>sbush\<close>.\<close>

definition fs_heap :: "inode heap" where
  "fs_heap = [0x100 \<mapsto> \<lparr>istart = 0, iend = 1, family = [0x100, 0x200], itype = DIR, inodeName = ''/''\<rparr>,
     0x200 \<mapsto> \<lparr>istart = 0, iend = 0, family = [0x100, 0x300], itype = DIR, inodeName = ''bin''\<rparr>,
     0x300 \<mapsto> \<lparr>istart = 0x5000, iend = 0x5400, family = [0x200], itype = FILE, inodeName = ''sbush''\<rparr>]"

definition fs_small :: vfs where
  "fs_small = vmm.extend vm_small \<lparr>inodes = fs_heap, root_inode = 0x100, dirs = Map.empty, dir_recycle_list = 0\<rparr>"

lemma fs_small_simps [simp]:
  "inodes fs_small = fs_heap" "root_inode fs_small = 0x100" "kern_VA fs_small = 0x1000"
  by (simp_all add: fs_small_def vmm.defs vm_small_def machine.defs)

lemma fs_wf_heap: "fs_wf fs_heap 0x1000" "0x100 \<in> dom fs_heap"
  by (auto simp: fs_wf_def fs_heap_def cstring_def)

lemma tokens_ls: "tokens CHR ''/'' ''/bin/ls'' = [''bin'', ''ls'']"
  by (simp add: tokens.simps)

section \<open>Properties\<close>

text \<open>C31. A path lookup of a well-formed file system is the walk over the words of the path
  that takes, in every directory, the first child whose name starts with the word; it
  returns the null pointer exactly when some word has no such child, and it changes nothing
  but the top of the kernel heap.\<close>

theorem GetInode_walks:
  fixes s :: "'a vfs_scheme"
  assumes "fs_wf (inodes s) hi" and "root_inode s \<in> dom (inodes s)" and "cstring pth"
  shows "\<exists>k. GetInode pth s =
    Inr ((case lookup (inodes s) (root_inode s) (tokens CHR ''/'' pth) of None \<Rightarrow> 0 | Some a \<Rightarrow> a),
         s\<lparr>kern_VA := k\<rparr>)"
  by (rule GetInode_lookup[OF assms])

theorem GetInode_walks_witness:
  "\<exists>k. GetInode ''/bin/ls'' fs_small =
    Inr ((case lookup (inodes fs_small) (root_inode fs_small) (tokens CHR ''/'' ''/bin/ls'') of
            None \<Rightarrow> 0 | Some a \<Rightarrow> a), fs_small\<lparr>kern_VA := k\<rparr>)"
  by (rule GetInode_walks[of fs_small "0x1000"]) (simp_all add: fs_wf_heap cstring_def)

text \<open>C10. Inserting a path into a file system with room for it succeeds, keeps the file system
  well-formed, and a lookup of the path then returns an inode; when the path was not found
  before, that inode has the data range and type that were given. Every path that was
  found before still leads to the same inode.\<close>

theorem InsertIntoRoot_lookup:
  fixes s :: "'a vfs_scheme"
  assumes "fs_wf (inodes s) (unat (kern_VA s))" and "root_inode s \<in> dom (inodes s)" and "cstring pth"
    and "\<forall>t \<in> set (tokens CHR ''/'' pth). length t < NAME_MAX"
    and "room (inodes s) (root_inode s) (tokens CHR ''/'' pth)"
    and "unat (kern_VA s) + length (tokens CHR ''/'' pth) * (length pth + 365) < 2 ^ 64"
  shows "\<exists>s' a k. InsertIntoRoot pth st en ty s = Inr s' \<and>
    fs_wf (inodes s') (unat (kern_VA s')) \<and> root_inode s' = root_inode s \<and>
    GetInode pth s' = Inr (a, s'\<lparr>kern_VA := k\<rparr>) \<and> a \<noteq> 0 \<and>
    (lookup (inodes s) (root_inode s) (tokens CHR ''/'' pth) = None \<longrightarrow> created (inodes s') a st en ty) \<and>
    (\<forall>ts b. lookup (inodes s) (root_inode s) ts = Some b \<longrightarrow> lookup (inodes s') (root_inode s) ts = Some b)"
proof -
  let ?ts = "tokens CHR ''/'' pth"
  obtain k h where r: "insert_loop pth 0 (root_inode s) st en ty s = Some (Inr (s\<lparr>kern_VA := k, inodes := h\<rparr>))"
      "fs_wf h (unat k)" "inserted (inodes s) h (root_inode s) ?ts st en ty"
    using insert_loop_spec[OF assms(3,1,2), of 0 st en ty] assms(4-6) by auto
  let ?s = "s\<lparr>kern_VA := k, inodes := h\<rparr>"
  have g: "grows (inodes s) h" using r(3) by (simp add: inserted_def)
  obtain a where a: "lookup h (root_inode s) ?ts = Some a \<and> a \<in> dom h \<and>
      (lookup (inodes s) (root_inode s) ?ts = None \<longrightarrow> created h a st en ty)"
    using r(3)[unfolded inserted_def, THEN conjunct2] by (rule exE)
  have "root_inode ?s \<in> dom (inodes ?s)" using assms(2) g by (fastforce simp: grows_def)
  then obtain k' where "GetInode pth ?s = Inr (a, ?s\<lparr>kern_VA := k'\<rparr>)"
    using GetInode_lookup[of ?s "unat k" pth] r(2) assms(3) a by auto
  moreover have "a \<noteq> 0" using a r(2) by (auto simp: fs_wf_def)
  moreover have "InsertIntoRoot pth st en ty s = Inr ?s" using r(1) by (simp add: InsertIntoRoot_def)
  ultimately show ?thesis
    using r(2) a lookup_grows[OF g assms(1)] by (intro exI[of _ ?s] exI[of _ a] exI[of _ k']) auto
qed

theorem InsertIntoRoot_lookup_witness:
  "\<exists>s' a k. InsertIntoRoot ''/bin/ls'' 0x6000 0x6100 FILE fs_small = Inr s' \<and>
    fs_wf (inodes s') (unat (kern_VA s')) \<and> root_inode s' = root_inode fs_small \<and>
    GetInode ''/bin/ls'' s' = Inr (a, s'\<lparr>kern_VA := k\<rparr>) \<and> a \<noteq> 0 \<and>
    (lookup (inodes fs_small) (root_inode fs_small) (tokens CHR ''/'' ''/bin/ls'') = None \<longrightarrow>
       created (inodes s') a 0x6000 0x6100 FILE) \<and>
    (\<forall>ts b. lookup (inodes fs_small) (root_inode fs_small) ts = Some b \<longrightarrow>
       lookup (inodes s') (root_inode fs_small) ts = Some b)"
  by (rule InsertIntoRoot_lookup) (use fs_wf_heap in \<open>auto simp: tokens_ls cstring_def fs_heap_def child_def\<close>)

text \<open>The decoder of octal fields returns the base 8 value of the digits, leading zeros
  included; with at most nine significant digits the decimal number it builds on the way
  fits in an \<open>int\<close>.\<close>

theorem oct_to_dec_value:
  assumes "\<forall>c \<in> set cs. octal c" and "length cs \<le> 9"
  shows "oct_to_dec (replicate z CHR ''0'' @ cs) = digits_in 8 cs \<and>
    read_digits (replicate z CHR ''0'' @ cs) 0 < 2 ^ 31"
proof -
  have r: "read_digits (replicate z CHR ''0'' @ cs) 0 = digits_in 10 cs"
  proof -
    have "(10 :: int) ^ length cs \<le> 10 ^ 9" using assms(2) by (intro power_increasing) simp_all
    then have "(0 + 1) * (10 :: int) ^ length cs \<le> 2 ^ 31" by simp
    then show ?thesis
      using read_digits_foldl[OF assms(1), of 0] by (simp add: read_digits_zeros digits_in_def)
  qed
  have "digits_in 10 cs < 10 ^ length cs" by (rule digits_in_bound[OF assms(1)])
  also have "(10 :: int) ^ length cs \<le> 10 ^ 9" using assms(2) by (intro power_increasing) simp_all
  also have "\<dots> < (2 :: int) ^ 31" by simp
  finally show ?thesis
    using weigh_digits[OF assms(1), of 0 0] by (simp add: oct_to_dec_def r)
qed

theorem oct_to_dec_value_witness:
  "oct_to_dec (replicate 7 CHR ''0'' @ ''1750'') = digits_in 8 ''1750'' \<and>
    read_digits (replicate 7 CHR ''0'' @ ''1750'') 0 < 2 ^ 31"
  by (rule oct_to_dec_value) (simp_all add: octal_def)


text \<open>\<open>SplitString\<close> returns the words of a string in order, with their number, when there
  are fewer than twenty of them; with twenty words or more it writes behind the end of the
  pointer array it has allocated.\<close>

theorem SplitString_words:
  fixes s :: "'a vmm_scheme"
  assumes "cstring str" and "length str < 1024"
  shows "\<exists>k. SplitString str s =
    (if length (tokens CHR '' '' str) < 20
     then Inr (tokens CHR '' '' str, length (tokens CHR '' '' str), s\<lparr>kern_VA := k\<rparr>)
     else Inl OutOfBounds)"
proof -
  let ?s = "s\<lparr>kern_VA := kern_VA s + 1024 + 160\<rparr>"
  obtain k where "split_loop str 0 [] ?s = Some (if length (tokens CHR '' '' str) < 20
      then Inr (tokens CHR '' '' str, ?s\<lparr>kern_VA := k\<rparr>) else Inl OutOfBounds)"
    using split_loop_tokens[OF assms(1) le0, of "[]" ?s] by (simp only: drop0 append_Nil list.size add_0) (elim exE)
  then show ?thesis
    using assms by (intro exI[of _ k]) (simp add: SplitString_def kmalloc_Inr strlen_cstring)
qed

theorem SplitString_words_witness:
  "\<exists>k. SplitString ''ls -l bin'' vm_small =
    (if length (tokens CHR '' '' ''ls -l bin'') < 20
     then Inr (tokens CHR '' '' ''ls -l bin'', length (tokens CHR '' '' ''ls -l bin''), vm_small\<lparr>kern_VA := k\<rparr>)
     else Inl OutOfBounds)"
  by (rule SplitString_words) (simp_all add: cstring_def)

text \<open>An archive with the file \<open>a\<close> that holds five bytes.\<close>

definition tar_small :: archive where
  "tar_small = ''a'' @ replicate 123 NUL @ ''00000000005'' @ replicate 21 NUL @ ''0'' @
     replicate 355 NUL @ ''hello'' @ replicate 507 NUL"

lemma hdr_size_small: "hdr_size tar_small 0 = ''00000000005''" "hdr_size tar_small 512 = []"
  by (simp_all add: hdr_size_def cstr_at_def tar_small_def)

lemma sizes_ok_small: "sizes_ok tar_small"
proof -
  have "k = 0 \<or> k = 1" if "512 * k < length tar_small" for k
    using that by (simp add: tar_small_def) linarith
  moreover have "digits_in 8 ''5'' = 5" by (simp add: digits_in_def schar_def)
  then have "oct_to_dec (replicate 10 CHR ''0'' @ ''5'') = 5"
    using oct_to_dec_value[of "''5''" 10] by (simp add: octal_def)
  then have "oct_to_dec ''00000000005'' = 5" by (simp add: eval_nat_numeral)
  moreover have "oct_to_dec [] = 0" by (simp add: oct_to_dec_def weigh.simps)
  ultimately have "oct_to_dec (hdr_size tar_small (512 * k)) \<in> {0, 5}"
      if "512 * k < length tar_small" for k
    using that hdr_size_small by fastforce
  then show ?thesis by (fastforce simp: sizes_ok_def)
qed


end
