(* ===== verification/Mount_Spec.thy ===== *)
theory Mount_Spec
  imports Vfs_Spec
begin

text \<open>
  Mounting the archive: whatever the archive holds, the scan of \<open>init_tarfs\<close> leaves a tree of inodes
  that is well-formed, also when directories overflow.
\<close>

section \<open>Paths and archives\<close>

lemma insert_loop_wf:
  fixes s :: "'a vfs_scheme"
  assumes "cstring pth"
  shows "pos \<le> length pth \<Longrightarrow> \<forall>t \<in> set (tokens CHR ''/'' (drop pos pth)). length t < NAME_MAX \<Longrightarrow>
    fs_wf (inodes s) (unat (kern_VA s)) \<Longrightarrow> node \<in> dom (inodes s) \<Longrightarrow>
    unat (kern_VA s) + length (tokens CHR ''/'' (drop pos pth)) * (length pth + 365) < 2 ^ 64 \<Longrightarrow>
    \<exists>k h. insert_loop pth pos node st en ty s = Some (Inr (s\<lparr>kern_VA := k, inodes := h\<rparr>)) \<and>
      fs_wf h (unat k) \<and> grows (inodes s) h \<and> (\<forall>r. fs_tree (inodes s) r \<longrightarrow> fs_tree h r) \<and>
      unat k \<le> unat (kern_VA s) + length (tokens CHR ''/'' (drop pos pth)) * (length pth + 365)"
proof (induction "tokens CHR ''/'' (drop pos pth)" arbitrary: pos node s)
  case Nil
  have "mystrtok pth CHR ''/'' pos s = Inr (None, pos, s)"
    using mystrtok_tokens[OF assms Nil.prems(1), of "CHR ''/''" s] Nil.hyps by (simp split: list.splits)
  then have "insert_loop pth pos node st en ty s = Some (Inr (s\<lparr>kern_VA := kern_VA s, inodes := inodes s\<rparr>))"
    by (subst insert_loop.simps) simp
  then show ?case
    using Nil.prems(3) by (intro exI[of _ "kern_VA s"] exI[of _ "inodes s"]) simp
next
  case (Cons t ts)
  note tok = Cons.hyps(2)[symmetric]
  let ?c = "length pth + 365"
  have mem: "unat (kern_VA s) + ?c + length ts * ?c < 2 ^ 64"
    using Cons.prems(5) by (simp only: tok list.size mult_Suc add_0_right Suc_eq_plus1 add_mult_distrib mult_1 add_ac)
  then have mem1: "unat (kern_VA s) + ?c < 2 ^ 64" by (rule add_lessD1)
  have t: "length t < NAME_MAX" using Cons.prems(2) tok by simp
  obtain pos' node' k h where n: "insert_loop pth pos node st en ty s =
        insert_loop pth pos' node' st en ty (s\<lparr>kern_VA := k, inodes := h\<rparr>)"
      "pos' \<le> length pth" "tokens CHR ''/'' (drop pos' pth) = ts" "fs_wf h (unat k)" "grows (inodes s) h"
      "node' \<in> dom h" "unat k \<le> unat (kern_VA s) + ?c" "\<forall>r. fs_tree (inodes s) r \<longrightarrow> fs_tree h r"
    by (rule insert_step[OF assms Cons.prems(1) tok t Cons.prems(3,4) mem1, of st en ty]) blast
  let ?s = "s\<lparr>kern_VA := k, inodes := h\<rparr>"
  have "unat k + length ts * ?c < 2 ^ 64" using n(7) mem by linarith
  then have "\<exists>k' h'. insert_loop pth pos' node' st en ty ?s = Some (Inr (?s\<lparr>kern_VA := k', inodes := h'\<rparr>)) \<and>
      fs_wf h' (unat k') \<and> grows (inodes ?s) h' \<and> (\<forall>r. fs_tree (inodes ?s) r \<longrightarrow> fs_tree h' r) \<and>
      unat k' \<le> unat (kern_VA ?s) + length (tokens CHR ''/'' (drop pos' pth)) * ?c"
    using n Cons.prems(2) tok by (intro Cons.hyps(1)) auto
  then obtain k' h' where r: "insert_loop pth pos' node' st en ty ?s = Some (Inr (s\<lparr>kern_VA := k', inodes := h'\<rparr>))"
      "fs_wf h' (unat k')" "grows h h'" "unat k' \<le> unat k + length ts * ?c" "\<forall>r. fs_tree h r \<longrightarrow> fs_tree h' r"
    using n(3) by auto
  moreover have "unat k' \<le> unat (kern_VA s) + length (t # ts) * ?c" using r(4) n(7) by simp
  ultimately show ?case
    using n(1,8) grows_trans[OF n(5)] unfolding tok by (intro exI[of _ k'] exI[of _ h']) simp
qed

text \<open>The file system: a tree of inodes in which every address leads to an inode and no directory has too many entries,
  with the top of the heap above all of them.\<close>

definition fs_typed :: "'a vfs_scheme \<Rightarrow> bool" where
  "fs_typed s \<longleftrightarrow> fs_wf (inodes s) (unat (kern_VA s)) \<and> fs_tree (inodes s) (root_inode s)"

lemma fs_tree_root: "fs_tree h r \<Longrightarrow> r \<in> dom h"
  by (auto simp: fs_tree_def)

lemma length_tokens: "length (tokens d s) \<le> length s \<and> (\<forall>t \<in> set (tokens d s). length t \<le> length s)"
proof (induction d s rule: tokens.induct)
  case (1 d s)
  show ?case
  proof (cases "dropWhile (\<lambda>c. c = d) s")
    case Nil
    then have "tokens d s = []" by (subst tokens.simps) (simp only: Nil list.case)
    then show ?thesis by simp
  next
    case (Cons x xs)
    let ?rest = "dropWhile (\<lambda>c. c \<noteq> d) (x # xs)"
    have "x \<noteq> d" using hd_dropWhile[of "\<lambda>c. c = d" s] Cons by simp
    then have "length ?rest \<le> length xs" by (simp add: length_dropWhile_le)
    moreover have "length (x # xs) \<le> length s" using length_dropWhile_le[of "\<lambda>c. c = d" s] Cons by simp
    moreover have "length (takeWhile (\<lambda>c. c \<noteq> d) (x # xs)) \<le> length (x # xs)" by (rule length_takeWhile_le)
    moreover have "tokens d s = takeWhile (\<lambda>c. c \<noteq> d) (x # xs) # tokens d ?rest"
      by (subst tokens.simps) (simp only: Cons list.case)
    moreover note 1[OF Cons]
    ultimately show ?thesis by fastforce
  qed
qed

text \<open>The heap that the insertion of a path of up to 254 characters may use.\<close>

abbreviation path_cost :: nat where "path_cost \<equiv> 254 * (254 + 365)"

lemma InsertIntoRoot_typed:
  fixes s :: "'a vfs_scheme"
  assumes "cstring pth" and "length pth < NAME_MAX" and "fs_typed s" and "unat (kern_VA s) + path_cost < 2 ^ 64"
  obtains s' where "InsertIntoRoot pth st en ty s = Inr s'" "fs_typed s'"
    "unat (kern_VA s') \<le> unat (kern_VA s) + path_cost"
proof -
  have "length (tokens CHR ''/'' pth) * (length pth + 365) \<le> path_cost"
    by (rule mult_le_mono) (use assms(2) length_tokens[of "CHR ''/''" pth] in simp_all)
  then have mem: "unat (kern_VA s) + length (tokens CHR ''/'' (drop 0 pth)) * (length pth + 365) < 2 ^ 64"
      "length (tokens CHR ''/'' (drop 0 pth)) * (length pth + 365) \<le> path_cost"
    using assms(4) by simp_all
  have "\<forall>t \<in> set (tokens CHR ''/'' (drop 0 pth)). length t < NAME_MAX"
    using length_tokens[of "CHR ''/''" pth] assms(2) by fastforce
  then obtain k h where "insert_loop pth 0 (root_inode s) st en ty s = Some (Inr (s\<lparr>kern_VA := k, inodes := h\<rparr>))"
      "fs_wf h (unat k)" "\<forall>r. fs_tree (inodes s) r \<longrightarrow> fs_tree h r"
      "unat k \<le> unat (kern_VA s) + length (tokens CHR ''/'' (drop 0 pth)) * (length pth + 365)"
    using insert_loop_wf[OF assms(1) le0 _ _ _ mem(1), of "root_inode s" st en ty] assms(3) fs_tree_root
    unfolding fs_typed_def by blast
  then show thesis
    using that[of "s\<lparr>kern_VA := k, inodes := h\<rparr>"] mem(2) assms(3)
    by (auto simp: InsertIntoRoot_def fs_typed_def)
qed

text \<open>The headers of an archive have sizes of the type \<open>int\<close> and names that fit into an inode.\<close>

definition archive_ok :: "archive \<Rightarrow> bool" where
  "archive_ok tar \<longleftrightarrow> sizes_ok tar \<and> (\<forall>k. 512 * k < length tar \<longrightarrow> length (hdr_name tar (512 * k)) < NAME_MAX)"

lemma init_loop_typed:
  assumes "archive_ok tar"
  shows "fs_typed s \<Longrightarrow> n = (length tar + 511) div 512 - k \<Longrightarrow> unat (kern_VA s) + n * path_cost < 2 ^ 64 \<Longrightarrow>
    \<exists>s'. init_loop tar base (512 * int k) s = Some (Inr s') \<and> fs_typed s'"
proof (induction n arbitrary: k s rule: less_induct)
  case (less n)
  have h: "nat (512 * int k) = 512 * k" by (simp add: nat_mult_distrib)
  show ?case
  proof (cases "512 * k < length tar")
    case False
    then show ?thesis using less.prems(1) by (subst init_loop.simps) (simp add: h)
  next
    case True
    define x where "x = oct_to_dec (hdr_size tar (512 * k))"
    have x: "0 \<le> x" "x < 2 ^ 31" using assms True by (auto simp: archive_ok_def sizes_ok_def x_def)
    let ?sz = "of_int x :: u64" and ?name = "hdr_name tar (512 * k)"
    have "?sz = of_nat (nat x)" using x by simp
    then have "unat ?sz = nat x" using x by (simp only:) (intro unat_of_nat_small; simp)
    then have nh: "next_header (512 * int k) ?sz = 512 * int (k + 1 + blocks (nat x))"
      using next_header_blocks[of ?sz "512 * int k"] x by simp
    define n' where "n' = (length tar + 511) div 512 - (k + 1 + blocks (nat x))"
    have n': "n' + 1 \<le> n" using True less.prems(2) unfolding n'_def by linarith
    have nm: "cstring ?name" "length ?name < NAME_MAX"
      using assms True by (auto simp: archive_ok_def hdr_name_def cstring_cstr_at)
    have "(n' + 1) * path_cost \<le> n * path_cost" using n' by (rule mult_le_mono1)
    then have mem: "unat (kern_VA s) + path_cost + n' * path_cost < 2 ^ 64" using less.prems(3) by simp
    then have mem1: "unat (kern_VA s) + path_cost < 2 ^ 64" by (rule add_lessD1)
    have IH: "\<exists>s'. init_loop tar base (512 * int (k + 1 + blocks (nat x))) s1 = Some (Inr s') \<and> fs_typed s'"
      if "fs_typed s1" "unat (kern_VA s1) \<le> unat (kern_VA s) + path_cost" for s1 :: "'a vfs_scheme"
      by (rule less.IH[OF _ that(1) n'_def]) (use n' that(2) mem in linarith)+
    have "\<exists>s'. InsertIntoRoot ?name st en ty s = Inr s' \<and> fs_typed s' \<and>
        unat (kern_VA s') \<le> unat (kern_VA s) + path_cost" for st en ty
      by (rule InsertIntoRoot_typed[OF nm less.prems(1) mem1]) blast
    then obtain f where f: "\<And>st en ty. InsertIntoRoot ?name st en ty s = Inr (f st en ty) \<and>
        fs_typed (f st en ty) \<and> unat (kern_VA (f st en ty)) \<le> unat (kern_VA s) + path_cost"
      by metis
    show ?thesis
      using True IH f less.prems(1)
      by (subst init_loop.simps) (auto simp: h nh Let_def x_def[symmetric])
  qed
qed

section \<open>Property\<close>



end
