(* ===== verification/Console.thy ===== *)
theory Console
  imports C_Strings "HOL-Library.Signed_Division"
begin

text \<open>
  The text console and the keyboard: \<open>sys/kprintf.c\<close>, \<open>sys/keyboardMap.c\<close>, \<open>sys/terminal.c\<close> and
  the timer handler of \<open>sys/yomama.c\<close>. The frame buffer is the byte array that starts at
  \<open>videostart\<close>: 25 lines of 80 cells, a character and a colour byte each. The state of the
  keyboard and the input line of the terminal are kept in the same record.
\<close>

section \<open>State\<close>

record console =
  vram :: "u64 \<Rightarrow> u8"
  video :: u64
  videostart :: u64
  data_written :: nat
  shiftKey :: int
  ctrlKey :: int
  stdin :: string
  stdinlength :: nat
  READMODEON :: bool
  frac_time :: int
  time :: int
  time_in_sec :: int

text \<open>
  Arguments of a \<open>printf\<close> call; taking one that is not there, or of another type, is undefined.
\<close>

datatype vararg = VStr string | VInt int | VU64 u64

section \<open>The screen\<close>

text \<open>\<open>*p++ = ch; *p++ = colour;\<close>\<close>

definition put2 :: "char \<Rightarrow> u8 \<Rightarrow> u64 \<Rightarrow> (u64 \<Rightarrow> u8) \<Rightarrow> u64 \<Rightarrow> u8" where
  "put2 ch colour p m = m(p := of_char ch, p + 1 := colour)"

definition put_cell :: "char \<Rightarrow> u8 \<Rightarrow> console \<Rightarrow> console" where
  "put_cell ch colour c = c\<lparr>vram := put2 ch colour (video c) (vram c), video := video c + 2,
     data_written := data_written c + 1\<rparr>"

text \<open>A run of cells from an address on, as the clock and the key display write it.\<close>

fun put_run :: "string \<Rightarrow> u8 \<Rightarrow> u64 \<Rightarrow> (u64 \<Rightarrow> u8) \<Rightarrow> u64 \<Rightarrow> u8" where
  "put_run [] colour p m = m"
| "put_run (ch # cs) colour p m = put_run cs colour (p + 2) (put2 ch colour p m)"

definition flushLastKeyPress :: "char \<Rightarrow> char \<Rightarrow> console \<Rightarrow> console" where
  "flushLastKeyPress a b c =
     c\<lparr>vram := put_run (''KEY PRESSED: '' @ [a, b]) 7 (videostart c + 160 * 24 + 128) (vram c)\<rparr>"

text \<open>
  The digits of a number, least significant first, as the loops \<open>while(text)\<close> of \<open>flushint\<close>
  and \<open>flushtime\<close> store them; the C operators truncate towards zero.
\<close>

function rev_digits :: "int \<Rightarrow> string" where
  "rev_digits n =
     (if n = 0 then []
      else to_char (n smod 10 + schar CHR ''0'') # rev_digits (n sdiv 10))"
  by pat_completeness auto
termination
proof (relation "measure (\<lambda>n. nat \<bar>n\<bar>)")
  fix n :: int
  assume "n \<noteq> 0"
  then have "\<bar>n sdiv 10\<bar> = \<bar>n\<bar> div 10" "\<bar>n\<bar> div 10 < \<bar>n\<bar>"
    by (simp_all add: signed_divide_int_def abs_mult abs_sgn_eq int_div_less_self)
  then show "(n sdiv 10, n) \<in> measure (\<lambda>n. nat \<bar>n\<bar>)" by simp
qed simp

declare rev_digits.simps [simp del]

text \<open>The in-place reversal: two indices that move towards each other.\<close>

function swap_loop :: "string \<Rightarrow> nat \<Rightarrow> nat \<Rightarrow> string" where
  "swap_loop str j i =
     (if j < i then swap_loop (str[i := str ! j, j := str ! i]) (j + 1) (i - 1) else str)"
  by pat_completeness auto
termination by (relation "measure (\<lambda>(_, j, i). i - j)") auto

declare swap_loop.simps [simp del]

definition reverse_in_place :: "string \<Rightarrow> string" where
  "reverse_in_place str = (if str = [] then str else swap_loop str 0 (length str - 1))"

text \<open>\<open>flushtime\<close>; for 0 seconds the digit string is empty.\<close>

definition flushtime :: "int \<Rightarrow> console \<Rightarrow> console" where
  "flushtime seconds c =
     c\<lparr>vram := put_run (''BOOT TIME: '' @ reverse_in_place (rev_digits seconds)) 7
                 (videostart c + 160 * 24 + 88) (vram c)\<rparr>"

text \<open>
  Scrolling moves the lower half of the text area up and clears it; the last line of the
  screen is kept for the clock and the key display.
\<close>

definition checkForScroll :: "console \<Rightarrow> console" where
  "checkForScroll c =
     (if data_written c \<ge> 80 * 24 then
        (let m = fold (\<lambda>k m. m(videostart c + of_nat k := m (videostart c + of_nat k + 160 * 12)))
                   [0..<160 * 12] (vram c);
             m = fold (\<lambda>k. put2 CHR '' '' 7 (videostart c + 160 * 12 + 2 * of_nat k)) [0..<80 * 12] m
         in c\<lparr>vram := m, video := videostart c + 160 * 12, data_written := 80 * 12\<rparr>)
      else c)"

definition flushbackspace :: "console \<Rightarrow> console" where
  "flushbackspace c =
     (if data_written c = 0 then c
      else c\<lparr>vram := put2 CHR '' '' 7 (video c - 2) (vram c), video := video c - 2,
             data_written := data_written c - 1\<rparr>)"

text \<open>The loop \<open>while(data_written%80 != 0)\<close>.\<close>

function pad_line :: "console \<Rightarrow> console" where
  "pad_line c =
     (if data_written c mod 80 = 0 then c
      else pad_line (c\<lparr>video := video c + 2, data_written := data_written c + 1\<rparr>))"
  by pat_completeness auto
termination
  by (relation "measure (\<lambda>c. (80 - data_written c mod 80) mod 80)") (auto simp: mod_Suc)

declare pad_line.simps [simp del]

text \<open>The loop over the text, up to its end or a newline; the rest of the text is returned.\<close>

fun flush_loop :: "u8 \<Rightarrow> string \<Rightarrow> console \<Rightarrow> string \<times> console" where
  "flush_loop colour [] c = ([], c)"
| "flush_loop colour (ch # cs) c =
     (if ch = NUL \<or> ch = CHR 0x0A then (ch # cs, c) else flush_loop colour cs (put_cell ch colour c))"

definition flush_with :: "u8 \<Rightarrow> string \<Rightarrow> console \<Rightarrow> console" where
  "flush_with colour txt c =
     (case flush_loop colour txt (checkForScroll c) of
        (r, c) \<Rightarrow> if cget r 0 = CHR 0x0A then pad_line c else c)"

definition flush :: "string \<Rightarrow> console \<Rightarrow> console" where
  "flush txt c = flush_with 7 txt c"

definition flushcolor :: "string \<Rightarrow> console \<Rightarrow> console" where
  "flushcolor txt c = flush_with 3 txt c"

definition flushchar :: "char \<Rightarrow> console \<Rightarrow> console" where
  "flushchar ch c = put_cell ch 7 (checkForScroll c)"

definition flushint :: "int \<Rightarrow> console \<Rightarrow> console" where
  "flushint n c = flush (if n = 0 then ''0'' else reverse_in_place (rev_digits n)) c"

definition hex_digit :: "nat \<Rightarrow> char" where
  "hex_digit rem = (if rem \<ge> 10 then char_of (97 + rem - 10) else char_of (rem + 48))"

text \<open>The loop \<open>do ... while(num)\<close> runs at least once.\<close>

function rev_hex :: "nat \<Rightarrow> string" where
  "rev_hex num = hex_digit (num mod 16) # (if num div 16 = 0 then [] else rev_hex (num div 16))"
  by pat_completeness auto
termination by (relation "measure id") auto

declare rev_hex.simps [simp del]

definition flushhex :: "u64 \<Rightarrow> console \<Rightarrow> console" where
  "flushhex num c = flush (reverse_in_place (rev_hex (unat num))) (flush ''0x'' c)"

function newline_loop :: "console \<Rightarrow> console" where
  "newline_loop c =
     (if data_written c mod 80 = 0 then c
      else newline_loop (c\<lparr>vram := (vram c)(video c + 1 := 7), video := video c + 2,
                           data_written := data_written c + 1\<rparr>))"
  by pat_completeness auto
termination
  by (relation "measure (\<lambda>c. (80 - data_written c mod 80) mod 80)") (auto simp: mod_Suc)

declare newline_loop.simps [simp del]

definition flushNewLine :: "console \<Rightarrow> console" where
  "flushNewLine c = newline_loop (checkForScroll c)"

text \<open>
  \<open>kprintf\<close>. The conversion \<open>%x\<close> hands its \<open>int\<close> to \<open>flushhex\<close>, which takes a \<open>uint64_t\<close>.
\<close>

fun kprintf :: "string \<Rightarrow> vararg list \<Rightarrow> console \<Rightarrow> console res" where
  "kprintf [] ap c = Inr c"
| "kprintf (ch # fmt) ap c =
     (if ch = CHR 0x0A then kprintf fmt ap (flushNewLine c)
      else if ch = CHR ''%'' \<and> cget fmt 0 = CHR ''s'' then
        (case ap of VStr s # ap \<Rightarrow> kprintf (tl fmt) ap (flush s c) | _ \<Rightarrow> Inl OutOfBounds)
      else if ch = CHR ''%'' \<and> cget fmt 0 = CHR ''c'' then
        (case ap of VInt d # ap \<Rightarrow> kprintf (tl fmt) ap (flushchar (to_char d) c) | _ \<Rightarrow> Inl OutOfBounds)
      else if ch = CHR ''%'' \<and> cget fmt 0 = CHR ''d'' then
        (case ap of VInt d # ap \<Rightarrow> kprintf (tl fmt) ap (flushint d c) | _ \<Rightarrow> Inl OutOfBounds)
      else if ch = CHR ''%'' \<and> cget fmt 0 = CHR ''x'' then
        (case ap of VInt d # ap \<Rightarrow> kprintf (tl fmt) ap (flushhex (of_int d) c) | _ \<Rightarrow> Inl OutOfBounds)
      else if ch = CHR ''%'' \<and> cget fmt 0 = CHR ''p'' then
        (case ap of VU64 a # ap \<Rightarrow> kprintf (tl fmt) ap (flushhex a c) | _ \<Rightarrow> Inl OutOfBounds)
      else kprintf fmt ap (flushchar ch c))"

text \<open>
  \<open>blankpage\<close>: the loop runs while \<open>video <= videostart + 160*24\<close>, so that it writes one cell of
  the last line.
\<close>

definition blankpage :: "console \<Rightarrow> console" where
  "blankpage c =
     c\<lparr>vram := fold (\<lambda>k. put2 CHR '' '' 7 (videostart c + 2 * of_nat k)) [0..<80 * 24 + 1] (vram c),
       video := videostart c, data_written := 0\<rparr>"

section \<open>The keyboard\<close>

text \<open>\<open>getScancode\<close> on the byte that port 0x60 delivers: a released key reads as \<open>0x38\<close>.\<close>

definition getScancode :: "u8 \<Rightarrow> int" where
  "getScancode port = (if sint port \<ge> 0 then sint port else 0x38)"

definition CheckIfSpecialKey :: "int \<Rightarrow> int" where
  "CheckIfSpecialKey key = (if key = 0x1D then 1 else if key = 0x2A \<or> key = 0x36 then 2 else 0)"

text \<open>\<open>MakeKeyboardMapping\<close>, in the order of the assignments: a later one replaces an earlier one.\<close>

definition MakeKeyboardMapping :: "(int \<times> char) list" where
  "MakeKeyboardMapping =
    [(0x04, CHR ''3''), (0x08, CHR ''7''), (0x0C, CHR ''-''), (0x10, CHR ''q''), (0x14, CHR ''t''),
     (0x18, CHR ''o''), (0x1C, CHR 0x0A), (0x20, CHR ''d''), (0x24, CHR ''j''), (0x28, CHR 0x27),
     (0x2C, CHR ''z''), (0x30, CHR ''b''), (0x34, CHR ''.''), (0x38, CHR ''#''), (0x3C, CHR ''#''),
     (0x40, CHR ''#''), (0x44, CHR ''#''), (0x48, CHR ''8''), (0x4C, CHR ''5''), (0x50, CHR ''2''),
     (0x58, CHR ''#''), (0x01, CHR ''#''), (0x05, CHR ''4''), (0x09, CHR ''8''), (0x0D, CHR ''=''),
     (0x11, CHR ''w''), (0x15, CHR ''y''), (0x19, CHR ''p''), (0x1D, CHR ''#''), (0x21, CHR ''f''),
     (0x25, CHR ''k''), (0x29, CHR 0x60), (0x2D, CHR ''x''), (0x31, CHR ''n''), (0x35, CHR ''/''),
     (0x39, CHR '' ''), (0x3D, CHR ''#''), (0x41, CHR ''#''), (0x45, CHR ''#''), (0x49, CHR ''9''),
     (0x4D, CHR ''6''), (0x51, CHR ''3''), (0x02, CHR ''1''), (0x06, CHR ''5''), (0x0A, CHR ''9''),
     (0x0E, CHR ''-''), (0x12, CHR ''e''), (0x16, CHR ''u''), (0x1A, CHR ''[''), (0x1E, CHR ''a''),
     (0x22, CHR ''g''), (0x26, CHR ''l''), (0x2E, CHR ''c''), (0x32, CHR ''m''), (0x3E, CHR ''_''),
     (0x42, CHR ''_''), (0x4A, CHR ''#''), (0x4E, CHR ''+''), (0x52, CHR ''0''), (0x03, CHR ''2''),
     (0x07, CHR ''6''), (0x0B, CHR ''0''), (0x0F, CHR 0x09), (0x13, CHR ''r''), (0x17, CHR ''i''),
     (0x1B, CHR '']''), (0x1F, CHR ''s''), (0x23, CHR ''h''), (0x27, CHR '';''), (0x2B, CHR 0x5C),
     (0x2F, CHR ''v''), (0x33, CHR '',''), (0x37, CHR ''*''), (0x3B, CHR ''#''), (0x3F, CHR ''#''),
     (0x43, CHR ''#''), (0x47, CHR ''7''), (0x4B, CHR ''4''), (0x4F, CHR ''1''), (0x53, CHR ''.''),
     (0x57, CHR ''#''), (0x1D, CHR ''#''), (0x35, CHR ''/''), (0x38, CHR ''#''), (0x53, CHR ''#''),
     (0x4F, CHR ''#''), (0x47, CHR ''#''), (0x2A, CHR ''#''), (0x36, CHR ''#''), (0x3A, CHR ''#'')]"

definition ScanCodeMap :: "int \<Rightarrow> char" where
  "ScanCodeMap = fold (\<lambda>(k, ch) m. m(k := ch)) MakeKeyboardMapping (\<lambda>_. NUL)"

definition getKeyBoardKey :: "int \<Rightarrow> console \<Rightarrow> char \<times> console" where
  "getKeyBoardKey key c =
     (if shiftKey c = 1 then (to_char (schar (ScanCodeMap key) - 32), c\<lparr>shiftKey := 0\<rparr>)
      else (ScanCodeMap key, c))"

definition getchar :: "u8 \<Rightarrow> console \<Rightarrow> char \<times> console" where
  "getchar port c =
     (let key = getScancode port
      in if CheckIfSpecialKey key = 2 then (CHR ''#'', c\<lparr>shiftKey := 1\<rparr>)
         else if CheckIfSpecialKey key = 1 then (CHR ''#'', c\<lparr>ctrlKey := 1\<rparr>)
         else getKeyBoardKey key c)"

section \<open>The terminal\<close>

definition LocalEcho :: "char \<Rightarrow> console \<Rightarrow> console" where
  "LocalEcho ch c =
     (if ctrlKey c \<noteq> 0 then flushchar ch (c\<lparr>ctrlKey := 0\<rparr>)
      else if ch = CHR ''-'' then flushbackspace c
      else flushchar ch c)"

text \<open>A store into the array \<open>stdin[1024]\<close>.\<close>

definition stdin_store :: "nat \<Rightarrow> char \<Rightarrow> console \<Rightarrow> console res" where
  "stdin_store i ch c = (if i < length (stdin c) then Inr (c\<lparr>stdin := (stdin c)[i := ch]\<rparr>) else Inl OutOfBounds)"

text \<open>
  \<open>tunnel\<close>, the handler of a key. The branch for a full line stores the terminator and goes on.
\<close>

definition tunnel :: "u8 \<Rightarrow> console \<Rightarrow> console res" where
  "tunnel port c =
     (case getchar port c of (ch, c) \<Rightarrow>
        if ch = CHR ''#'' then Inr c
        else if \<not> READMODEON c then Inr c
        else if stdinlength c < 1022 \<and> stdinlength c = 0 \<and> ch = CHR ''-'' then Inr c
        else rbind (if stdinlength c \<ge> 1022
                    then rbind (kprintf (''Cant support more than 1024 characters!'' @ [CHR 0x0A]) [] c)
                           (\<lambda>c. rbind (stdin_store (stdinlength c) NUL c) (\<lambda>c. Inr (c\<lparr>READMODEON := False\<rparr>)))
                    else Inr c) (\<lambda>c.
             let c = LocalEcho ch c in
             if ch = CHR 0x0A then
               rbind (stdin_store (stdinlength c) NUL (c\<lparr>READMODEON := False\<rparr>))
                 (\<lambda>c. Inr (c\<lparr>stdinlength := stdinlength c + 1\<rparr>))
             else if ch = CHR ''-'' then
               rbind (stdin_store (stdinlength c) CHR '' '' c)
                 (\<lambda>c. Inr (c\<lparr>stdinlength := stdinlength c - 1\<rparr>))
             else
               rbind (stdin_store (stdinlength c) ch c)
                 (\<lambda>c. Inr (c\<lparr>stdinlength := stdinlength c + 1\<rparr>))))"

text \<open>\<open>init_terminal\<close>: the fields with the functions are not changed afterwards.\<close>

definition init_terminal :: "console \<Rightarrow> console" where
  "init_terminal c = c\<lparr>stdinlength := 0\<rparr>"

section \<open>The clock\<close>

definition timemama :: "console \<Rightarrow> console" where
  "timemama c =
     (let c = c\<lparr>frac_time := frac_time c + 50\<rparr>
      in if frac_time c = 1000 then
           (let c = c\<lparr>time := time c + frac_time c, frac_time := 0\<rparr>;
                c = c\<lparr>time_in_sec := time c sdiv 1000\<rparr>
            in flushtime (time_in_sec c) c)
         else c)"

text \<open>\<open>WP2Keyboard\<close>, the key display that can be installed instead of \<open>tunnel\<close>.\<close>

definition WP2Keyboard :: "u8 \<Rightarrow> console \<Rightarrow> console" where
  "WP2Keyboard port c =
     (case getchar port c of (ch, c) \<Rightarrow>
        if ch \<noteq> CHR ''#'' then
          (if ctrlKey c \<noteq> 0 then flushLastKeyPress CHR ''^'' ch (c\<lparr>ctrlKey := 0\<rparr>)
           else flushLastKeyPress ch CHR '' '' c)
        else c)"

end
