(* ===== verification/Tasks.thy ===== *)
theory Tasks
  imports Vfs Console
begin

text \<open>
  Processes: \<open>sys/task_manager.c\<close> and the program loader of \<open>sys/tarfs.c\<close>. The process table
  \<open>all_pro\<close>, the ring buffer \<open>proc_Q\<close> of runnable processes, the set-up of page tables, user
  and kernel stacks and memory areas of a new process. The state extends that of the file
  system, so that a process operation acts on the same memory, page tables and heap objects.
\<close>

section \<open>State\<close>

record file_object =
  currentoffset :: u64
  node :: u64

text \<open>
  A process control block. \<open>pname\<close> and \<open>currentDir\<close> are buffers of 100 bytes; \<open>None\<close> is the null
  pointer. \<open>fd\<close> holds addresses of file objects.
\<close>

record PCB =
  sno :: u64
  pid :: u64
  ppid :: u64
  waitstate :: int
  waitingfor :: int
  signalling_child :: u64
  sigchild_state :: int
  mmstruct :: mm_struct
  fd :: "u64 list"
  heap_top :: u64
  pname :: "string option"
  currentDir :: "string option"
  entry_point :: u64
  u_stack :: u64
  u_stackbase :: u64
  k_stackbase :: u64
  k_stack :: u64
  pstate :: u64
  pcr3 :: u64
  pnext :: "nat option"

text \<open>
  \<open>rsp\<close> is the stack pointer as the inline assembly reads and writes it, \<open>initial_stack_top\<close> the
  address behind the boot stack, \<open>tarfs_img\<close> the archive, \<open>tarfs_start\<close> its address, and \<open>keys\<close> the bytes that the
  keyboard is going to deliver.
\<close>

record tasks = vfs +
  con :: console
  files :: "file_object heap"
  all_pro :: "nat \<Rightarrow> PCB"
  proc_Q :: "nat \<Rightarrow> u64"
  proc_descriptor :: "nat \<Rightarrow> u64"
  proc_start :: nat
  proc_end :: nat
  active :: "nat option"
  global_pid :: u64
  upml4 :: u64
  ustacktop :: u64
  kstackbase :: u64
  parent_stack :: "u8 list"
  rsp :: u64
  tss_rsp0 :: u64
  RING_0_MODE :: u64
  initial_stack_top :: u64
  tarfs_img :: archive
  tarfs_start :: u64
  keys :: "u8 list"

abbreviation PROC_SIZE :: nat where "PROC_SIZE \<equiv> 100"
abbreviation MAX_FD :: nat where "MAX_FD \<equiv> 20"
abbreviation NEW_PROC :: u64 where "NEW_PROC \<equiv> 0"
abbreviation RUNNING :: u64 where "RUNNING \<equiv> 1"
abbreviation ZOMBIE :: u64 where "ZOMBIE \<equiv> 2"
abbreviation DEAD :: u64 where "DEAD \<equiv> 5"
abbreviation WAITING_TO_LIVE :: int where "WAITING_TO_LIVE \<equiv> 1"
abbreviation WAITING_TO_DIE :: int where "WAITING_TO_DIE \<equiv> 2"

type_synonym 'a kernel = "'a tasks_scheme"

section \<open>Access to the tables\<close>

definition get_pcb :: "nat \<Rightarrow> 'a kernel \<Rightarrow> PCB res" where
  "get_pcb i s = (if i < PROC_SIZE then Inr (all_pro s i) else Inl OutOfBounds)"

definition upd_pcb :: "nat \<Rightarrow> (PCB \<Rightarrow> PCB) \<Rightarrow> 'a kernel \<Rightarrow> 'a kernel res" where
  "upd_pcb i f s =
     (if i < PROC_SIZE then Inr (s\<lparr>all_pro := (all_pro s)(i := f (all_pro s i))\<rparr>) else Inl OutOfBounds)"

definition set_descriptor :: "nat \<Rightarrow> u64 \<Rightarrow> 'a kernel \<Rightarrow> 'a kernel res" where
  "set_descriptor i v s =
     (if i < PROC_SIZE then Inr (s\<lparr>proc_descriptor := (proc_descriptor s)(i := v)\<rparr>) else Inl OutOfBounds)"

text \<open>The process that \<open>active\<close> points to.\<close>

definition act :: "'a kernel \<Rightarrow> nat res" where
  "act s = (case active s of None \<Rightarrow> Inl NullPointer | Some i \<Rightarrow> if i < PROC_SIZE then Inr i else Inl OutOfBounds)"

definition say :: "string \<Rightarrow> vararg list \<Rightarrow> 'a kernel \<Rightarrow> 'a kernel res" where
  "say fmt ap s = rbind (kprintf fmt ap (con s)) (\<lambda>c. Inr (s\<lparr>con := c\<rparr>))"

text \<open>
  The handlers of \<open>error.c\<close>: each prints a message and spins. The allocator, below the console,
  stops with \<open>OutOfMemory\<close> itself.
\<close>

definition ThrowSegmentationFault :: "u64 \<Rightarrow> 'a kernel \<Rightarrow> 'b res" where
  "ThrowSegmentationFault addr s =
     rbind (say (''Trying to access %p, Segmentation Fault! Going to kill!'' @ [CHR 0x0A]) [VU64 addr] s)
       (\<lambda>_. Inl (SegmentationFault addr))"

definition ThrowSecurityError :: "u64 \<Rightarrow> 'a kernel \<Rightarrow> 'b res" where
  "ThrowSecurityError addr s =
     rbind (say (''Exception: General Protection Fault : %p'' @ [CHR 0x0A]) [VU64 addr] s)
       (\<lambda>_. Inl (SecurityError addr))"

definition ThrowOutOfMemoryError :: "'a kernel \<Rightarrow> 'b res" where
  "ThrowOutOfMemoryError s = rbind (say (''DANGER! Out of Memory!!!'' @ [CHR 0x0A]) [] s) (\<lambda>_. Inl OutOfMemory)"

section \<open>The run queue\<close>

text \<open>\<open>proc_Q[proc_end]=...; proc_end=(proc_end + 1)%(PROC_SIZE + 1);\<close>\<close>

definition enqueue :: "u64 \<Rightarrow> 'a kernel \<Rightarrow> 'a kernel res" where
  "enqueue v s =
     (if proc_end s < PROC_SIZE + 1
      then Inr (s\<lparr>proc_Q := (proc_Q s)(proc_end s := v), proc_end := (proc_end s + 1) mod (PROC_SIZE + 1)\<rparr>)
      else Inl OutOfBounds)"

text \<open>The front of the queue, and its removal: \<open>proc_Q[proc_start]=-1; proc_start=(proc_start + 1)%(PROC_SIZE + 1);\<close>\<close>

definition queue_front :: "'a kernel \<Rightarrow> u64" where
  "queue_front s = proc_Q s (proc_start s)"

definition queue_pop :: "'a kernel \<Rightarrow> 'a kernel" where
  "queue_pop s = s\<lparr>proc_Q := (proc_Q s)(proc_start s := -1), proc_start := (proc_start s + 1) mod (PROC_SIZE + 1)\<rparr>"

partial_function (option) nextproc_loop :: "'a kernel \<Rightarrow> (nat option \<times> 'a kernel) res option" where
  "nextproc_loop s =
     (if proc_start s = proc_end s
      then Some (rbind (say (''0 process in the queue'' @ [CHR 0x0A]) [] s) (\<lambda>s. Inr (None, s)))
      else if proc_start s \<ge> PROC_SIZE + 1 then Some (Inl OutOfBounds)
      else
        (let i = unat (queue_front s);
             s = queue_pop s
         in if i \<ge> PROC_SIZE \<or> unat (sno (all_pro s i)) \<ge> PROC_SIZE then Some (Inl OutOfBounds)
            else if proc_descriptor s (unat (sno (all_pro s i))) = 1 \<and>
                    (pstate (all_pro s i) = RUNNING \<or> pstate (all_pro s i) = NEW_PROC)
            then Some (Inr (Some i, s))
            else nextproc_loop s))"

definition get_nextproc :: "'a kernel \<Rightarrow> (nat option \<times> 'a kernel) res" where
  "get_nextproc s = run_loop (nextproc_loop s)"

section \<open>The kernel's page table\<close>

partial_function (option) kernpage_loop ::
    "u64 \<Rightarrow> u64 \<Rightarrow> u64 \<Rightarrow> u64 \<Rightarrow> 'a kernel \<Rightarrow> (u64 \<times> 'a kernel) res option" where
  "kernpage_loop entry kernstart kernend j s =
     (if kernstart \<le> kernend then
        (case vstore64 (entry + 8 * j) (kernstart OR 3) s of
           Inl e \<Rightarrow> Some (Inl e)
         | Inr s \<Rightarrow> kernpage_loop entry (kernstart + 4096) kernend (j + 1) s)
      else Some (Inr (j, s)))"

text \<open>
  \<open>map_kernpt\<close> runs on the page tables of the boot loader. The four tables are 32768 bytes
  apart, as the code adds 4096 to pointers to \<open>uint64_t\<close>.
\<close>

definition map_kernpt :: "u64 \<Rightarrow> u64 \<Rightarrow> u64 \<Rightarrow> u64 \<Rightarrow> 'a kernel \<Rightarrow> 'a kernel res" where
  "map_kernpt kernmem physbase physfree kernend s =
     (let delta = kernmem - physbase;
          page_directory1 = delta + physfree + 4096;
          page_directory2 = page_directory1 + 8 * 4096;
          page_directory3 = page_directory2 + 8 * 4096;
          kernelpage = page_directory3 + 8 * 4096;
          entry = kernelpage + 8 * p4_index kernmem
      in rbind (rfold (\<lambda>i s. rbind (vstore64 (page_directory1 + 8 * of_nat i) 0 s) (\<lambda>s.
                  rbind (vstore64 (page_directory2 + 8 * of_nat i) 0 s) (\<lambda>s.
                  rbind (vstore64 (page_directory3 + 8 * of_nat i) 0 s) (\<lambda>s.
                    vstore64 (kernelpage + 8 * of_nat i) 0 s)))) [0..<512] s) (\<lambda>s.
         rbind (vstore64 (page_directory1 + 8 * p1_index kernmem) ((page_directory2 - delta) OR 7) s) (\<lambda>s.
         rbind (vstore64 (page_directory2 + 8 * p2_index kernmem) ((page_directory3 - delta) OR 7) s) (\<lambda>s.
         rbind (vstore64 (page_directory3 + 8 * p3_index kernmem) ((kernelpage - delta) OR 7) s) (\<lambda>s.
         rbind (vload64 (page_directory1 + 8 * 511) s) (\<lambda>e.
         rbind (say (''PML4: %p'' @ [CHR 0x0A]) [VU64 e] s) (\<lambda>s.
         rbind (run_loop (kernpage_loop entry physbase kernend 0 s)) (\<lambda>(j, s).
         rbind (vstore64 (page_directory1 + 8 * 510) ((page_directory1 - delta) OR 3) s) (\<lambda>s.
         rbind (say ''returning video: %p'' [VU64 (video (con s))] s) (\<lambda>s.
         rbind (vstore64 (entry + 8 * j) ((video (con s) AND 0xFFFFFFFFFF000) OR 7) s) (\<lambda>s.
           let s = s\<lparr>cr3 := page_directory1 - delta\<rparr>
           in Inr (s\<lparr>con := (con s)\<lparr>video := (kernmem + 4096 * j) OR (video (con s) AND 0xFFF),
                                     videostart := kernmem + 4096 * j\<rparr>,
                     kern_VA := kernmem + 4096 * (j + 2), upml4 := kernmem - 4096,
                     ustacktop := kernmem - 4096 - 4096 * 4096\<rparr>))))))))))))"

section \<open>User stacks\<close>

definition copy_parent_stack :: "'a kernel \<Rightarrow> 'a kernel res" where
  "copy_parent_stack s =
     rbind (act s) (\<lambda>a.
       let parent_stackbase = u_stackbase (all_pro s a)
       in rfold (\<lambda>i s. rbind (kload8 (parent_stackbase - of_nat i) s)
                   (\<lambda>(b, s). Inr (s\<lparr>parent_stack := (parent_stack s)[i := b]\<rparr>))) [0..<4096] s)"

text \<open>
  \<open>init_stack\<close>: the first process gets an empty stack, the others a copy of the parent's top
  page that was saved in \<open>parent_stack\<close>; their stack pointer keeps its distance to the base.
\<close>

definition init_stack :: "nat \<Rightarrow> 'a kernel \<Rightarrow> 'a kernel res" where
  "init_stack proc s =
     rbind (get_pcb proc s) (\<lambda>p.
       let top0 = (ustacktop s - 4096 * 2 * sno p) AND 0xFFFFFFFFFFFFF000
       in if pid p = 1 then
            rbind (rfold (\<lambda>i. kstore64 (top0 - of_nat i) 0) [0..<4097] s)
              (upd_pcb proc (\<lambda>p. p\<lparr>u_stack := top0, u_stackbase := top0\<rparr>))
          else
            rbind (upd_pcb proc (\<lambda>p. p\<lparr>u_stackbase := top0\<rparr>) s) (\<lambda>s.
            rbind (act s) (\<lambda>a.
              let parent_stackbase = u_stackbase (all_pro s a)
              in rfold (\<lambda>i s.
                   rbind (if parent_stackbase - of_nat i \<ge> u_stack (all_pro s a)
                          then upd_pcb proc (\<lambda>p. p\<lparr>u_stack := top0 - of_nat i\<rparr>) s else Inr s)
                     (\<lambda>s. kstore8 (top0 - of_nat i) (parent_stack s ! i) s)) [0..<4096] s)))"

section \<open>Page tables and memory areas\<close>

definition mappageTable :: "nat \<Rightarrow> 'a kernel \<Rightarrow> (u64 \<times> 'a kernel) res" where
  "mappageTable proc_index s =
     (let v_pml4 = upml4 s - 4096 * of_nat proc_index;
          p1 = window 0x1FE 0x1FE 0x1FE 0x1FE base0
      in rbind (map_phyaddr v_pml4 s) (\<lambda>(p_pml4, s).
           let p_pml4 = p_pml4 AND 0xFFFFFFFFFFFFF000
           in rbind (rfold (\<lambda>i. kstore64 (v_pml4 + 8 * of_nat i) 0) [0..<510] s) (\<lambda>s.
              rbind (kload64 (p1 + 8 * 511) s) (\<lambda>(e, s).
              rbind (kstore64 (v_pml4 + 8 * 511) e s) (\<lambda>s.
              rbind (kstore64 (v_pml4 + 8 * 510) ((p_pml4 AND 0xFFFFFFFFFFFFF000) OR 7) s) (\<lambda>s.
                Inr (p_pml4, s)))))))"

partial_function (option) childpg_loop ::
    "u64 \<Rightarrow> u64 \<Rightarrow> u64 \<Rightarrow> 'a kernel \<Rightarrow> 'a kernel res option" where
  "childpg_loop vaddr_start vaddr_end marked s =
     (if vaddr_start \<le> vaddr_end then
        (case get_phys_addr vaddr_start s of
           Inl e \<Rightarrow> Some (Inl e)
         | Inr r \<Rightarrow>
             (let paddr = r AND 0xFFFFFFFFFFFFF000
              in if paddr \<noteq> 0 \<and> paddr \<noteq> marked then
                   (case increment_reference_count paddr s of
                      Inl e \<Rightarrow> Some (Inl e)
                    | Inr s \<Rightarrow> childpg_loop (vaddr_start + 1) vaddr_end paddr s)
                 else childpg_loop (vaddr_start + 1) vaddr_end marked s))
      else Some (Inr s))"

definition increment_childpg_ref :: "u64 \<Rightarrow> u64 \<Rightarrow> 'a kernel \<Rightarrow> 'a kernel res" where
  "increment_childpg_ref vaddr_start vaddr_end s = run_loop (childpg_loop vaddr_start vaddr_end 0 s)"

text \<open>
  The inner loop of \<open>copy_vma\<close>: for every new page of the area, the child's page table gets a
  read-only entry for the parent's page.
\<close>

partial_function (option) share_loop ::
    "nat \<Rightarrow> nat \<Rightarrow> u64 \<Rightarrow> u64 \<Rightarrow> u64 \<Rightarrow> 'a kernel \<Rightarrow> 'a kernel res option" where
  "share_loop proc a start_addr end_addr marked s =
     (if start_addr \<le> end_addr then
        (case get_phys_addr start_addr s of
           Inl e \<Rightarrow> Some (Inl e)
         | Inr padd \<Rightarrow>
             if padd = 0 \<or> padd = marked then share_loop proc a (start_addr + 1) end_addr marked s
             else
               (case set_Cow start_addr padd (change_ptable (pcr3 (all_pro s proc)) s) of
                  Inl e \<Rightarrow> Some (Inl e)
                | Inr (_, s) \<Rightarrow>
                    share_loop proc a (start_addr + 1) end_addr padd (change_ptable (pcr3 (all_pro s a)) s)))
      else Some (Inr s))"

partial_function (option) copy_vma_loop ::
    "nat \<Rightarrow> nat \<Rightarrow> u64 \<Rightarrow> 'a kernel \<Rightarrow> 'a kernel res option" where
  "copy_vma_loop proc a last_vma s =
     (if last_vma = 0 then Some (Inr s)
      else case vmas s last_vma of
        None \<Rightarrow> Some (Inl NullPointer)
      | Some v \<Rightarrow>
          (case rbind (alloc_vma (vstart v) (vend v) s) (\<lambda>(new_vma, s).
                  rbind (append_to_vma_list (mmstruct (all_pro s proc)) new_vma s) (\<lambda>(mm, s).
                  rbind (upd_pcb proc (\<lambda>p. p\<lparr>mmstruct := mm\<rparr>) s) (\<lambda>s.
                  rbind (increment_childpg_ref (vstart v) (vend v) s) (\<lambda>s.
                    run_loop (share_loop proc a (vstart v) (vend v) 0 s))))) of
             Inl e \<Rightarrow> Some (Inl e)
           | Inr s \<Rightarrow>
               (case vmas s last_vma of
                  None \<Rightarrow> Some (Inl NullPointer)
                | Some v \<Rightarrow> copy_vma_loop proc a (nextvma v) s)))"

definition copy_vma :: "nat \<Rightarrow> 'a kernel \<Rightarrow> 'a kernel res" where
  "copy_vma proc s =
     rbind (act s) (\<lambda>a. run_loop (copy_vma_loop proc a (vma_list (mmstruct (all_pro s a))) s))"

section \<open>Kernel stacks\<close>

definition init_kstack2 :: "'a kernel \<Rightarrow> 'a kernel" where
  "init_kstack2 s = s\<lparr>kstackbase := (kern_VA s + 4096) AND 0xFFFFFFFFFFFFF000,
     kern_VA := kern_VA s + 4096 * 2 * of_nat (PROC_SIZE + 1)\<rparr>"

text \<open>The loops advance both \<open>i\<close> and \<open>top\<close>, so that every second byte is cleared.\<close>

definition create_kstack2 :: "nat \<Rightarrow> 'a kernel \<Rightarrow> 'a kernel res" where
  "create_kstack2 proc s =
     rbind (get_pcb proc s) (\<lambda>p.
       let top0 = kstackbase s + 4096 * 2 * sno p
       in rbind (rfold (\<lambda>i. kstore8 (top0 + of_nat i + of_nat i) 0) [0..<4097] s)
            (upd_pcb proc (\<lambda>p. p\<lparr>k_stack := top0 + 4097, k_stackbase := top0 + 4097\<rparr>)))"

definition init_kstack :: "'a kernel \<Rightarrow> 'a kernel" where
  "init_kstack s = s\<lparr>kstackbase := 0xFFFFFFFFFFFFF000 - 4096 * 3 * of_nat (PROC_SIZE + 1)\<rparr>"

definition create_kstack :: "nat \<Rightarrow> 'a kernel \<Rightarrow> 'a kernel res" where
  "create_kstack proc s =
     rbind (get_pcb proc s) (\<lambda>p.
       let top0 = kstackbase s + 4096 * 2 * sno p
       in rbind (rfold (\<lambda>i. kstore8 (top0 + of_nat i + of_nat i) 0) [0..<8192] s)
            (upd_pcb proc (\<lambda>p. p\<lparr>k_stack := top0 + 8192, k_stackbase := top0 + 8192\<rparr>)))"

partial_function (option) kstack_loop :: "nat \<Rightarrow> u64 \<Rightarrow> u64 \<Rightarrow> 'a kernel \<Rightarrow> 'a kernel res option" where
  "kstack_loop proc k_base kernel_stack s =
     (if k_base \<ge> kernel_stack then
        (case rbind (kload8 k_base s) (\<lambda>(b, s).
                rbind (kstore8 (k_stack (all_pro s proc)) b s)
                  (upd_pcb proc (\<lambda>p. p\<lparr>k_stack := k_stack p - 1\<rparr>))) of
           Inl e \<Rightarrow> Some (Inl e)
         | Inr s \<Rightarrow> kstack_loop proc (k_base - 1) kernel_stack s)
      else Some (Inr s))"

definition copy_kstack :: "nat \<Rightarrow> 'a kernel \<Rightarrow> 'a kernel res" where
  "copy_kstack proc s =
     rbind (get_pcb proc s) (\<lambda>p.
     rbind (if pid p = 1 then Inr (initial_stack_top s)
            else rbind (act s) (\<lambda>a. Inr (k_stackbase (all_pro s a)))) (\<lambda>k_base.
     rbind (run_loop (kstack_loop proc k_base (rsp s) s)) (\<lambda>s.
     rbind (upd_pcb proc (\<lambda>p. p\<lparr>k_stack := k_stack p + 1\<rparr>) s) (\<lambda>s.
       Inr (s\<lparr>rsp := k_stack (all_pro s proc)\<rparr>)))))"

section \<open>Creating a process\<close>

text \<open>
  The content of the fresh name buffer is not defined by the code; it is written before it is
  read.
\<close>

definition create_new_process :: "nat \<Rightarrow> 'a kernel \<Rightarrow> 'a kernel res" where
  "create_new_process proc_index s =
     rbind (upd_pcb proc_index (\<lambda>p. p\<lparr>sno := of_nat proc_index, mmstruct := \<lparr>vma_list = 0\<rparr>\<rparr>) s) (\<lambda>s.
     rbind (mappageTable proc_index s) (\<lambda>(r, s).
     rbind (upd_pcb proc_index (\<lambda>p. p\<lparr>pcr3 := r\<rparr>) s) (\<lambda>s.
       if r = 0 then say ([CHR 0x0A] @ ''page table creation failed'' @ [CHR 0x0A]) [] s
       else
         rbind (upd_pcb proc_index (\<lambda>p. p\<lparr>pid := global_pid s, pnext := Some (proc_index + 1), pstate := 0,
                  waitstate := 0, waitingfor := 0, signalling_child := 0, sigchild_state := 5\<rparr>) s) (\<lambda>s.
         rbind (kmalloc 100 (s\<lparr>global_pid := global_pid s + 1\<rparr>)) (\<lambda>(_, s).
         rbind (kmalloc 100 s) (\<lambda>(_, s).
         rbind (upd_pcb proc_index (\<lambda>p. p\<lparr>currentDir := Some ''/'', pname := Some [],
                  fd := replicate MAX_FD 0\<rparr>) s)
           (set_descriptor proc_index 1)))))))"

text \<open>A C string written to a buffer of 100 bytes.\<close>

definition buf100 :: "string \<Rightarrow> string option res" where
  "buf100 str = (if length str < 100 then Inr (Some str) else Inl OutOfBounds)"

definition deref :: "'b option \<Rightarrow> 'b res" where
  "deref p = (case p of None \<Rightarrow> Inl NullPointer | Some x \<Rightarrow> Inr x)"

definition copy_cur_dir :: "nat \<Rightarrow> 'a kernel \<Rightarrow> 'a kernel res" where
  "copy_cur_dir proc s =
     rbind (act s) (\<lambda>a.
     rbind (deref (currentDir (all_pro s a))) (\<lambda>d.
     rbind (get_pcb proc s) (\<lambda>p. rbind (deref (currentDir p)) (\<lambda>_.
     rbind (buf100 d) (\<lambda>b. upd_pcb proc (\<lambda>p. p\<lparr>currentDir := b\<rparr>) s)))))"

definition copy_name :: "nat \<Rightarrow> string \<Rightarrow> 'a kernel \<Rightarrow> 'a kernel res" where
  "copy_name proc str s =
     rbind (get_pcb proc s) (\<lambda>p. rbind (deref (pname p)) (\<lambda>_.
     rbind (buf100 (take (strlen str) str)) (\<lambda>b. upd_pcb proc (\<lambda>p. p\<lparr>pname := b\<rparr>) s)))"

section \<open>Loading a program\<close>

text \<open>A byte of a \<open>char\<close> array, converted to \<open>uint64_t\<close>.\<close>

definition kload_char :: "u64 \<Rightarrow> 'a machine_scheme \<Rightarrow> (u64 \<times> 'a machine_scheme) res" where
  "kload_char a s = rbind (kload8 a s) (\<lambda>(b, s). Inr (of_int (sint b), s))"

definition elf_segment :: "u64 \<Rightarrow> nat \<Rightarrow> u64 \<Rightarrow> 'a kernel \<Rightarrow> 'a kernel res" where
  "elf_segment elfaddr proc phead s =
     rbind (kload64 (phead + 32) s) (\<lambda>(filesz, s).
     rbind (kload64 (phead + 40) s) (\<lambda>(memsz, s).
     rbind (kload64 (phead + 16) s) (\<lambda>(vaddr, s).
     rbind (kload64 (phead + 8) s) (\<lambda>(offset, s).
     rbind (alloc_vma vaddr (vaddr + memsz) s) (\<lambda>(seg_vma, s).
     rbind (append_to_vma_list (mmstruct (all_pro s proc)) seg_vma s) (\<lambda>(mm, s).
     rbind (upd_pcb proc (\<lambda>p. p\<lparr>mmstruct := mm,
              heap_top := push_bit 12 (drop_bit 12 (vaddr + memsz) + 1)\<rparr>) s) (\<lambda>s.
     rbind (file_map vaddr (elfaddr + offset) filesz memsz s) (\<lambda>(_, s). Inr s))))))))"

text \<open>The program header offset is read with base 8, the number of headers with base 10.\<close>

definition read_elf :: "u64 \<Rightarrow> nat \<Rightarrow> 'a kernel \<Rightarrow> 'a kernel res" where
  "read_elf elfaddr proc s =
     rbind (kload64 (elfaddr + 24) s) (\<lambda>(e_entry, s).
     rbind (upd_pcb proc (\<lambda>p. p\<lparr>entry_point := e_entry\<rparr>) s) (\<lambda>s.
     rbind (rfold (\<lambda>i (off, s). rbind (kload_char (elfaddr + 32 + of_nat i) s)
              (\<lambda>(c, s). Inr (off + 8 ^ i * c, s))) [0..<8] (0, s)) (\<lambda>(off, s).
     rbind (kload_char (elfaddr + 56) s) (\<lambda>(n0, s).
     rbind (kload_char (elfaddr + 57) s) (\<lambda>(n1, s).
     rbind (kload_char (elfaddr + 54) s) (\<lambda>(z0, s).
     rbind (kload_char (elfaddr + 55) s) (\<lambda>(z1, s).
       let head_count = n0 + 10 * n1; head_size = z0 + 256 * z1
       in rfold (\<lambda>i. elf_segment elfaddr proc (elfaddr + off + of_nat i * head_size))
            [0..<unat (head_count - 1)] s)))))))"

partial_function (option) scan_loop ::
    "nat \<Rightarrow> string \<Rightarrow> int \<Rightarrow> 'a kernel \<Rightarrow> (int \<times> 'a kernel) res option" where
  "scan_loop proc fname header s =
     (if header < 0 then Some (Inl OutOfBounds)
      else if nat header < length (tarfs_img s) then
        (if strcmp2 (hdr_name (tarfs_img s) (nat header)) fname = 0 \<and>
            cget (hdr_size (tarfs_img s) (nat header)) 0 \<noteq> NUL
         then Some (rbind (read_elf (tarfs_start s + of_nat (nat header) + 512) proc s) (\<lambda>s. Inr (1, s)))
         else scan_loop proc fname
                (next_header header (of_int (oct_to_dec (hdr_size (tarfs_img s) (nat header))))) s)
      else Some (Inr (0, s)))"

definition scan_tarfs :: "nat \<Rightarrow> string \<Rightarrow> 'a kernel \<Rightarrow> (int \<times> 'a kernel) res" where
  "scan_tarfs proc fname s = run_loop (scan_loop proc fname 0 s)"

section \<open>The first process\<close>

definition set_tss_rsp :: "u64 \<Rightarrow> 'a kernel \<Rightarrow> 'a kernel" where
  "set_tss_rsp v s = s\<lparr>tss_rsp0 := v\<rparr>"

text \<open>
  \<open>init_proc\<close> ends with a return from interrupt to user mode; the result is the user stack
  pointer and the entry point.
\<close>

definition init_proc :: "'a kernel \<Rightarrow> ((u64 \<times> u64) \<times> 'a kernel) res" where
  "init_proc s =
     (let s = init_kstack (s\<lparr>proc_descriptor := (\<lambda>i. if i < 100 then 0 else proc_descriptor s i),
                             proc_Q := (\<lambda>i. if i < PROC_SIZE + 1 then -1 else proc_Q s i)\<rparr>)
      in rbind (create_new_process 0 s) (\<lambda>s.
         rbind (init_stack 0 (change_ptable (pcr3 (all_pro s 0)) s)) (\<lambda>s.
         rbind (create_kstack 0 s) (\<lambda>s.
         rbind (copy_kstack 0 s) (\<lambda>s.
         rbind (scan_tarfs 0 ''bin/sbush'' s) (\<lambda>(_, s).
         rbind (copy_name 0 ''bin/sbush'' s) (\<lambda>s.
         if proc_end s \<ge> PROC_SIZE + 1 then Inl OutOfBounds
         else
           rbind (upd_pcb 0 (\<lambda>p. p\<lparr>pstate := 1\<rparr>)
             (s\<lparr>proc_Q := (proc_Q s)(proc_end s := 0), proc_end := proc_end s + 1, active := Some 0,
                proc_start := proc_start s + 1\<rparr>)) (\<lambda>s.
           rbind (say (''initial child state %d'' @ [CHR 0x0A]) [VInt (sigchild_state (all_pro s 0))] s) (\<lambda>s.
             Inr ((u_stack (all_pro s 0), entry_point (all_pro s 0)),
                  (set_tss_rsp (k_stack (all_pro s 0)) s)\<lparr>RING_0_MODE := 0\<rparr>))))))))))"

end
