(* ===== verification/Syscalls.thy ===== *)
theory Syscalls
  imports Tasks
begin

text \<open>
  The process system calls of \<open>sys/syscall.c\<close>: memory requests, the scheduler, exit, wait, exec,
  fork and kill. A handler gets the saved registers as a record and the address \<open>reg\<close> at
  which they are saved on the kernel stack. A handler that leaves the kernel on another
  stack does not return: its result says how the processor goes on.
\<close>

section \<open>Registers and outcomes\<close>

record gpr_t =
  r10 :: u64
  r9 :: u64
  r8 :: u64
  rdi :: u64
  rsi :: u64
  rdx :: u64
  rbx :: u64
  rax :: u64
  rip :: u64
  usersp :: u64

text \<open>
  \<open>Ret v\<close>: the handler returns \<open>v\<close>. \<open>EnterUser sp pc\<close>: a new process starts in user mode.
  \<open>ResumeFrame k\<close>: the registers saved at \<open>k\<close> are restored. \<open>ResumeWait k\<close>: the stack pointer is
  set to \<open>k\<close> and the function returns there, in the \<open>do_wait\<close> of a process that waits.
\<close>

datatype outcome = Ret u64 | EnterUser u64 u64 | ResumeFrame u64 | ResumeWait u64

abbreviation off_rdi :: u64 where "off_rdi \<equiv> 72"
abbreviation off_rsi :: u64 where "off_rsi \<equiv> 80"
abbreviation off_rax :: u64 where "off_rax \<equiv> 112"
abbreviation off_rip :: u64 where "off_rip \<equiv> 120"
abbreviation off_usersp :: u64 where "off_usersp \<equiv> 144"

section \<open>Memory requests\<close>

definition k_mmap :: "gpr_t \<Rightarrow> 'a kernel \<Rightarrow> (outcome \<times> 'a kernel) res" where
  "k_mmap r s =
     rbind (act s) (\<lambda>a.
       let nextAvailHeapMem = heap_top (all_pro s a);
           endAddr = nextAvailHeapMem + rsi r - 1
       in rbind (upd_pcb a (\<lambda>p. p\<lparr>heap_top := push_bit 12 (drop_bit 12 endAddr + 1)\<rparr>) s) (\<lambda>s.
          rbind (alloc_vma nextAvailHeapMem endAddr s) (\<lambda>(anon_vma, s).
          rbind (append_to_vma_list (mmstruct (all_pro s a)) anon_vma s) (\<lambda>(mm, s).
          rbind (upd_pcb a (\<lambda>p. p\<lparr>mmstruct := mm\<rparr>) s) (\<lambda>s.
            Inr (Ret nextAvailHeapMem, s))))))"

definition k_munmap :: "gpr_t \<Rightarrow> 'a kernel \<Rightarrow> (outcome \<times> 'a kernel) res" where
  "k_munmap r s =
     rbind (act s) (\<lambda>a.
     rbind (remove_from_vma_list (mmstruct (all_pro s a)) (rdi r) (rdi r + rsi r) s) (\<lambda>(found, mm, s).
     rbind (upd_pcb a (\<lambda>p. p\<lparr>mmstruct := mm\<rparr>) s) (\<lambda>s.
       if \<not> found then ThrowSegmentationFault (rdi r) s else Inr (Ret 0, s))))"

definition clean_stack :: "u64 \<Rightarrow> 'a kernel \<Rightarrow> 'a kernel res" where
  "clean_stack stack s = rfold (\<lambda>i. kstore8 (stack - of_nat i) 0) [0..<4096 * 2] s"

definition clean_pg_table :: "nat \<Rightarrow> 'a kernel \<Rightarrow> 'a kernel res" where
  "clean_pg_table proc s =
     rbind (get_pcb proc s) (\<lambda>p.
       rfold (\<lambda>i. kstore64 (upml4 s - 4096 * sno p + 8 * of_nat i) 0) [0..<512] s)"

section \<open>Ending a process\<close>

text \<open>\<open>for(i=0;i<PROC_SIZE;i++) if(all_pro[i].pid==p) break;\<close>\<close>

definition find_pid :: "u64 \<Rightarrow> 'a kernel \<Rightarrow> nat" where
  "find_pid p s = (case find (\<lambda>i. pid (all_pro s i) = p) [0..<PROC_SIZE] of None \<Rightarrow> PROC_SIZE | Some i \<Rightarrow> i)"

text \<open>The loop that tells the parent which child has ended.\<close>

definition signal_parent :: "u64 \<Rightarrow> u64 \<Rightarrow> int \<Rightarrow> 'a kernel \<Rightarrow> 'a kernel" where
  "signal_parent pp child status s =
     (let i = find_pid pp s
      in if i < PROC_SIZE
         then s\<lparr>all_pro := (all_pro s)(i := (all_pro s i)\<lparr>sigchild_state := status, signalling_child := child\<rparr>)\<rparr>
         else s)"

text \<open>The loop over the memory areas in \<open>kill_proc\<close> and \<open>syscall_exit\<close>.\<close>

partial_function (option) drop_areas :: "nat \<Rightarrow> u64 \<Rightarrow> 'a kernel \<Rightarrow> 'a kernel res option" where
  "drop_areas a last_vma s =
     (if last_vma = 0 then Some (Inr s)
      else case vmas s last_vma of
        None \<Rightarrow> Some (Inl NullPointer)
      | Some v \<Rightarrow>
          (case rbind (remove_from_vma_list (mmstruct (all_pro s a)) (vstart v) (vend v) s)
                  (\<lambda>(_, mm, s). upd_pcb a (\<lambda>p. p\<lparr>mmstruct := mm\<rparr>) s) of
             Inl e \<Rightarrow> Some (Inl e)
           | Inr s \<Rightarrow> drop_areas a (nextvma v) s))"

definition clear_names :: "PCB \<Rightarrow> PCB res" where
  "clear_names p =
     rbind (deref (pname p)) (\<lambda>_. rbind (deref (currentDir p)) (\<lambda>_.
       Inr (p\<lparr>pname := Some [], currentDir := Some []\<rparr>)))"

definition kill_proc :: "'a kernel \<Rightarrow> 'a kernel res" where
  "kill_proc s =
     rbind (act s) (\<lambda>a.
       let n = unat (sno (all_pro s a))
       in rbind (upd_pcb n (\<lambda>p. p\<lparr>pstate := ZOMBIE, pcr3 := 0\<rparr>) s) (\<lambda>s.
          rbind (run_loop (drop_areas a (vma_list (mmstruct (all_pro s a))) s)) (\<lambda>s.
          rbind (upd_pcb a (\<lambda>p. p\<lparr>mmstruct := \<lparr>vma_list = 0\<rparr>\<rparr>) s) (\<lambda>s.
          rbind (upd_pcb n (\<lambda>p. p\<lparr>fd := replicate MAX_FD 0\<rparr>) s) (\<lambda>s.
          rbind (clear_names (all_pro s n)) (\<lambda>p.
          rbind (upd_pcb n (\<lambda>_. p) s) (\<lambda>s.
            let s = signal_parent (ppid (all_pro s a)) (pid (all_pro s a)) 0 s;
                i = find_pid (signalling_child (all_pro s a)) s
            in rbind (upd_pcb i (\<lambda>p. p\<lparr>pstate := DEAD\<rparr>) s) (\<lambda>s.
               rbind (set_descriptor (unat (sno (all_pro s i))) 0 s) (\<lambda>s.
                 Inr (s\<lparr>active := None\<rparr>))))))))))"

section \<open>The scheduler\<close>

text \<open>
  Without an active process the test \<open>active->waitstate==1\<close> reads the word at address 24, and a
  value of 1 there makes the code write the word at address 268.
\<close>

definition kload32 :: "u64 \<Rightarrow> 'a machine_scheme \<Rightarrow> (int \<times> 'a machine_scheme) res" where
  "kload32 a s =
     rfold (\<lambda>k (v, s). rbind (kload8 (a + of_nat k) s) (\<lambda>(b, s).
        Inr (if k = 3 then v + 2 ^ 24 * sint b else v + 2 ^ (8 * k) * uint b, s))) [0..<4] (0, s)"

definition switch_save :: "u64 \<Rightarrow> u64 \<Rightarrow> 'a kernel \<Rightarrow> 'a kernel res" where
  "switch_save reg sp s =
     (case active s of
        None \<Rightarrow>
          rbind (kload32 24 s) (\<lambda>(w, s). if w = 1 then kstore64 268 (rsp s) s else Inr s)
      | Some _ \<Rightarrow>
          rbind (act s) (\<lambda>a.
          rbind (if waitstate (all_pro s a) \<noteq> 1
                 then rbind (enqueue (sno (all_pro s a)) s)
                        (upd_pcb a (\<lambda>p. p\<lparr>k_stack := reg, u_stack := sp, pstate := 1\<rparr>))
                 else Inr s) (\<lambda>s.
            if waitstate (all_pro s a) = 1 then upd_pcb a (\<lambda>p. p\<lparr>k_stack := rsp s\<rparr>) s else Inr s)))"

partial_function (option) switch_loop :: "u64 \<Rightarrow> u64 \<Rightarrow> 'a kernel \<Rightarrow> (outcome \<times> 'a kernel) res option" where
  "switch_loop reg sp s =
     (case rbind (switch_save reg sp s) get_nextproc of
        Inl e \<Rightarrow> Some (Inl e)
      | Inr (None, s) \<Rightarrow> Some (Inl NullPointer)
      | Inr (Some i, s) \<Rightarrow>
          (let s = set_tss_rsp (k_stackbase (all_pro s i)) (s\<lparr>active := Some i\<rparr>);
               s = change_ptable (pcr3 (all_pro s i)) s;
               p = all_pro s i
           in if pstate p = 0 then Some (Inr (EnterUser (u_stack p) (entry_point p), s\<lparr>RING_0_MODE := 0\<rparr>))
              else if waitstate p = WAITING_TO_LIVE
              then Some (Inr (ResumeWait (k_stack p), s\<lparr>rsp := k_stack p\<rparr>))
              else if waitstate p = WAITING_TO_DIE then
                (case (if signalling_child p = of_int (waitingfor p) \<and> sigchild_state p = 0
                       then kill_proc s
                       else rbind (enqueue (sno p) s) (\<lambda>s. Inr (s\<lparr>active := None\<rparr>))) of
                   Inl e \<Rightarrow> Some (Inl e)
                 | Inr s \<Rightarrow> switch_loop reg sp s)
              else Some (Inr (ResumeFrame (k_stack p), s\<lparr>RING_0_MODE := 0, rsp := k_stack p\<rparr>))))"

definition syscall_switch :: "u64 \<Rightarrow> u64 \<Rightarrow> 'a kernel \<Rightarrow> (outcome \<times> 'a kernel) res" where
  "syscall_switch reg sp s = run_loop (switch_loop reg sp s)"

definition syscall_exit :: "u64 \<Rightarrow> gpr_t \<Rightarrow> 'a kernel \<Rightarrow> (outcome \<times> 'a kernel) res" where
  "syscall_exit reg r s =
     rbind (act s) (\<lambda>a.
       let n = unat (sno (all_pro s a))
       in rbind (upd_pcb n (\<lambda>p. p\<lparr>pstate := ZOMBIE, pcr3 := 0, fd := replicate MAX_FD 0\<rparr>) s) (\<lambda>s.
          rbind (clear_names (all_pro s n)) (\<lambda>p.
          rbind (upd_pcb n (\<lambda>_. p) s) (\<lambda>s.
          rbind (run_loop (drop_areas a (vma_list (mmstruct (all_pro s a))) s)) (\<lambda>s.
          rbind (upd_pcb a (\<lambda>p. p\<lparr>mmstruct := \<lparr>vma_list = 0\<rparr>\<rparr>) s) (\<lambda>s.
            let s = signal_parent (ppid (all_pro s a)) (pid (all_pro s a)) (to_int32 (rdi r)) s
            in syscall_switch reg (usersp r) (s\<lparr>active := None\<rparr>)))))))"

section \<open>Waiting for a child\<close>

definition do_wait :: "u64 \<Rightarrow> gpr_t \<Rightarrow> 'a kernel \<Rightarrow> (outcome \<times> 'a kernel) res" where
  "do_wait reg r s =
     rbind (act s) (\<lambda>a.
     rbind (enqueue (sno (all_pro s a)) s) (\<lambda>s.
     rbind (upd_pcb a (\<lambda>p. p\<lparr>u_stack := usersp r, pstate := 1\<rparr>) s)
       (syscall_switch reg (usersp r))))"

definition check_live_child :: "int \<Rightarrow> 'a kernel \<Rightarrow> bool res" where
  "check_live_child child_id s =
     rbind (act s) (\<lambda>a.
       Inr (\<exists>i \<in> set [0..<PROC_SIZE]. proc_descriptor s i = 1 \<and> ppid (all_pro s i) = pid (all_pro s a) \<and>
         (child_id = -1 \<or> of_int child_id = pid (all_pro s i))))"

text \<open>
  \<open>syscall_wait\<close> up to the first \<open>do_wait\<close>. The process goes on in \<open>wait_resume\<close> when the scheduler
  returns to its stack.
\<close>

definition syscall_wait :: "u64 \<Rightarrow> gpr_t \<Rightarrow> 'a kernel \<Rightarrow> (outcome \<times> 'a kernel) res" where
  "syscall_wait reg r s =
     rbind (check_live_child (to_int32 (rdi r)) s) (\<lambda>live.
       if \<not> live then Inr (Ret 0, s)
       else
         rbind (act s) (\<lambda>a.
         rbind (upd_pcb a (\<lambda>p. p\<lparr>waitstate := WAITING_TO_LIVE, waitingfor := to_int32 (rdi r)\<rparr>) s)
           (do_wait reg r)))"

text \<open>A process control block of zero bytes.\<close>

definition pcb_zero :: PCB where
  "pcb_zero = \<lparr>sno = 0, pid = 0, ppid = 0, waitstate = 0, waitingfor = 0, signalling_child = 0,
     sigchild_state = 0, mmstruct = \<lparr>vma_list = 0\<rparr>, fd = replicate MAX_FD 0, heap_top = 0, pname = None,
     currentDir = None, entry_point = 0, u_stack = 0, u_stackbase = 0, k_stackbase = 0, k_stack = 0,
     pstate = 0, pcr3 = 0, pnext = None\<rparr>"

definition child_done :: "PCB \<Rightarrow> bool" where
  "child_done p \<longleftrightarrow> sigchild_state p = 0 \<and> (waitingfor p = -1 \<or> of_int (waitingfor p) = signalling_child p)"

text \<open>The code behind \<open>do_wait\<close>: the test of the loop, and the work after it.\<close>

definition wait_resume :: "u64 \<Rightarrow> gpr_t \<Rightarrow> 'a kernel \<Rightarrow> (outcome \<times> 'a kernel) res" where
  "wait_resume reg r s =
     rbind (act s) (\<lambda>a.
       if \<not> child_done (all_pro s a) then do_wait reg r s
       else
         rbind (upd_pcb a (\<lambda>p. p\<lparr>waitstate := 0\<rparr>) s) (\<lambda>s.
           let i = find_pid (signalling_child (all_pro s a)) s
           in rbind (upd_pcb i (\<lambda>p. p\<lparr>pstate := DEAD\<rparr>) s) (\<lambda>s.
              rbind (set_descriptor (unat (sno (all_pro s i))) 0 s) (\<lambda>s.
              rbind (upd_pcb i (\<lambda>_. pcb_zero) s) (\<lambda>s.
              rbind (upd_pcb a (\<lambda>p. p\<lparr>k_stack := reg, u_stack := usersp r\<rparr>) s) (\<lambda>s.
                let s = set_tss_rsp (k_stackbase (all_pro s a)) s
                in rbind (kstore64 (reg + off_rax) (signalling_child (all_pro s a)) s) (\<lambda>s.
                   rbind (kstore64 (rsi r) (of_int (sigchild_state (all_pro s a))) s) (\<lambda>s.
                   rbind (upd_pcb a (\<lambda>p. p\<lparr>sigchild_state := 5\<rparr>) s) (\<lambda>s.
                     Inr (Ret (signalling_child (all_pro s a)), s))))))))))"

section \<open>Strings and vectors in user memory\<close>

partial_function (option) read_cstr_loop :: "u64 \<Rightarrow> string \<Rightarrow> 'a kernel \<Rightarrow> (string \<times> 'a kernel) res option" where
  "read_cstr_loop p acc s =
     (case kload8 p s of
        Inl e \<Rightarrow> Some (Inl e)
      | Inr (b, s) \<Rightarrow> if b = 0 then Some (Inr (acc, s))
                       else read_cstr_loop (p + 1) (acc @ [char_of (unat b)]) s)"

definition read_cstr :: "u64 \<Rightarrow> 'a kernel \<Rightarrow> (string \<times> 'a kernel) res" where
  "read_cstr p s = run_loop (read_cstr_loop p [] s)"

text \<open>\<open>strcpy\<close> with the length of the source: the characters and a terminator.\<close>

definition strcpy_to :: "string \<Rightarrow> u64 \<Rightarrow> 'a kernel \<Rightarrow> 'a kernel res" where
  "strcpy_to str tgt s =
     rfold (\<lambda>i. kstore8 (tgt + of_nat i) (of_char (cget str i))) [0..<length str + 1] s"

partial_function (option) count_loop :: "u64 \<Rightarrow> nat \<Rightarrow> 'a kernel \<Rightarrow> (nat \<times> 'a kernel) res option" where
  "count_loop args ctr s =
     (case kload64 (args + 8 * of_nat ctr) s of
        Inl e \<Rightarrow> Some (Inl e)
      | Inr (v, s) \<Rightarrow> if v = 0 then Some (Inr (ctr, s)) else count_loop args (ctr + 1) s)"

definition count_args :: "u64 \<Rightarrow> 'a kernel \<Rightarrow> (nat \<times> 'a kernel) res" where
  "count_args args s = run_loop (count_loop args 0 s)"

text \<open>The strings of a vector, copied into rows of 1024 bytes.\<close>

definition copy_rows :: "u64 \<Rightarrow> nat \<Rightarrow> 'a kernel \<Rightarrow> (string list \<times> 'a kernel) res" where
  "copy_rows args n s =
     rfold (\<lambda>i (rows, s). rbind (kload64 (args + 8 * of_nat i) s) (\<lambda>(p, s).
              rbind (read_cstr p s) (\<lambda>(str, s).
                if length str < 1024 then Inr (rows @ [str], s) else Inl OutOfBounds)))
       [0..<n] ([], s)"

section \<open>Paths\<close>

fun check_abs_path :: "string \<Rightarrow> int" where
  "check_abs_path [] = 0"
| "check_abs_path (c # cs) = (if c = NUL then 0 else if c = CHR ''/'' then 1 else check_abs_path cs)"

text \<open>
  \<open>split_path\<close>: pointers to the path and to every colon in it; nothing ends the parts.
\<close>

fun colon_suffixes :: "string \<Rightarrow> string list" where
  "colon_suffixes [] = []"
| "colon_suffixes (c # cs) = (if c = CHR '':'' then (c # cs) # colon_suffixes cs else colon_suffixes cs)"

definition split_path :: "string \<Rightarrow> string list res" where
  "split_path pth =
     (let ps = pth # colon_suffixes pth in if length ps < 200 then Inr ps else Inl OutOfBounds)"

text \<open>Characters stored from an index of a buffer on.\<close>

definition overwrite :: "nat \<Rightarrow> string \<Rightarrow> string \<Rightarrow> string" where
  "overwrite i str buf = take i buf @ str @ drop (i + length str) buf"

text \<open>
  \<open>concat_path\<close> into a buffer of 200 bytes. The separator is written unless the byte behind the
  copied \<open>str1\<close> happens to be a slash; in that case it is overwritten with \<open>str2\<close>.
\<close>

definition concat_path :: "string \<Rightarrow> string \<Rightarrow> string \<Rightarrow> string res" where
  "concat_path str1 str2 abs_path =
     (if length str1 \<ge> length abs_path then Inl OutOfBounds
      else
        (let b = overwrite 0 str1 abs_path;
             ctr = length str1;
             sep = (if b ! ctr \<noteq> CHR ''/'' then [CHR ''/''] else [])
         in if ctr + length sep + length str2 \<ge> length abs_path then Inl OutOfBounds
            else Inr (overwrite ctr (sep @ str2 @ [NUL]) b)))"

definition buf_str :: "string \<Rightarrow> string" where
  "buf_str buf = takeWhile (\<lambda>c. c \<noteq> NUL) buf"

text \<open>\<open>if(file_path[0]=='/') file_path++;\<close>\<close>

definition skip_slash :: "string \<Rightarrow> string" where
  "skip_slash f = (if cget f 0 = CHR ''/'' then tl f else f)"

section \<open>Executing a program\<close>

text \<open>
  The search for the file. The result is the path under which the archive has it, or
  \<open>None\<close>. The condition \<open>cpy_path[i]!=NULL\<close> of the outer loop is always true, as \<open>cpy_path\<close> is an
  array of arrays: behind the last row it reads outside the array.
\<close>

fun try_paths :: "nat \<Rightarrow> string \<Rightarrow> string list \<Rightarrow> string \<Rightarrow> 'a kernel \<Rightarrow>
    (string option \<times> string \<times> 'a kernel) res" where
  "try_paths child file [] abs_path s = Inr (None, abs_path, s)"
| "try_paths child file (p # ps) abs_path s =
     rbind (concat_path p file abs_path) (\<lambda>abs_path.
     rbind (scan_tarfs child (skip_slash (buf_str abs_path)) s) (\<lambda>(found, s).
       if found \<noteq> 0 then Inr (Some (skip_slash (buf_str abs_path)), abs_path, s)
       else try_paths child file ps abs_path s))"

fun try_rows :: "nat \<Rightarrow> string \<Rightarrow> string list \<Rightarrow> string \<Rightarrow> 'a kernel \<Rightarrow> (string option \<times> 'a kernel) res" where
  "try_rows child file [] abs_path s = Inl OutOfBounds"
| "try_rows child file (row # rows) abs_path s =
     rbind (split_path row) (\<lambda>ps.
     rbind (try_paths child file ps abs_path s) (\<lambda>(r, abs_path, s).
       case r of Some f \<Rightarrow> Inr (Some f, s) | None \<Rightarrow> try_rows child file rows abs_path s))"

definition file_search :: "nat \<Rightarrow> string \<Rightarrow> string list \<Rightarrow> string \<Rightarrow> 'a kernel \<Rightarrow> (string option \<times> 'a kernel) res" where
  "file_search child file cpy_path abs_path s =
     (if check_abs_path file \<noteq> 0 then
        rbind (scan_tarfs child (skip_slash file) s) (\<lambda>(found, s).
          Inr (if found \<noteq> 0 then Some (skip_slash file) else None, s))
      else try_rows child file cpy_path abs_path s)"

text \<open>The first free slot of the process table.\<close>

definition free_slot :: "'a kernel \<Rightarrow> nat" where
  "free_slot s = (case find (\<lambda>i. proc_descriptor s i = 0) [0..<PROC_SIZE] of None \<Rightarrow> PROC_SIZE | Some i \<Rightarrow> i)"

text \<open>The new process that exec creates before the search.\<close>

definition exec_child :: "nat \<Rightarrow> nat \<Rightarrow> 'a kernel \<Rightarrow> 'a kernel res" where
  "exec_child a i s =
     rbind (copy_parent_stack s) (\<lambda>s.
     rbind (create_new_process i s) (\<lambda>s.
     rbind (upd_pcb i (\<lambda>p. p\<lparr>pstate := 1, ppid := pid (all_pro s a)\<rparr>) s) (\<lambda>s.
     rbind (copy_cur_dir i (change_ptable (pcr3 (all_pro s i)) s)) (\<lambda>s.
     rbind (create_kstack i s) (\<lambda>s.
     rbind (copy_kstack i s) (init_stack i))))))"

text \<open>The arguments are moved to the stack of the new process, behind the file name.\<close>

definition exec_args :: "nat \<Rightarrow> u64 \<Rightarrow> u64 \<Rightarrow> u64 \<Rightarrow> string list \<Rightarrow> 'a kernel \<Rightarrow> 'a kernel res" where
  "exec_args i file_name args newargs cpy_args s =
     (let n = length cpy_args
      in rbind (rfold (\<lambda>k s. rbind (kload64 (args + 8 * of_nat k) s)
                   (\<lambda>(v, s). kstore64 (newargs + 8 * of_nat k) v s)) [0..<n] s) (\<lambda>s.
         rbind (rfold (\<lambda>k s. rbind (kload64 (newargs + 8 * of_nat k) s)
                   (\<lambda>(v, s). strcpy_to (cpy_args ! k) v s)) [0..<n] s) (\<lambda>s.
         rbind (rfold (\<lambda>k s. rbind (kload64 (newargs + 8 * of_nat (k - 1)) s)
                   (\<lambda>(v, s). kstore64 (newargs + 8 * of_nat k) v s)) (rev [1..<n + 2]) s) (\<lambda>s.
         rbind (kstore64 newargs file_name s) (\<lambda>s.
         rbind (read_cstr file_name s) (\<lambda>(str, s).
         rbind (copy_name i str s) (\<lambda>s.
           rfold (\<lambda>k s. rbind (kload64 (newargs + 8 * of_nat k) s) (\<lambda>(p, s).
                rbind (read_cstr p s) (\<lambda>(str, s).
                rbind (alloc_vma p (p + of_nat (length str)) s) (\<lambda>(new_vma, s).
                rbind (append_to_vma_list (mmstruct (all_pro s i)) new_vma s) (\<lambda>(mm, s).
                rbind (upd_pcb i (\<lambda>q. q\<lparr>mmstruct := mm\<rparr>) s)
                  (increment_childpg_ref p (p + of_nat (length str)))))))) [0..<n + 1] s)))))))"

text \<open>The processor goes on in the new process; the old one waits for it to end.\<close>

definition exec_enter :: "u64 \<Rightarrow> nat \<Rightarrow> nat \<Rightarrow> u64 \<Rightarrow> u64 \<Rightarrow> 'a kernel \<Rightarrow> (outcome \<times> 'a kernel) res" where
  "exec_enter reg a i args newargs s =
     (let child_rg = k_stackbase (all_pro s i) - (k_stackbase (all_pro s a) - reg)
      in rbind (upd_pcb a (\<lambda>p. p\<lparr>waitstate := WAITING_TO_DIE, waitingfor := to_int32 (pid (all_pro s i))\<rparr>) s) (\<lambda>s.
         rbind (enqueue (sno (all_pro s a)) s) (\<lambda>s.
         rbind (kstore64 (child_rg + off_rip) (entry_point (all_pro s i)) (s\<lparr>active := Some i\<rparr>)) (\<lambda>s.
         rbind (kstore64 (child_rg + off_rdi) newargs s) (\<lambda>s.
         rbind (kstore64 (child_rg + off_usersp) (u_stack (all_pro s i)) s) (\<lambda>s.
         rbind (count_args args s) (\<lambda>(n, s).
         rbind (kstore64 (child_rg + off_rsi) (if newargs = 0 then 0 else of_nat n) s) (\<lambda>s.
         rbind (upd_pcb i (\<lambda>p. p\<lparr>k_stack := child_rg\<rparr>) s) (\<lambda>s.
           Inr (ResumeFrame child_rg,
                (set_tss_rsp (k_stackbase (all_pro s i)) s)\<lparr>RING_0_MODE := 0, rsp := child_rg\<rparr>))))))))))"

text \<open>
  \<open>garbage\<close> is what the 200 bytes of the stack array \<open>abs_path\<close> hold before they are written. The copy of the file
  name is a value here: its array on the kernel stack has no room for the terminator, which the code
  writes one byte behind it.
\<close>

definition syscall_exec :: "string \<Rightarrow> u64 \<Rightarrow> gpr_t \<Rightarrow> 'a kernel \<Rightarrow> (outcome \<times> 'a kernel) res" where
  "syscall_exec garbage reg r s =
     (let file_name = rdi r; args = rsi r; pth = rdx r
      in rbind (read_cstr file_name s) (\<lambda>(file, s).
         rbind (count_args args s) (\<lambda>(args_ctr, s).
         rbind (count_args pth s) (\<lambda>(path_ctr, s).
         rbind (copy_rows args args_ctr s) (\<lambda>(cpy_args, s).
         rbind (copy_rows pth path_ctr s) (\<lambda>(cpy_path, s).
         rbind (act s) (\<lambda>a.
           let i = free_slot s; old_rsp = rsp s
           in rbind (exec_child a i s) (\<lambda>s.
              rbind (file_search i file cpy_path garbage s) (\<lambda>(r, s).
                case r of
                  None \<Rightarrow>
                    rbind (say (''exec failed: file not found'' @ [CHR 0x0A]) []
                      ((change_ptable (pcr3 (all_pro s a)) s)\<lparr>rsp := old_rsp\<rparr>)) (\<lambda>s. Inr (Ret 0, s))
                | Some found \<Rightarrow>
                    rbind (strcpy_to found file_name s) (\<lambda>s.
                      let newargs = u_stackbase (all_pro s i) - (u_stackbase (all_pro s a) - args)
                      in rbind (exec_args i file_name args newargs cpy_args s)
                           (exec_enter reg a i args newargs)))))))))))"

section \<open>Forking\<close>

definition fork_fds :: "nat \<Rightarrow> nat \<Rightarrow> 'a kernel \<Rightarrow> 'a kernel res" where
  "fork_fds a i s =
     rfold (\<lambda>k s.
       let f = fd (all_pro s a) ! k
       in if f \<noteq> 0 then
            rbind (deref (files s f)) (\<lambda>fo.
            rbind (kmalloc 16 s) (\<lambda>(p, s).
              upd_pcb i (\<lambda>q. q\<lparr>fd := (fd q)[k := p]\<rparr>) (s\<lparr>files := (files s)(p \<mapsto> fo)\<rparr>)))
          else upd_pcb i (\<lambda>q. q\<lparr>fd := (fd q)[k := 0]\<rparr>) s) [0..<MAX_FD] s"

definition syscall_fork :: "u64 \<Rightarrow> gpr_t \<Rightarrow> 'a kernel \<Rightarrow> (outcome \<times> 'a kernel) res" where
  "syscall_fork reg r s =
     rbind (act s) (\<lambda>a.
     rbind (copy_parent_stack s) (\<lambda>s.
       if (proc_end s + 1) mod (PROC_SIZE + 1) = proc_start s then Inl QueueFull
       else
         (let i = free_slot s
          in rbind (create_new_process i s) (\<lambda>s.
             rbind (upd_pcb i (\<lambda>p. p\<lparr>pstate := 1, ppid := pid (all_pro s a),
                      entry_point := entry_point (all_pro s a), heap_top := heap_top (all_pro s a)\<rparr>) s) (\<lambda>s.
             rbind (copy_cur_dir i s) (\<lambda>s.
             rbind (deref (pname (all_pro s a))) (\<lambda>nm.
             rbind (copy_name i nm s) (\<lambda>s.
             rbind (upd_pcb i (\<lambda>p. p\<lparr>mmstruct := \<lparr>vma_list = 0\<rparr>\<rparr>) s) (\<lambda>s.
             rbind (copy_vma i s) (\<lambda>s.
             rbind (fork_fds a i s) (\<lambda>s.
             rbind (create_kstack i (change_ptable (pcr3 (all_pro s i)) s)) (\<lambda>s.
             rbind (copy_kstack i s) (\<lambda>s.
             rbind (upd_pcb a (\<lambda>p. p\<lparr>k_stack := reg, u_stack := usersp r\<rparr>) s) (\<lambda>s.
             rbind (init_stack i s) (\<lambda>s.
             rbind (kstore64 (reg + off_rax) (pid (all_pro s i)) s) (\<lambda>s.
             rbind (upd_pcb a (\<lambda>p. p\<lparr>sigchild_state := to_int32 (pstate (all_pro s i)), pstate := 1\<rparr>) s) (\<lambda>s.
             rbind (enqueue (sno (all_pro s a)) s) (\<lambda>s.
               let child_rg = k_stackbase (all_pro s i) - (k_stackbase (all_pro s a) - reg)
               in rbind (kstore64 (child_rg + off_usersp) (u_stack (all_pro s i)) s) (\<lambda>s.
                  rbind (kstore64 (child_rg + off_rax) 0 s) (\<lambda>s.
                  rbind (upd_pcb i (\<lambda>p. p\<lparr>k_stack := child_rg\<rparr>) (s\<lparr>active := Some i\<rparr>)) (\<lambda>s.
                    Inr (ResumeFrame child_rg,
                         (set_tss_rsp (k_stackbase (all_pro s i)) s)\<lparr>RING_0_MODE := 0, rsp := child_rg\<rparr>)
                  )))))))))))))))))))))"

section \<open>Killing a process\<close>

text \<open>The loop reads the link of a node after the node has been recycled.\<close>

partial_function (option) kill_areas :: "nat \<Rightarrow> u64 \<Rightarrow> 'a kernel \<Rightarrow> 'a kernel res option" where
  "kill_areas n last_vma s =
     (if last_vma = 0 then Some (Inr s)
      else case vmas s last_vma of
        None \<Rightarrow> Some (Inl NullPointer)
      | Some v \<Rightarrow>
          (case rbind (remove_from_vma_list (mmstruct (all_pro s n)) (vstart v) (vend v) s)
                  (\<lambda>(_, mm, s). upd_pcb n (\<lambda>p. p\<lparr>mmstruct := mm\<rparr>) s) of
             Inl e \<Rightarrow> Some (Inl e)
           | Inr s \<Rightarrow>
               (case vmas s last_vma of
                  None \<Rightarrow> Some (Inl NullPointer)
                | Some v \<Rightarrow> kill_areas n (nextvma v) s)))"

text \<open>The shift in the run queue, from the slot whose index is the number of the process.\<close>

partial_function (option) kill_shift :: "nat \<Rightarrow> 'a kernel \<Rightarrow> 'a kernel res option" where
  "kill_shift i s =
     (if i = proc_start s then Some (Inr s)
      else if i = 0 then Some (Inl OutOfBounds)
      else
        (let s = s\<lparr>proc_Q := (proc_Q s)(i := proc_Q s (i - 1))\<rparr>
         in kill_shift (if i - 1 = 0 \<and> proc_start s \<noteq> 0 then PROC_SIZE else i - 1) s))"

definition syscall_kill :: "gpr_t \<Rightarrow> 'a kernel \<Rightarrow> (outcome \<times> 'a kernel) res" where
  "syscall_kill r s =
     rbind (act s) (\<lambda>a.
       let n = find_pid (rdi r) s
       in rbind (upd_pcb (unat (sno (all_pro s a)))
                   (\<lambda>p. p\<lparr>fd := replicate MAX_FD 0, pname := None, currentDir := None\<rparr>) s) (\<lambda>s.
          rbind (upd_pcb n (\<lambda>p. p\<lparr>pstate := DEAD\<rparr>) s) (\<lambda>s.
          rbind (set_descriptor n 0 s) (\<lambda>s.
          rbind (upd_pcb n (\<lambda>p. p\<lparr>pcr3 := 0\<rparr>) s) (\<lambda>s.
          rbind (run_loop (kill_areas n (vma_list (mmstruct (all_pro s n))) s)) (\<lambda>s.
            let s = signal_parent (ppid (all_pro s n)) (pid (all_pro s n)) 0 s
            in rbind (run_loop (kill_shift n s)) (\<lambda>s.
                 Inr (Ret 0, s\<lparr>proc_start := (proc_start s + 1) mod (PROC_SIZE + 1)\<rparr>))))))))"

end
