(* ===== verification/File_Syscalls.thy ===== *)
theory File_Syscalls
  imports Syscalls
begin

text \<open>
  The file, directory and terminal system calls of \<open>sys/syscall.c\<close>, the terminal functions of
  \<open>sys/terminal.c\<close> that move data between the line buffer and user memory, and the process
  list.
\<close>

section \<open>The terminal\<close>

text \<open>
  The busy loop \<open>while(READMODEON == 1)\<close>, interrupted by one keyboard interrupt per key. It does
  not end when the keys do not close the line.
\<close>

partial_function (option) read_wait :: "'a kernel \<Rightarrow> 'a kernel res option" where
  "read_wait s =
     (if \<not> READMODEON (con s) then Some (Inr s)
      else case keys s of
        [] \<Rightarrow> None
      | k # ks \<Rightarrow>
          (case tunnel k (con s) of
             Inl e \<Rightarrow> Some (Inl e)
           | Inr c \<Rightarrow> read_wait (s\<lparr>con := c, keys := ks\<rparr>)))"

text \<open>The statement \<open>*(uint64_t*)addr++ = self->stdin[i]\<close> stores eight bytes and advances by one.\<close>

definition terminal_read :: "u64 \<Rightarrow> 'a kernel \<Rightarrow> (u64 \<times> 'a kernel) res" where
  "terminal_read addr s =
     rbind (run_loop (read_wait (s\<lparr>con := (con s)\<lparr>READMODEON := True\<rparr>\<rparr>))) (\<lambda>s.
     rbind (rfold (\<lambda>i s. kstore64 (addr + of_nat i) (of_int (schar (stdin (con s) ! i))) s)
              [0..<stdinlength (con s)] s) (\<lambda>s.
       Inr (of_nat (stdinlength (con s)),
            s\<lparr>con := (con s)\<lparr>stdin := replicate 1024 CHR '' '', stdinlength := 0\<rparr>\<rparr>)))"

definition terminal_write :: "u64 \<Rightarrow> u64 \<Rightarrow> 'a kernel \<Rightarrow> (u64 \<times> 'a kernel) res" where
  "terminal_write addr count s =
     rbind (read_cstr addr s) (\<lambda>(str, s). rbind (say ''%s'' [VStr str] s) (\<lambda>s. Inr (count, s)))"

section \<open>Files\<close>

abbreviation fd_message :: string where
  "fd_message \<equiv> ''We dont support file pointers other than stdin stdout!!'' @ [CHR 0x0A]"

definition k_open :: "gpr_t \<Rightarrow> 'a kernel \<Rightarrow> (outcome \<times> 'a kernel) res" where
  "k_open r s =
     rbind (read_cstr (rdi r) s) (\<lambda>(filePath, s).
     rbind (GetInode filePath s) (\<lambda>(query, s).
     rbind (if query = 0 then Inr True else rbind (deref (inodes s query)) (\<lambda>n. Inr (itype n = DIR))) (\<lambda>no_file.
       if no_file then
         rbind (say ([CHR 0x0A] @ ''No Such File!'' @ [CHR 0x0A]) [] s) (\<lambda>s. Inr (Ret (-1), s))
       else
         rbind (act s) (\<lambda>a.
           case find (\<lambda>i. fd (all_pro s a) ! i = 0) [2..<MAX_FD] of
             Some i \<Rightarrow>
               rbind (deref (inodes s query)) (\<lambda>n.
               rbind (kmalloc 16 s) (\<lambda>(p, s).
               rbind (upd_pcb a (\<lambda>q. q\<lparr>fd := (fd q)[i := p]\<rparr>)
                  (s\<lparr>files := (files s)(p \<mapsto> \<lparr>currentoffset = istart n, node = query\<rparr>)\<rparr>)) (\<lambda>s.
                 Inr (Ret (of_nat i), s))))
           | None \<Rightarrow>
               rbind (say ([CHR 0x0A] @ ''We dont support opening more than 20 files!'' @ [CHR 0x0A]) [] s)
                 (\<lambda>s. Inr (Ret (-1), s))))))"

text \<open>The index into the array of descriptors is converted to \<open>int\<close>.\<close>

definition fd_slot :: "u64 \<Rightarrow> nat res" where
  "fd_slot fd_index =
     (let i = to_int32 fd_index in if 0 \<le> i \<and> i < int MAX_FD then Inr (nat i) else Inl OutOfBounds)"

definition k_close :: "gpr_t \<Rightarrow> 'a kernel \<Rightarrow> (outcome \<times> 'a kernel) res" where
  "k_close r s =
     rbind (if rdi r > 1 then
              rbind (act s) (\<lambda>a. rbind (fd_slot (rdi r)) (\<lambda>i.
                upd_pcb a (\<lambda>q. q\<lparr>fd := (fd q)[i := 0]\<rparr>) s))
            else Inr s) (\<lambda>s. Inr (Ret 1, s))"

text \<open>
  The copy loop of \<open>k_read\<close>: \<open>i\<close> runs from the offset to \<open>offset + count\<close>; the result is the number
  of bytes copied.
\<close>

fun read_loop :: "u64 \<Rightarrow> u64 \<Rightarrow> nat \<Rightarrow> nat \<Rightarrow> u64 \<Rightarrow> 'a kernel \<Rightarrow> (nat \<times> 'a kernel) res" where
  "read_loop f i n 0 buf s = Inr (n, s)"
| "read_loop f i n (Suc k) buf s =
     rbind (deref (files s f)) (\<lambda>fo.
     rbind (deref (inodes s (node fo))) (\<lambda>nd.
       if i \<ge> iend nd then Inr (n, s)
       else
         rbind (kload8 i s) (\<lambda>(b, s).
         rbind (kstore8 buf b s) (\<lambda>s.
           read_loop f (i + 1) (n + 1) k (buf + 1)
             (s\<lparr>files := (files s)(f \<mapsto> fo\<lparr>currentoffset := currentoffset fo + 1\<rparr>)\<rparr>)))))"

definition k_read :: "gpr_t \<Rightarrow> 'a kernel \<Rightarrow> (outcome \<times> 'a kernel) res" where
  "k_read r s =
     (if rdi r = 0 then rbind (terminal_read (rsi r) s) (\<lambda>(n, s). Inr (Ret n, s))
      else if rdi r > 1 then
        rbind (act s) (\<lambda>a.
        rbind (fd_slot (rdi r)) (\<lambda>i.
          let f = fd (all_pro s a) ! i
          in rbind (deref (files s f)) (\<lambda>fo.
               let start_addr = currentoffset fo; end_addr = currentoffset fo + rdx r
               in rbind (read_loop f start_addr 0 (unat end_addr - unat start_addr) (rsi r) s) (\<lambda>(n, s).
                  rbind (kstore8 (rsi r + of_nat n) 0 s) (\<lambda>s. Inr (Ret (of_nat n), s))))))
      else rbind (say fd_message [] s) (\<lambda>s. Inr (Ret 0, s)))"

definition k_write :: "gpr_t \<Rightarrow> 'a kernel \<Rightarrow> (outcome \<times> 'a kernel) res" where
  "k_write r s =
     (if rdi r = 1 then rbind (terminal_write (rsi r) (rdx r) s) (\<lambda>(n, s). Inr (Ret n, s))
      else rbind (say fd_message [] s) (\<lambda>s. Inr (Ret 0, s)))"

definition k_writecolor :: "gpr_t \<Rightarrow> 'a kernel \<Rightarrow> (outcome \<times> 'a kernel) res" where
  "k_writecolor r s =
     (if rdi r = 1 then
        rbind (read_cstr (rsi r) s) (\<lambda>(str, s). Inr (Ret 1, s\<lparr>con := flushcolor str (con s)\<rparr>))
      else rbind (say fd_message [] s) (\<lambda>s. Inr (Ret 0, s)))"

section \<open>Directories\<close>

text \<open>The path buffer of a directory object has 256 bytes.\<close>

definition k_opendir :: "gpr_t \<Rightarrow> 'a kernel \<Rightarrow> (outcome \<times> 'a kernel) res" where
  "k_opendir r s =
     rbind (read_cstr (rdi r) s) (\<lambda>(pth, s).
     rbind (getnewdir s) (\<lambda>(dirobj, s).
     rbind (GetInode pth s) (\<lambda>(query, s).
       if query = 0 then Inr (Ret 0, s)
       else
         rbind (deref (inodes s query)) (\<lambda>n.
           if itype n = FILE then Inr (Ret 0, s)
           else if length pth > NAME_MAX then Inl OutOfBounds
           else
             rbind (deref (dirs s dirobj)) (\<lambda>d.
               Inr (Ret dirobj, s\<lparr>dirs := (dirs s)(dirobj \<mapsto> d\<lparr>dpath := pth, currInode := 1\<rparr>)\<rparr>))))))"

text \<open>\<open>dirobj\<close> is set to the null pointer before it is handed to \<open>recycledirstruct\<close>.\<close>

definition k_closedir :: "gpr_t \<Rightarrow> 'a kernel \<Rightarrow> (outcome \<times> 'a kernel) res" where
  "k_closedir r s =
     rbind (deref (dirs s (rdi r))) (\<lambda>d.
     rbind (recycledirstruct 0
       (s\<lparr>dirs := (dirs s)(rdi r \<mapsto> d\<lparr>dpath := [], currInode := -1, nextdir := 0\<rparr>)\<rparr>)) (\<lambda>s.
       Inr (Ret 1, s)))"

text \<open>The result is the address of the entry inside the directory object, at offset 264.\<close>

definition k_readdir :: "gpr_t \<Rightarrow> 'a kernel \<Rightarrow> (outcome \<times> 'a kernel) res" where
  "k_readdir r s =
     (let dirobj = rdi r
      in if dirobj = 0 then Inr (Ret 0, s)
         else
           rbind (deref (dirs s dirobj)) (\<lambda>d.
           rbind (GetInode (dpath d) s) (\<lambda>(query, s).
             if query = 0 then Inr (Ret 0, s)
             else
               rbind (deref (inodes s query)) (\<lambda>n.
                 if currInode d = -1 \<or> currInode d \<ge> of_nat (length (family n)) then Inr (Ret 0, s)
                 else
                   rbind (deref (inodes s (family n ! unat (currInode d)))) (\<lambda>m.
                     Inr (Ret (dirobj + 264),
                          s\<lparr>dirs := (dirs s)(dirobj \<mapsto>
                              d\<lparr>d_name := inodeName m, currInode := currInode d + 1\<rparr>)\<rparr>))))))"

section \<open>The working directory\<close>

text \<open>
  The last steps of \<open>k_chdir\<close>: the new path is copied to the buffer of 100 bytes. The limit of
  510 characters in the code is never reached before the end of the buffer.
\<close>

definition store_cwd :: "nat \<Rightarrow> string \<Rightarrow> 'a kernel \<Rightarrow> (outcome \<times> 'a kernel) res" where
  "store_cwd a newPath s =
     rbind (buf100 newPath) (\<lambda>b.
     rbind (upd_pcb a (\<lambda>q. q\<lparr>currentDir := b\<rparr>) s) (\<lambda>s. Inr (Ret 1, s)))"

text \<open>
  For the parent directory the path is cut behind the last slash before its last character;
  without one it stays as it is.
\<close>

definition parent_path :: "string \<Rightarrow> string" where
  "parent_path d =
     (case find (\<lambda>i. d ! i = CHR ''/'') (rev [0..<length d - 1]) of None \<Rightarrow> d | Some i \<Rightarrow> take (i + 1) d)"

text \<open>Whether a path leads to a directory.\<close>

definition is_dir :: "string \<Rightarrow> 'a kernel \<Rightarrow> (bool \<times> 'a kernel) res" where
  "is_dir pth s =
     rbind (GetInode pth s) (\<lambda>(query, s).
       if query = 0 then Inr (False, s)
       else rbind (deref (inodes s query)) (\<lambda>n. Inr (itype n \<noteq> FILE, s)))"

definition k_chdir :: "gpr_t \<Rightarrow> 'a kernel \<Rightarrow> (outcome \<times> 'a kernel) res" where
  "k_chdir r s =
     (if rdi r = 0 then Inr (Ret 0, s)
      else
        rbind (read_cstr (rdi r) s) (\<lambda>(pth, s).
        rbind (act s) (\<lambda>a.
          if cget pth 0 = CHR ''/'' then
            rbind (is_dir pth s) (\<lambda>(ok, s). if ok then store_cwd a pth s else Inr (Ret 0, s))
          else if cget pth 0 \<noteq> CHR ''.'' then
            rbind (deref (currentDir (all_pro s a))) (\<lambda>d.
              let newPath = d @ pth @ ''/''
              in rbind (buf100 newPath) (\<lambda>_.
                 rbind (is_dir newPath s) (\<lambda>(ok, s). if ok then store_cwd a newPath s else Inr (Ret 0, s))))
          else if cget pth 0 = CHR ''.'' \<and> cget pth 1 = CHR ''.'' then
            rbind (deref (currentDir (all_pro s a))) (\<lambda>d. store_cwd a (parent_path d) s)
          else Inr (Ret 0, s))))"

text \<open>\<open>k_getcwd\<close>: at most \<open>size - 1\<close> characters, computed without sign.\<close>

definition k_getcwd :: "gpr_t \<Rightarrow> 'a kernel \<Rightarrow> (outcome \<times> 'a kernel) res" where
  "k_getcwd r s =
     rbind (act s) (\<lambda>a.
     rbind (deref (currentDir (all_pro s a))) (\<lambda>d.
     rbind (strcpy_to (take (unat (rsi r - 1)) d) (rdi r) s) (\<lambda>s. Inr (Ret (rdi r), s))))"

section \<open>Information\<close>

definition live_slots :: "'a kernel \<Rightarrow> nat list" where
  "live_slots s = filter (\<lambda>i. proc_descriptor s i = 1) [0..<PROC_SIZE]"

definition syscall_get_proccount :: "'a kernel \<Rightarrow> (outcome \<times> 'a kernel) res" where
  "syscall_get_proccount s = Inr (Ret (of_nat (length (live_slots s))), s)"

text \<open>An entry of the list has four words and a name of 1024 bytes.\<close>

definition put_proc :: "u64 \<Rightarrow> nat \<Rightarrow> 'a kernel \<Rightarrow> 'a kernel res" where
  "put_proc addr i s =
     (let p = all_pro s i
      in rbind (kstore64 addr (pid p) s) (\<lambda>s.
         rbind (kstore64 (addr + 8) (ppid p) s) (\<lambda>s.
         rbind (kstore64 (addr + 16) (pstate p) s) (\<lambda>s.
         rbind (kstore64 (addr + 24) (of_int (waitstate p)) s) (\<lambda>s.
         rbind (deref (pname p)) (\<lambda>nm. strcpy_to nm (addr + 32) s))))))"

definition syscall_get_proclist :: "gpr_t \<Rightarrow> 'a kernel \<Rightarrow> (outcome \<times> 'a kernel) res" where
  "syscall_get_proclist r s =
     rbind (rfold (\<lambda>(ctr, i). put_proc (rdi r + of_nat ctr * 1056) i)
              (zip [0..<length (live_slots s)] (live_slots s)) s) (\<lambda>s. Inr (Ret 0, s))"

definition syscall_time :: "'a kernel \<Rightarrow> (outcome \<times> 'a kernel) res" where
  "syscall_time s = Inr (Ret (of_int (time_in_sec (con s))), s)"

definition temporary_printf :: "gpr_t \<Rightarrow> 'a kernel \<Rightarrow> (outcome \<times> 'a kernel) res" where
  "temporary_printf r s =
     rbind (read_cstr (rbx r) s) (\<lambda>(str, s). rbind (say ''%s'' [VStr str] s) (\<lambda>s. Inr (Ret 0, s)))"

end
