(* ===== verification/Interrupts.thy ===== *)
theory Interrupts
  imports File_Syscalls
begin

text \<open>
  The entry points of the kernel: the system call table of \<open>sys/syscall.c\<close> and the interrupt
  handlers of \<open>sys/yomama.c\<close> for system calls, page faults and the keyboard.
\<close>

section \<open>The system call table\<close>

datatype syscall =
    K_read | K_write | K_open | K_close | K_mmap | K_munmap | Kill | Get_proccount | Get_proclist | Time
  | Fork | Switch | Exec | Exit | Wait | K_opendir | K_readdir | K_closedir | K_getcwd | K_chdir
  | K_writecolor | Printf

definition syscall_init :: "nat \<Rightarrow> syscall option" where
  "syscall_init = [0 \<mapsto> K_read, 1 \<mapsto> K_write, 2 \<mapsto> K_open, 3 \<mapsto> K_close, 9 \<mapsto> K_mmap, 11 \<mapsto> K_munmap,
     53 \<mapsto> Kill, 54 \<mapsto> Get_proccount, 55 \<mapsto> Get_proclist, 56 \<mapsto> Time, 57 \<mapsto> Fork, 58 \<mapsto> Switch,
     59 \<mapsto> Exec, 60 \<mapsto> Exit, 61 \<mapsto> Wait, 62 \<mapsto> K_opendir, 63 \<mapsto> K_readdir, 64 \<mapsto> K_closedir,
     79 \<mapsto> K_getcwd, 80 \<mapsto> K_chdir, 98 \<mapsto> K_writecolor, 99 \<mapsto> Printf]"

text \<open>The call through the table; \<open>garbage\<close> is the uninitialised buffer of exec.\<close>

fun run_syscall :: "syscall \<Rightarrow> string \<Rightarrow> u64 \<Rightarrow> gpr_t \<Rightarrow> 'a kernel \<Rightarrow> (outcome \<times> 'a kernel) res" where
  "run_syscall K_read g reg r s = k_read r s"
| "run_syscall K_write g reg r s = k_write r s"
| "run_syscall K_open g reg r s = k_open r s"
| "run_syscall K_close g reg r s = k_close r s"
| "run_syscall K_mmap g reg r s = k_mmap r s"
| "run_syscall K_munmap g reg r s = k_munmap r s"
| "run_syscall Kill g reg r s = syscall_kill r s"
| "run_syscall Get_proccount g reg r s = syscall_get_proccount s"
| "run_syscall Get_proclist g reg r s = syscall_get_proclist r s"
| "run_syscall Time g reg r s = syscall_time s"
| "run_syscall Fork g reg r s = syscall_fork reg r s"
| "run_syscall Switch g reg r s = syscall_switch reg (usersp r) s"
| "run_syscall Exec g reg r s = syscall_exec g reg r s"
| "run_syscall Exit g reg r s = syscall_exit reg r s"
| "run_syscall Wait g reg r s = syscall_wait reg r s"
| "run_syscall K_opendir g reg r s = k_opendir r s"
| "run_syscall K_readdir g reg r s = k_readdir r s"
| "run_syscall K_closedir g reg r s = k_closedir r s"
| "run_syscall K_getcwd g reg r s = k_getcwd r s"
| "run_syscall K_chdir g reg r s = k_chdir r s"
| "run_syscall K_writecolor g reg r s = k_writecolor r s"
| "run_syscall Printf g reg r s = temporary_printf r s"

section \<open>System calls\<close>

text \<open>The saved registers at an address of the kernel stack.\<close>

definition load_gpr :: "u64 \<Rightarrow> 'a kernel \<Rightarrow> (gpr_t \<times> 'a kernel) res" where
  "load_gpr reg s =
     rbind (kload64 (reg + 40) s) (\<lambda>(v10, s). rbind (kload64 (reg + 48) s) (\<lambda>(v9, s).
     rbind (kload64 (reg + 56) s) (\<lambda>(v8, s). rbind (kload64 (reg + 72) s) (\<lambda>(vdi, s).
     rbind (kload64 (reg + 80) s) (\<lambda>(vsi, s). rbind (kload64 (reg + 88) s) (\<lambda>(vdx, s).
     rbind (kload64 (reg + 104) s) (\<lambda>(vbx, s). rbind (kload64 (reg + 112) s) (\<lambda>(vax, s).
     rbind (kload64 (reg + 120) s) (\<lambda>(vip, s). rbind (kload64 (reg + 144) s) (\<lambda>(vsp, s).
       Inr (\<lparr>r10 = v10, r9 = v9, r8 = v8, rdi = vdi, rsi = vsi, rdx = vdx, rbx = vbx, rax = vax,
              rip = vip, usersp = vsp\<rparr>, s)))))))))))"

text \<open>The call \<open>p[(int)reg->rax](reg)\<close>; a number without an entry calls through a null pointer.\<close>

definition dispatch :: "string \<Rightarrow> u64 \<Rightarrow> gpr_t \<Rightarrow> 'a kernel \<Rightarrow> (outcome \<times> 'a kernel) res" where
  "dispatch garbage reg r s =
     (case syscall_init (unat (rax r)) of
        None \<Rightarrow> Inl NullPointer
      | Some f \<Rightarrow> run_syscall f garbage reg r s)"

text \<open>
  \<open>sys_call\<close>. The branch for a number outside the table returns without resetting
  \<open>RING_0_MODE\<close>.
\<close>

definition sys_call :: "string \<Rightarrow> u64 \<Rightarrow> 'a kernel \<Rightarrow> (outcome \<times> 'a kernel) res" where
  "sys_call garbage reg s =
     rbind (load_gpr reg (s\<lparr>RING_0_MODE := 1\<rparr>)) (\<lambda>(r, s).
       if rax r \<ge> 200 then
         rbind (say ''Invalid syscall number or Not Mapped'' [] s) (\<lambda>s. Inr (ResumeFrame reg, s))
       else
         rbind (dispatch garbage reg r s) (\<lambda>(out, s).
           case out of
             Ret v \<Rightarrow>
               rbind (kstore64 (reg + off_rax) v s) (\<lambda>s. Inr (ResumeFrame reg, s\<lparr>RING_0_MODE := 0\<rparr>))
           | _ \<Rightarrow> Inr (out, s)))"

section \<open>Page faults\<close>

definition pagemama :: "u64 \<Rightarrow> u64 \<Rightarrow> 'a kernel \<Rightarrow> 'a kernel res" where
  "pagemama err_code addr s =
     (if RING_0_MODE s = 1 then demand addr s
      else
        rbind (act s) (\<lambda>a.
        rbind (IsPageInVmaList (mmstruct (all_pro s a)) addr s) (\<lambda>inside.
          if inside then
            (if err_code = 7 then
               rbind (check_cow addr s) (\<lambda>chk. if chk then cow addr s else Inr s)
             else demand addr s)
          else
            rbind (say (''error code: %p'' @ [CHR 0x0A]) [VU64 err_code] s)
              (ThrowSegmentationFault addr))))"

section \<open>Exceptions\<close>

text \<open>\<open>cr2\<close> is the address register of page faults.\<close>

definition protection_fault :: "u64 \<Rightarrow> 'a kernel \<Rightarrow> 'a kernel res" where
  "protection_fault cr2 s = ThrowSecurityError cr2 s"

definition divide_by_zero :: "'a kernel \<Rightarrow> 'a kernel res" where
  "divide_by_zero s = say (''Error:Divide by zero exception'' @ [CHR 0x0A]) [] s"

definition yomama :: "'a kernel \<Rightarrow> 'a kernel res" where
  "yomama s = say ''YoMAMA'' [] s"

section \<open>Keyboard and timer\<close>

definition keymama :: "u8 \<Rightarrow> 'a kernel \<Rightarrow> 'a kernel res" where
  "keymama port s = rbind (tunnel port (con s)) (\<lambda>c. Inr (s\<lparr>con := c\<rparr>))"

end
