(* ===== verification/User_Mode.thy ===== *)
theory User_Mode
  imports Interrupts
begin

text \<open>
  What a user program sees of the machine: memory accesses that the processor checks and
  that the page fault handler may repair, and the software interrupt of a system call.
\<close>

section \<open>Memory accesses of user code\<close>

text \<open>
  The error code with which the processor reports an access, if it faults: bit 0 is set for
  a page that is present, bit 1 for a write, and bit 2 for user mode. The flags of the
  upper levels allow everything.
\<close>

definition user_fault :: "bool \<Rightarrow> u64 \<Rightarrow> 'a machine_scheme \<Rightarrow> u64 option" where
  "user_fault write a s =
     (case walk_to s [p1_index a, p2_index a, p3_index a] of
        None \<Rightarrow> Some (if write then 6 else 4)
      | Some T \<Rightarrow>
          (let e = pte (pmem s) T (p4_index a)
           in if e AND 1 = 0 then Some (if write then 6 else 4)
              else if e AND 4 = 0 \<or> write \<and> e AND 2 = 0 then Some (if write then 7 else 5)
              else None))"

text \<open>
  An access that faults is repeated after the handler has returned; one that faults again
  does so forever.
\<close>

definition user_access :: "bool \<Rightarrow> u64 \<Rightarrow> 'a kernel \<Rightarrow> 'a kernel res" where
  "user_access write a s =
     (case user_fault write a s of
        None \<Rightarrow> Inr s
      | Some e \<Rightarrow>
          rbind (pagemama e a s) (\<lambda>s. if user_fault write a s = None then Inr s else Inl Unterminated))"

definition uload8 :: "u64 \<Rightarrow> 'a kernel \<Rightarrow> (u8 \<times> 'a kernel) res" where
  "uload8 a s = rbind (user_access False a s) (\<lambda>s. rbind (vload8 a s) (\<lambda>b. Inr (b, s)))"

definition ustore8 :: "u64 \<Rightarrow> u8 \<Rightarrow> 'a kernel \<Rightarrow> 'a kernel res" where
  "ustore8 a v s = rbind (user_access True a s) (vstore8 a v)"

section \<open>System calls of user code\<close>

text \<open>
  The instruction \<open>int 0x80\<close> with the registers \<open>r\<close>; \<open>reg\<close> is where the stub saves them on the kernel
  stack. The result is what the handler returns, or how the processor leaves the process.
\<close>

definition int80 :: "string \<Rightarrow> u64 \<Rightarrow> gpr_t \<Rightarrow> 'a kernel \<Rightarrow> (outcome \<times> 'a kernel) res" where
  "int80 garbage reg r s =
     (let s = s\<lparr>RING_0_MODE := 1\<rparr>
      in if rax r \<ge> 200 then
           rbind (say ''Invalid syscall number or Not Mapped'' [] s) (\<lambda>s. Inr (Ret (rax r), s))
         else
           rbind (dispatch garbage reg r s) (\<lambda>(out, s).
             case out of Ret v \<Rightarrow> Inr (Ret v, s\<lparr>RING_0_MODE := 0\<rparr>) | _ \<Rightarrow> Inr (out, s)))"

text \<open>
  The state of a program between two calls: the uninitialised buffer of exec, the place of
  the saved registers, and the registers.
\<close>

record user =
  ugarbage :: string
  uframe :: u64
  uregs :: gpr_t

text \<open>
  A function of a user program either comes to its end with a value, or the process leaves
  the processor inside a system call and goes on later.
\<close>

type_synonym ('v, 'a) ures = "((outcome + 'v) \<times> 'a kernel) res"

definition ubind :: "('v, 'a) ures \<Rightarrow> ('v \<Rightarrow> 'a kernel \<Rightarrow> ('w, 'a) ures) \<Rightarrow> ('w, 'a) ures" where
  "ubind m f = rbind m (\<lambda>(x, s). case x of Inl out \<Rightarrow> Inr (Inl out, s) | Inr v \<Rightarrow> f v s)"

definition ureturn :: "'v \<Rightarrow> 'a kernel \<Rightarrow> ('v, 'a) ures" where
  "ureturn v s = Inr (Inr v, s)"

definition ucall :: "'u user_scheme \<Rightarrow> (gpr_t \<Rightarrow> gpr_t) \<Rightarrow> 'a kernel \<Rightarrow> (u64, 'a) ures" where
  "ucall u f s =
     rbind (int80 (ugarbage u) (uframe u) (f (uregs u)) s) (\<lambda>(out, s).
       Inr (case out of Ret v \<Rightarrow> Inr v | _ \<Rightarrow> Inl out, s))"

lemma ubind_simps [simp]:
  "ubind (Inl e) f = Inl e" "ubind (Inr (Inl out, s)) f = Inr (Inl out, s)" "ubind (Inr (Inr v, s)) f = f v s"
  "ubind (ureturn v s) f = f v s"
  by (simp_all add: ubind_def ureturn_def)

text \<open>
  An \<open>int\<close> operand that is read as eight bytes: \<open>junk\<close> is what the four bytes behind it hold.
\<close>

definition wide :: "u64 \<Rightarrow> int \<Rightarrow> u64" where
  "wide junk i = push_bit 32 junk OR take_bit 32 (of_int i)"

end
