(* ===== verification/Libc.thy ===== *)
theory Libc
  imports User_Mode
begin

text \<open>
  The C library of user programs, \<open>libc/\<close>: string comparison, formatting, and the functions that
  load the registers and execute \<open>int 0x80\<close>. Registers that a function does not load keep what
  the program has in them. The functions \<open>strncmp\<close> and \<open>strlen\<close> of \<open>libc/string.c\<close> are, word for
  word, those of \<open>sys/Utils/kstring.c\<close> and share their definitions.
\<close>

section \<open>String comparison\<close>

definition strcmp_end :: "char \<Rightarrow> char \<Rightarrow> int" where
  "strcmp_end a b =
     (if a = NUL \<and> b = NUL then 0
      else if a = NUL \<and> b \<noteq> NUL then -1
      else if a \<noteq> NUL \<and> b = NUL then 1
      else 2)"

function strcmp_from :: "string \<Rightarrow> string \<Rightarrow> nat \<Rightarrow> int" where
  "strcmp_from str1 str2 i =
     (if cget str1 i \<noteq> NUL \<and> cget str2 i \<noteq> NUL then
        (if cget str1 i = cget str2 i then strcmp_from str1 str2 (i + 1)
         else if schar (cget str1 i) < schar (cget str2 i) then -1
         else if schar (cget str1 i) > schar (cget str2 i) then 1
         else strcmp_from str1 str2 (i + 1))
      else strcmp_end (cget str1 i) (cget str2 i))"
  by pat_completeness auto
termination
  by (relation "measure (\<lambda>(str1, _, i). length str1 - i)") (auto simp: cget_def split: if_splits)

declare strcmp_from.simps [simp del]

definition strcmp :: "string \<Rightarrow> string \<Rightarrow> int" where
  "strcmp str1 str2 = strcmp_from str1 str2 0"

section \<open>Formatting\<close>

text \<open>
  The digits that \<open>printfflushint\<close> and \<open>printfflushhex\<close> append to the text. For 0 the decimal digit
  that is stored first is overwritten by the terminator.
\<close>

definition printfflushint :: "int \<Rightarrow> string" where
  "printfflushint n = reverse_in_place (rev_digits n)"

definition printfflushhex :: "u64 \<Rightarrow> string" where
  "printfflushhex num = reverse_in_place (rev_hex (unat num))"

text \<open>The loop of \<open>printf\<close>: the characters stored in \<open>args\<close>.\<close>

fun printf_text :: "string \<Rightarrow> vararg list \<Rightarrow> string res" where
  "printf_text [] ap = Inr []"
| "printf_text (ch # fmt) ap =
     (if ch = CHR ''%'' \<and> cget fmt 0 = CHR ''s'' then
        (case ap of VStr s # ap \<Rightarrow> rbind (printf_text (tl fmt) ap) (\<lambda>t. Inr (s @ t)) | _ \<Rightarrow> Inl OutOfBounds)
      else if ch = CHR ''%'' \<and> cget fmt 0 = CHR ''c'' then
        (case ap of VInt d # ap \<Rightarrow> rbind (printf_text (tl fmt) ap) (\<lambda>t. Inr (to_char d # t)) | _ \<Rightarrow> Inl OutOfBounds)
      else if ch = CHR ''%'' \<and> cget fmt 0 = CHR ''d'' then
        (case ap of VInt d # ap \<Rightarrow> rbind (printf_text (tl fmt) ap) (\<lambda>t. Inr (printfflushint d @ t))
         | _ \<Rightarrow> Inl OutOfBounds)
      else if ch = CHR ''%'' \<and> cget fmt 0 = CHR ''x'' then
        (case ap of VInt d # ap \<Rightarrow> rbind (printf_text (tl fmt) ap) (\<lambda>t. Inr (printfflushhex (of_int d) @ t))
         | _ \<Rightarrow> Inl OutOfBounds)
      else if ch = CHR ''%'' \<and> cget fmt 0 = CHR ''p'' then
        (case ap of VU64 a # ap \<Rightarrow> rbind (printf_text (tl fmt) ap) (\<lambda>t. Inr (printfflushhex a @ t))
         | _ \<Rightarrow> Inl OutOfBounds)
      else rbind (printf_text fmt ap) (\<lambda>t. Inr (ch # t)))"

section \<open>Output\<close>

text \<open>Four bytes of an \<open>int\<close> in memory.\<close>

definition ustore32 :: "u64 \<Rightarrow> int \<Rightarrow> 'a kernel \<Rightarrow> 'a kernel res" where
  "ustore32 a v s = rfold (\<lambda>k. ustore8 (a + of_nat k) (byte_of (of_int v) k)) [0..<4] s"

definition uload32 :: "u64 \<Rightarrow> 'a kernel \<Rightarrow> (int \<times> 'a kernel) res" where
  "uload32 a s =
     rfold (\<lambda>k (v, s). rbind (uload8 (a + of_nat k) s) (\<lambda>(b, s).
        Inr (if k = 3 then v + 2 ^ 24 * sint b else v + 2 ^ (8 * k) * uint b, s))) [0..<4] (0, s)"

text \<open>The parameter \<open>c\<close> lies on the stack at \<open>p\<close>; its address is handed to the kernel.\<close>

definition putchar :: "'u user_scheme \<Rightarrow> u64 \<Rightarrow> int \<Rightarrow> 'a kernel \<Rightarrow> (int, 'a) ures" where
  "putchar u p c s =
     rbind (ustore32 p c s) (\<lambda>s.
       ubind (ucall u (\<lambda>r. r\<lparr>rax := 1, rdi := 1, rsi := p, rdx := 1\<rparr>) s) (\<lambda>write_count.
         ureturn (if write_count = 1 then c else -1)))"

definition putcharcolor :: "'u user_scheme \<Rightarrow> u64 \<Rightarrow> int \<Rightarrow> 'a kernel \<Rightarrow> (int, 'a) ures" where
  "putcharcolor u p c s =
     rbind (ustore32 p c s) (\<lambda>s.
       ubind (ucall u (\<lambda>r. r\<lparr>rax := 98, rdi := 1, rsi := p, rdx := 1\<rparr>) s) (\<lambda>write_count.
         ureturn (if write_count = 1 then c else -1)))"

partial_function (option) puts_loop :: "'u user_scheme \<Rightarrow> u64 \<Rightarrow> u64 \<Rightarrow> 'a kernel \<Rightarrow> (int, 'a) ures option" where
  "puts_loop u p a s =
     (case uload8 a s of
        Inl e \<Rightarrow> Some (Inl e)
      | Inr (b, s) \<Rightarrow>
          if b = 0 then Some (ureturn 0 s)
          else (case putchar u p (sint b) s of
             Inl e \<Rightarrow> Some (Inl e)
           | Inr (Inl out, s) \<Rightarrow> Some (Inr (Inl out, s))
           | Inr (Inr _, s) \<Rightarrow> puts_loop u p (a + 1) s))"

definition puts :: "'u user_scheme \<Rightarrow> u64 \<Rightarrow> u64 \<Rightarrow> 'a kernel \<Rightarrow> (int, 'a) ures" where
  "puts u p a s = run_loop (puts_loop u p a s)"

text \<open>
  \<open>puts\<close> of a string literal; the literals of a program are in its read-only data, which is
  present.
\<close>

fun puts_literal :: "'u user_scheme \<Rightarrow> u64 \<Rightarrow> string \<Rightarrow> 'a kernel \<Rightarrow> (int, 'a) ures" where
  "puts_literal u p [] s = ureturn 0 s"
| "puts_literal u p (c # cs) s = ubind (putchar u p (schar c) s) (\<lambda>_. puts_literal u p cs)"

text \<open>\<open>printf\<close>: the text is built in the array \<open>args[1024]\<close>, at \<open>buf\<close> on the stack.\<close>

definition printf :: "'u user_scheme \<Rightarrow> u64 \<Rightarrow> u64 \<Rightarrow> string \<Rightarrow> vararg list \<Rightarrow> 'a kernel \<Rightarrow> (int, 'a) ures" where
  "printf u p buf pfmt ap s =
     rbind (printf_text pfmt ap) (\<lambda>t.
       if length t < 1024 then
         rbind (rfold (\<lambda>i. ustore8 (buf + of_nat i) (of_char (cget t i))) [0..<length t + 1] s) (puts u p buf)
       else Inl OutOfBounds)"

definition gets :: "'u user_scheme \<Rightarrow> u64 \<Rightarrow> 'a kernel \<Rightarrow> (int, 'a) ures" where
  "gets u buff s =
     ubind (ucall u (\<lambda>r. r\<lparr>rax := 0, rdi := 0, rsi := buff, rdx := 1\<rparr>) s) (\<lambda>v. ureturn (to_int32 v))"

section \<open>Memory\<close>

definition malloc :: "'u user_scheme \<Rightarrow> u64 \<Rightarrow> 'a kernel \<Rightarrow> (u64, 'a) ures" where
  "malloc u sz s =
     ucall u (\<lambda>r. r\<lparr>rax := 9, rdi := 0, rsi := sz, rdx := 3, r10 := 0x21, r9 := -1, r8 := 0\<rparr>) s"

text \<open>\<open>sizeof(*ptr)\<close> of a \<open>void *\<close> is 1.\<close>

definition free :: "'u user_scheme \<Rightarrow> u64 \<Rightarrow> 'a kernel \<Rightarrow> (unit, 'a) ures" where
  "free u ptr s = ubind (ucall u (\<lambda>r. r\<lparr>rax := 11, rdi := ptr, rsi := 1\<rparr>) s) (\<lambda>_. ureturn ())"

section \<open>Processes\<close>

definition exit :: "'u user_scheme \<Rightarrow> int \<Rightarrow> 'a kernel \<Rightarrow> (unit, 'a) ures" where
  "exit u status s = ubind (ucall u (\<lambda>r. r\<lparr>rax := 60, rdi := of_int status\<rparr>) s) (\<lambda>_. ureturn ())"

definition execvpe :: "'u user_scheme \<Rightarrow> u64 \<Rightarrow> u64 \<Rightarrow> u64 \<Rightarrow> 'a kernel \<Rightarrow> (int, 'a) ures" where
  "execvpe u filename argv envp s =
     ubind (ucall u (\<lambda>r. r\<lparr>rax := 59, rdi := filename, rsi := argv, rdx := envp\<rparr>) s)
       (\<lambda>v. ureturn (to_int32 v))"

definition fork :: "'u user_scheme \<Rightarrow> 'a kernel \<Rightarrow> (u64, 'a) ures" where
  "fork u s = ucall u (\<lambda>r. r\<lparr>rax := 57\<rparr>) s"

definition yield :: "'u user_scheme \<Rightarrow> 'a kernel \<Rightarrow> (unit, 'a) ures" where
  "yield u s = ubind (ucall u (\<lambda>r. r\<lparr>rax := 58\<rparr>) s) (\<lambda>_. ureturn ())"

text \<open>The \<open>int\<close> operand \<open>pid\<close> is loaded as eight bytes; \<open>junk\<close> is behind it.\<close>

definition wait :: "'u user_scheme \<Rightarrow> u64 \<Rightarrow> u64 \<Rightarrow> 'a kernel \<Rightarrow> (u64, 'a) ures" where
  "wait u junk status s = ucall u (\<lambda>r. r\<lparr>rax := 61, rdi := wide junk (-1), rsi := status\<rparr>) s"

definition waitpid :: "'u user_scheme \<Rightarrow> u64 \<Rightarrow> u64 \<Rightarrow> int \<Rightarrow> u64 \<Rightarrow> int \<Rightarrow> 'a kernel \<Rightarrow> (int, 'a) ures" where
  "waitpid u p junk child status options s =
     ubind (if options > 0 then puts_literal u p (''Need to implement waitpid with WNOHANG'' @ [CHR 0x0A]) s
            else ureturn 0 s) (\<lambda>_ s.
       ubind (ucall u (\<lambda>r. r\<lparr>rax := 61, rdi := wide junk child, rsi := status\<rparr>) s) (\<lambda>v. ureturn (to_int32 v)))"

definition kill :: "'u user_scheme \<Rightarrow> u64 \<Rightarrow> u64 \<Rightarrow> 'a kernel \<Rightarrow> (int, 'a) ures" where
  "kill u p target s =
     (if target = 1 then ubind (puts_literal u p ''Permission denied'' s) (\<lambda>_. ureturn 0)
      else ubind (ucall u (\<lambda>r. r\<lparr>rax := 53, rdi := target\<rparr>) s) (\<lambda>_. ureturn 1))"

text \<open>\<open>dup2\<close>, \<open>execvp\<close> and \<open>execve\<close> only print a message.\<close>

definition dup2 :: "'u user_scheme \<Rightarrow> u64 \<Rightarrow> 'a kernel \<Rightarrow> (int, 'a) ures" where
  "dup2 u p s = ubind (puts_literal u p ''We dont support dup2'' s) (\<lambda>_. ureturn (-1))"

definition execvp :: "'u user_scheme \<Rightarrow> u64 \<Rightarrow> 'a kernel \<Rightarrow> (int, 'a) ures" where
  "execvp u p s = ubind (puts_literal u p ''Need to implement execvp'' s) (\<lambda>_. ureturn (-1))"

definition execve :: "'u user_scheme \<Rightarrow> u64 \<Rightarrow> 'a kernel \<Rightarrow> (int, 'a) ures" where
  "execve u p s =
     ubind (puts_literal u p (''Need to implement execvp'' @ [CHR 0x0A]) s) (\<lambda>_. ureturn (-1))"

text \<open>
  \<open>sleep\<close> asks for the time until it differs from the first answer other than 0 by the given
  number of seconds. Each round first delivers the timer interrupts that happen: \<open>ticks k\<close>
  of them before the question number \<open>k\<close>.
\<close>

partial_function (option) sleep_loop ::
    "'u user_scheme \<Rightarrow> (nat \<Rightarrow> nat) \<Rightarrow> u32 \<Rightarrow> u64 \<Rightarrow> u64 \<Rightarrow> nat \<Rightarrow> 'a kernel \<Rightarrow> (u32, 'a) ures option" where
  "sleep_loop u ticks seconds start now k s =
     (if now - start = ucast seconds then Some (ureturn (ucast (now - start)) s)
      else (case ucall u (\<lambda>r. r\<lparr>rax := 56\<rparr>) (s\<lparr>con := (timemama ^^ ticks k) (con s)\<rparr>) of
         Inl e \<Rightarrow> Some (Inl e)
       | Inr (Inl out, s) \<Rightarrow> Some (Inr (Inl out, s))
       | Inr (Inr now, s) \<Rightarrow> sleep_loop u ticks seconds (if start = 0 then now else start) now (k + 1) s))"

definition sleep :: "'u user_scheme \<Rightarrow> (nat \<Rightarrow> nat) \<Rightarrow> u32 \<Rightarrow> 'a kernel \<Rightarrow> (u32, 'a) ures" where
  "sleep u ticks seconds s = run_loop (sleep_loop u ticks seconds 0 0 0 s)"

section \<open>Files and directories\<close>

definition chdir :: "'u user_scheme \<Rightarrow> u64 \<Rightarrow> 'a kernel \<Rightarrow> (int, 'a) ures" where
  "chdir u in_path s =
     ubind (ucall u (\<lambda>r. r\<lparr>rax := 80, rdi := in_path\<rparr>) s) (\<lambda>v. ureturn (to_int32 v))"

text \<open>\<open>getcwd\<close> allocates a buffer that it does not use.\<close>

definition getcwd :: "'u user_scheme \<Rightarrow> u64 \<Rightarrow> u64 \<Rightarrow> 'a kernel \<Rightarrow> (u64, 'a) ures" where
  "getcwd u buf sz s =
     ubind (malloc u sz s) (\<lambda>_. ucall u (\<lambda>r. r\<lparr>rax := 79, rdi := buf, rsi := sz\<rparr>))"

definition open_file :: "'u user_scheme \<Rightarrow> u64 \<Rightarrow> u64 \<Rightarrow> int \<Rightarrow> 'a kernel \<Rightarrow> (int, 'a) ures" where
  "open_file u junk pathname flags s =
     ubind (ucall u (\<lambda>r. r\<lparr>rax := 2, rdi := pathname, rsi := wide junk flags\<rparr>) s) (\<lambda>v. ureturn (to_int32 v))"

definition read :: "'u user_scheme \<Rightarrow> u64 \<Rightarrow> int \<Rightarrow> u64 \<Rightarrow> u64 \<Rightarrow> 'a kernel \<Rightarrow> (int, 'a) ures" where
  "read u junk fdes buf count s =
     ubind (ucall u (\<lambda>r. r\<lparr>rax := 0, rdi := wide junk fdes, rsi := buf, rdx := count\<rparr>) s)
       (\<lambda>v. ureturn (to_int32 v))"

definition close :: "'u user_scheme \<Rightarrow> u64 \<Rightarrow> int \<Rightarrow> 'a kernel \<Rightarrow> (int, 'a) ures" where
  "close u junk fdes s =
     ubind (ucall u (\<lambda>r. r\<lparr>rax := 3, rdi := wide junk fdes\<rparr>) s) (\<lambda>v. ureturn (to_int32 v))"

text \<open>The field \<open>fd\<close> is at offset 28 of the 32 bytes of a \<open>File\<close>.\<close>

definition mode_flags :: "string \<Rightarrow> int" where
  "mode_flags filemode =
     (if strcmp filemode ''r'' = 0 then 0
      else if strcmp filemode ''w'' = 0 then 0x801
      else if strcmp filemode ''r+'' = 0 then 2
      else if strcmp filemode ''w+'' = 0 then 0x802
      else if strcmp filemode ''a+'' = 0 then 0x1000
      else 0)"

definition fopen :: "'u user_scheme \<Rightarrow> u64 \<Rightarrow> u64 \<Rightarrow> string \<Rightarrow> 'a kernel \<Rightarrow> (u64, 'a) ures" where
  "fopen u junk pathname mode s =
     ubind (malloc u 32 s) (\<lambda>fl s.
     ubind (open_file u junk pathname (mode_flags mode) s) (\<lambda>f s.
     rbind (ustore32 (fl + 28) f s) (ureturn (if f < 0 then 0 else fl))))"

definition fgetc :: "'u user_scheme \<Rightarrow> u64 \<Rightarrow> u64 \<Rightarrow> 'a kernel \<Rightarrow> (char, 'a) ures" where
  "fgetc u junk fp s =
     rbind (uload32 (fp + 28) s) (\<lambda>(fdes, s).
     ubind (malloc u 4096 s) (\<lambda>buff s.
     ubind (read u junk fdes buff 1 s) (\<lambda>read_count s.
     rbind (uload8 buff s) (\<lambda>(ch, s).
     ubind (free u buff s) (\<lambda>_.
       ureturn (if read_count \<noteq> 0 then char_of (unat ch) else NUL))))))"

definition fclose :: "'u user_scheme \<Rightarrow> u64 \<Rightarrow> u64 \<Rightarrow> 'a kernel \<Rightarrow> (int, 'a) ures" where
  "fclose u junk fp s = rbind (uload32 (fp + 28) s) (\<lambda>(fdes, s). close u junk fdes s)"

definition opendir :: "'u user_scheme \<Rightarrow> u64 \<Rightarrow> 'a kernel \<Rightarrow> (u64, 'a) ures" where
  "opendir u nm s = ucall u (\<lambda>r. r\<lparr>rax := 62, rdi := nm\<rparr>) s"

definition readdir :: "'u user_scheme \<Rightarrow> u64 \<Rightarrow> 'a kernel \<Rightarrow> (u64, 'a) ures" where
  "readdir u dirp s = ucall u (\<lambda>r. r\<lparr>rax := 63, rdi := dirp\<rparr>) s"

text \<open>
  Here, as in \<open>unistd.c\<close>, the result is stored with eight bytes into an \<open>int\<close> on the stack of the
  program. The local variables are values in this model; the four bytes behind the \<open>int\<close> are not part of it.
\<close>

definition closedir :: "'u user_scheme \<Rightarrow> u64 \<Rightarrow> 'a kernel \<Rightarrow> (int, 'a) ures" where
  "closedir u dirp s =
     ubind (ucall u (\<lambda>r. r\<lparr>rax := 64, rdi := dirp\<rparr>) s) (\<lambda>v. ureturn (to_int32 v))"

end
