(* ===== verification/Programs.thy ===== *)
theory Programs
  imports Libc
begin

text \<open>
  What the programs in \<open>bin/\<close> share: the places of their data, strings and pointers in their
  memory, the entry code \<open>crt/crt1.c\<close>, and the loop over the entries of a directory. Strings
  that are taken apart are read from memory in one piece first.
\<close>

section \<open>The program's memory\<close>

text \<open>
  Where the compiler has put the string literals, the parameter of \<open>putchar\<close> and the array of
  \<open>printf\<close>; \<open>junk\<close> lies behind the \<open>int\<close> operands.
\<close>

record program = user +
  lits :: "string \<Rightarrow> u64"
  slot :: u64
  pbuf :: u64
  junk :: u64

partial_function (option) ustr_loop :: "u64 \<Rightarrow> string \<Rightarrow> 'a kernel \<Rightarrow> (string \<times> 'a kernel) res option" where
  "ustr_loop a acc s =
     (case uload8 a s of
        Inl e \<Rightarrow> Some (Inl e)
      | Inr (b, s) \<Rightarrow> if b = 0 then Some (Inr (acc, s)) else ustr_loop (a + 1) (acc @ [char_of (unat b)]) s)"

definition ustr :: "u64 \<Rightarrow> 'a kernel \<Rightarrow> (string \<times> 'a kernel) res" where
  "ustr a s = run_loop (ustr_loop a [] s)"

definition ustore_chars :: "u64 \<Rightarrow> string \<Rightarrow> 'a kernel \<Rightarrow> 'a kernel res" where
  "ustore_chars a str s = rfold (\<lambda>i. ustore8 (a + of_nat i) (of_char (str ! i))) [0..<length str] s"

definition uload64 :: "u64 \<Rightarrow> 'a kernel \<Rightarrow> (u64 \<times> 'a kernel) res" where
  "uload64 a s =
     rfold (\<lambda>k (v, s). rbind (uload8 (a + of_nat k) s) (\<lambda>(b, s). Inr (push_bit (8 * k) (ucast b) OR v, s)))
       [0..<8] (0, s)"

definition ustore64 :: "u64 \<Rightarrow> u64 \<Rightarrow> 'a kernel \<Rightarrow> 'a kernel res" where
  "ustore64 a v s = rfold (\<lambda>k. ustore8 (a + of_nat k) (byte_of v k)) [0..<8] s"

text \<open>The argument number \<open>i\<close>, and its characters.\<close>

definition arg_ptr :: "u64 \<Rightarrow> nat \<Rightarrow> 'a kernel \<Rightarrow> (u64 \<times> 'a kernel) res" where
  "arg_ptr argv i s = uload64 (argv + 8 * of_nat i) s"

definition arg_str :: "u64 \<Rightarrow> nat \<Rightarrow> 'a kernel \<Rightarrow> (string \<times> 'a kernel) res" where
  "arg_str argv i s = rbind (arg_ptr argv i s) (\<lambda>(p, s). ustr p s)"

section \<open>The entry code\<close>

text \<open>\<open>_start\<close>: the kernel has left the vector in \<open>rdi\<close> and the count in \<open>rsi\<close>.\<close>

definition crt_start ::
    "(int \<Rightarrow> u64 \<Rightarrow> 'a kernel \<Rightarrow> (int, 'a) ures) \<Rightarrow> 'u user_scheme \<Rightarrow> 'a kernel \<Rightarrow> (unit, 'a) ures" where
  "crt_start main u s =
     ubind (main (to_int32 (rsi (uregs u))) (rdi (uregs u)) s) (\<lambda>_. exit u 0)"

section \<open>Directories\<close>

text \<open>
  \<open>readdir\<close> returns the address of the field \<open>currDirent\<close>, at offset 264 of the directory object in
  the kernel's heap; the program reads the name there.
\<close>

definition dirent_name :: "u64 \<Rightarrow> 'a kernel \<Rightarrow> string res" where
  "dirent_name ent s = rbind (deref (dirs s (ent - 264))) (\<lambda>d. Inr (d_name d))"

text \<open>The loop \<open>while ((ent = readdir(dir)) != NULL)\<close> with the body \<open>out\<close>.\<close>

partial_function (option) dir_loop ::
    "(string \<Rightarrow> 'a kernel \<Rightarrow> (int, 'a) ures) \<Rightarrow> 'u user_scheme \<Rightarrow> u64 \<Rightarrow> 'a kernel \<Rightarrow> (unit, 'a) ures option" where
  "dir_loop out u dir s =
     (case ubind (readdir u dir s) (\<lambda>ent s.
             if ent = 0 then ureturn True s
             else rbind (dirent_name ent s) (\<lambda>nm. ubind (out nm s) (\<lambda>_. ureturn False))) of
        Inl e \<Rightarrow> Some (Inl e)
      | Inr (Inl left, s) \<Rightarrow> Some (Inr (Inl left, s))
      | Inr (Inr end_reached, s) \<Rightarrow> if end_reached then Some (ureturn () s) else dir_loop out u dir s)"

end
