(* ===== verification/Shell.thy ===== *)
theory Shell
  imports Programs Kstring
begin

text \<open>
  The shell \<open>bin/sbush\<close>: what \<open>main\<close> of \<open>sbush_test.c\<close> reaches, on the C library and the memory of the
  process. Code behind an unconditional \<open>return\<close> is left out.
\<close>

section \<open>The state\<close>

text \<open>
  The places of the argument vector and the status of the functions that start a program, and of
  the line buffer of a script.
\<close>

record shell = program +
  argv :: u64
  status :: u64
  cmdbuf :: u64

section \<open>Output\<close>

text \<open>The loops of \<open>shputs\<close> and \<open>shputscolor\<close> over the characters, up to the first that fails.\<close>

partial_function (option) shputs_loop :: "'u shell_scheme \<Rightarrow> u64 \<Rightarrow> 'a kernel \<Rightarrow> (int, 'a) ures option" where
  "shputs_loop u a s =
     (case uload8 a s of
        Inl e \<Rightarrow> Some (Inl e)
      | Inr (b, s) \<Rightarrow>
          if b = 0 then Some (ureturn 0 s)
          else (case putchar u (slot u) (sint b) s of
             Inl e \<Rightarrow> Some (Inl e)
           | Inr (Inl out, s) \<Rightarrow> Some (Inr (Inl out, s))
           | Inr (Inr r, s) \<Rightarrow> if r \<noteq> sint b then Some (ureturn (-1) s) else shputs_loop u (a + 1) s))"

definition shputs :: "'u shell_scheme \<Rightarrow> u64 \<Rightarrow> 'a kernel \<Rightarrow> (int, 'a) ures" where
  "shputs u a s = run_loop (shputs_loop u a s)"

partial_function (option) shputscolor_loop :: "'u shell_scheme \<Rightarrow> u64 \<Rightarrow> 'a kernel \<Rightarrow> (int, 'a) ures option" where
  "shputscolor_loop u a s =
     (case uload8 a s of
        Inl e \<Rightarrow> Some (Inl e)
      | Inr (b, s) \<Rightarrow>
          if b = 0 then Some (ureturn 0 s)
          else (case putcharcolor u (slot u) (sint b) s of
             Inl e \<Rightarrow> Some (Inl e)
           | Inr (Inl out, s) \<Rightarrow> Some (Inr (Inl out, s))
           | Inr (Inr r, s) \<Rightarrow> if r \<noteq> sint b then Some (ureturn (-1) s) else shputscolor_loop u (a + 1) s))"

definition shputscolor :: "'u shell_scheme \<Rightarrow> u64 \<Rightarrow> 'a kernel \<Rightarrow> (int, 'a) ures" where
  "shputscolor u a s = run_loop (shputscolor_loop u a s)"

text \<open>The same for a string literal.\<close>

fun shputs_text :: "'u shell_scheme \<Rightarrow> string \<Rightarrow> 'a kernel \<Rightarrow> (int, 'a) ures" where
  "shputs_text u [] s = ureturn 0 s"
| "shputs_text u (c # cs) s =
     ubind (putchar u (slot u) (schar c) s) (\<lambda>r s. if r \<noteq> schar c then ureturn (-1) s else shputs_text u cs s)"

fun shputscolor_text :: "'u shell_scheme \<Rightarrow> string \<Rightarrow> 'a kernel \<Rightarrow> (int, 'a) ures" where
  "shputscolor_text u [] s = ureturn 0 s"
| "shputscolor_text u (c # cs) s =
     ubind (putcharcolor u (slot u) (schar c) s) (\<lambda>r s. if r \<noteq> schar c then ureturn (-1) s else shputscolor_text u cs s)"

section \<open>Words\<close>

text \<open>\<open>mystrtok\<close> with the position \<open>pos\<close>; the token is a fresh block.\<close>

definition strtok :: "'u shell_scheme \<Rightarrow> u64 \<Rightarrow> char \<Rightarrow> nat \<Rightarrow> 'a kernel \<Rightarrow> (u64 \<times> nat, 'a) ures" where
  "strtok u str delim pos s =
     rbind (ustr str s) (\<lambda>(txt, s).
       case tok_scan txt delim pos None of
         (None, i) \<Rightarrow> ureturn (0, pos) s
       | (Some start, i) \<Rightarrow>
           ubind (malloc u (of_nat (i - 1) - of_nat start + 5) s) (\<lambda>token s.
           rbind (ustore_chars token (substr txt start i @ [NUL]) s) (ureturn (token, i))))"

text \<open>The loop of \<open>SplitString\<close>; \<open>vector\<close> has room for 20 pointers.\<close>

partial_function (option) split_words ::
    "'u shell_scheme \<Rightarrow> u64 \<Rightarrow> u64 \<Rightarrow> nat \<Rightarrow> nat \<Rightarrow> 'a kernel \<Rightarrow> (nat, 'a) ures option" where
  "split_words u str vector pos i s =
     (case ubind (strtok u str CHR '' '' pos s) (\<lambda>(token, pos) s.
              rbind (if i < 20 then ustore64 (vector + 8 * of_nat i) token s else Inl OutOfBounds)
                (ureturn (token, pos))) of
        Inl e \<Rightarrow> Some (Inl e)
      | Inr (Inl out, s) \<Rightarrow> Some (Inr (Inl out, s))
      | Inr (Inr (token, pos), s) \<Rightarrow>
          if token = 0 then Some (ureturn i s) else split_words u str vector pos (i + 1) s)"

text \<open>For the null pointer the count is not assigned.\<close>

definition SplitLine :: "'u shell_scheme \<Rightarrow> u64 \<Rightarrow> 'a kernel \<Rightarrow> (u64 \<times> nat, 'a) ures" where
  "SplitLine u str_copy s =
     (if str_copy = 0 then ureturn (0, nat (to_int32 (junk u))) s
      else
     ubind (malloc u 1024 s) (\<lambda>str s.
     rbind (ustr str_copy s) (\<lambda>(txt, s).
     if length txt \<ge> 1024 then Inl OutOfBounds
     else
       rbind (ustore_chars str (txt @ [NUL]) s) (\<lambda>s.
       ubind (malloc u (8 * 20) s) (\<lambda>vector s.
       ubind (run_loop (split_words u str vector 0 0 s)) (\<lambda>n. ureturn (vector, n)))))))"

text \<open>\<open>ValidString\<close>; the comparison is without sign, so that the empty line is valid.\<close>

definition ValidString :: "string \<Rightarrow> bool" where
  "ValidString line =
     (if cget line 0 = CHR 0x0A then False
      else (of_nat (length (filter (\<lambda>c. c = CHR '' '') line)) :: u64) \<le> of_nat (strlen line) - 1)"

text \<open>\<open>getargs\<close> returns its argument before it expands variables.\<close>

definition getargs :: "u64 \<Rightarrow> u64" where
  "getargs args = args"

section \<open>Directories\<close>

definition GetCurrentDir :: "'u shell_scheme \<Rightarrow> 'a kernel \<Rightarrow> (u64, 'a) ures" where
  "GetCurrentDir u s =
     ubind (malloc u 1024 s) (\<lambda>cwd s.
     ubind (getcwd u cwd 1024 s) (\<lambda>r. ureturn (if r \<noteq> 0 then cwd else 0)))"

definition ChangeDirectory :: "'u shell_scheme \<Rightarrow> u64 \<Rightarrow> 'a kernel \<Rightarrow> (int, 'a) ures" where
  "ChangeDirectory u dest s = ubind (chdir u dest s) (\<lambda>_. ureturn 0)"

text \<open>An absolute path is copied without its terminator.\<close>

definition GetAbsolutePath :: "'u shell_scheme \<Rightarrow> u64 \<Rightarrow> 'a kernel \<Rightarrow> (u64, 'a) ures" where
  "GetAbsolutePath u pth s =
     ubind (malloc u 1024 s) (\<lambda>absolutePath s.
     rbind (ustr pth s) (\<lambda>(p, s).
       if cget p 0 = CHR ''/'' then rbind (ustore_chars absolutePath p s) (ureturn absolutePath)
       else
         ubind (GetCurrentDir u s) (\<lambda>currDir s.
         rbind (ustr currDir s) (\<lambda>(d, s).
         rbind (ustore_chars absolutePath (d @ p @ [NUL]) s) (ureturn absolutePath)))))"

definition UpdateShellPrompt :: "'u shell_scheme \<Rightarrow> 'a kernel \<Rightarrow> (unit, 'a) ures" where
  "UpdateShellPrompt u s =
     ubind (GetCurrentDir u s) (\<lambda>currDir s.
       if currDir \<noteq> 0 then
         ubind (shputs_text u [CHR 0x0A] s) (\<lambda>_ s.
         ubind (shputscolor u currDir s) (\<lambda>_ s.
         ubind (shputscolor_text u '' sbush> '' s) (\<lambda>_. ureturn ())))
       else ureturn () s)"

text \<open>\<open>TakeInput\<close>; the null pointer stands for a line that is not valid.\<close>

definition TakeInput :: "'u shell_scheme \<Rightarrow> 'a kernel \<Rightarrow> (u64, 'a) ures" where
  "TakeInput u s =
     ubind (malloc u 1024 s) (\<lambda>line s.
     ubind (gets u line s) (\<lambda>n s.
       if n = 0 then ubind (puts_literal u (slot u) (''No line'' @ [CHR 0x0A]) s) (\<lambda>_. ureturn line)
       else
         rbind (ustr line s) (\<lambda>(txt, s).
           if \<not> ValidString txt
           then ubind (puts_literal u (slot u) (''Invalid String'' @ [CHR 0x0A]) s) (\<lambda>_. ureturn 0)
           else ureturn line s)))"

section \<open>Starting programs\<close>

text \<open>
  The code behind the call of \<open>fork\<close>, for the value \<open>child\<close> that it returns to the process: the child
  builds the argument vector and executes the program, the parent waits. A child whose
  program cannot be executed goes on as a shell.
\<close>

definition start_program :: "'u shell_scheme \<Rightarrow> string \<Rightarrow> u64 list \<Rightarrow> 'a kernel \<Rightarrow> (int, 'a) ures" where
  "start_program u prog args s =
     rbind (rfold (\<lambda>i. ustore64 (argv u + 8 * of_nat i) (args ! i)) [0..<length args] s)
       (execvpe u (lits u prog) (if args = [] then 0 else argv u) 0)"

definition wait_parent :: "'u shell_scheme \<Rightarrow> u64 \<Rightarrow> 'a kernel \<Rightarrow> (int, 'a) ures" where
  "wait_parent u child s =
     ubind (if child > 0 then wait u (junk u) (status u) s else ureturn 0 s) (\<lambda>_. ureturn 0)"

definition run_forked :: "'u shell_scheme \<Rightarrow> string \<Rightarrow> u64 list \<Rightarrow> u64 \<Rightarrow> 'a kernel \<Rightarrow> (int, 'a) ures" where
  "run_forked u prog args child s =
     ubind (if child = 0 then start_program u prog args s else ureturn 0 s) (\<lambda>_. wait_parent u child)"

definition ExecuteLS :: "'u shell_scheme \<Rightarrow> u64 \<Rightarrow> 'a kernel \<Rightarrow> (int, 'a) ures" where
  "ExecuteLS u dest s = ubind (fork u s) (run_forked u ''bin/ls'' [dest, 0, 0])"

definition forked_cat :: "'u shell_scheme \<Rightarrow> u64 \<Rightarrow> u64 \<Rightarrow> 'a kernel \<Rightarrow> (int, 'a) ures" where
  "forked_cat u dest child s =
     ubind (if child = 0 then
              ubind (GetAbsolutePath u dest s) (\<lambda>absPath s.
              ubind (start_program u ''/bin/cat'' [absPath, 0, 0] s) (\<lambda>_. free u absPath))
            else ureturn () s) (\<lambda>_. wait_parent u child)"

definition ExecuteCAT :: "'u shell_scheme \<Rightarrow> u64 \<Rightarrow> 'a kernel \<Rightarrow> (int, 'a) ures" where
  "ExecuteCAT u dest s = ubind (fork u s) (forked_cat u dest)"

definition ExecuteEcho :: "'u shell_scheme \<Rightarrow> u64 \<Rightarrow> 'a kernel \<Rightarrow> (int, 'a) ures" where
  "ExecuteEcho u data s = ubind (fork u s) (run_forked u ''bin/echo'' [data, 0, 0])"

definition ExecutePS :: "'u shell_scheme \<Rightarrow> 'a kernel \<Rightarrow> (int, 'a) ures" where
  "ExecutePS u s = ubind (fork u s) (run_forked u ''bin/ps'' [])"

definition ExecuteKill :: "'u shell_scheme \<Rightarrow> u64 \<Rightarrow> 'a kernel \<Rightarrow> (int, 'a) ures" where
  "ExecuteKill u data s = ubind (fork u s) (run_forked u ''bin/kill'' [data, 0, 0])"

section \<open>Commands\<close>

datatype builtin = Cd | Ls | Cat | Echo | Ps | KillCmd

text \<open>A built-in command is recognised by its first letters.\<close>

definition find_builtin :: "string \<Rightarrow> builtin option" where
  "find_builtin cmd =
     (if strncmp cmd ''cd'' 2 = 0 then Some Cd
      else if strncmp cmd ''ls'' 2 = 0 then Some Ls
      else if strncmp cmd ''cat'' 3 = 0 then Some Cat
      else if strncmp cmd ''echo'' 4 = 0 then Some Echo
      else if strncmp cmd ''ps'' 2 = 0 then Some Ps
      else if strncmp cmd ''kill'' 4 = 0 then Some KillCmd
      else None)"

definition ExecuteBuiltIn :: "'u shell_scheme \<Rightarrow> u64 \<Rightarrow> 'a kernel \<Rightarrow> (int, 'a) ures" where
  "ExecuteBuiltIn u vector s =
     rbind (uload64 vector s) (\<lambda>(p, s).
     rbind (ustr p s) (\<lambda>(cmd, s).
       case find_builtin cmd of
         None \<Rightarrow> ureturn 1 s
       | Some Ls \<Rightarrow> ubind (GetCurrentDir u s) (ExecuteLS u)
       | Some Ps \<Rightarrow> ExecutePS u s
       | Some b \<Rightarrow>
           rbind (uload64 (vector + 8) s) (\<lambda>(arg, s).
             (case b of
                Cd \<Rightarrow> ChangeDirectory u arg s
              | Cat \<Rightarrow> ExecuteCAT u arg s
              | Echo \<Rightarrow> ExecuteEcho u arg s
              | _ \<Rightarrow> ExecuteKill u arg s))))"

text \<open>The first characters of a script, at most 18, up to a newline or the end.\<close>

fun script_head :: "'u shell_scheme \<Rightarrow> u64 \<Rightarrow> nat \<Rightarrow> 'a kernel \<Rightarrow> (string, 'a) ures" where
  "script_head u fp 0 s = ureturn [] s"
| "script_head u fp (Suc n) s =
     ubind (fgetc u (junk u) fp s) (\<lambda>c s.
       if c = CHR 0x0A \<or> c = NUL then ureturn [] s
       else ubind (script_head u fp n s) (\<lambda>cs. ureturn (c # cs)))"

text \<open>
  \<open>Execute\<close>, \<open>ExecuteAbsBinary\<close> and the loop over the characters of a script call each other: \<open>exec\<close> is the
  function that the loop calls for a line. In the loop, \<open>line\<close> holds the \<open>k\<close> characters stored in
  \<open>cmd[100]\<close> and \<open>t\<close> says that a comment has begun. At the end of a line the last character is overwritten,
  also when there is none. The line buffers of nested scripts are different ones; the one of
  the outer script is not read again after the inner one has ended.
\<close>

definition script_char ::
    "(u64 \<Rightarrow> u64 \<Rightarrow> nat \<Rightarrow> 'a kernel \<Rightarrow> (int, 'a) ures) \<Rightarrow> 'u shell_scheme \<Rightarrow> char \<Rightarrow> string \<Rightarrow> bool \<Rightarrow> 'a kernel \<Rightarrow>
      (string \<times> bool, 'a) ures" where
  "script_char exec u c line t s =
     (let t = (t \<or> c = CHR ''#'')
      in if c = CHR 0x0A then
           (if line = [] then Inl OutOfBounds
            else if \<not> t then
              rbind (ustore_chars (cmdbuf u) (butlast line @ [NUL]) s) (\<lambda>s.
              ubind (SplitLine u (getargs (cmdbuf u)) s) (\<lambda>(vector, n) s.
              ubind (exec (cmdbuf u) vector n s) (\<lambda>_. ureturn ([], False))))
            else ureturn ([], False) s)
         else if \<not> t then (if length line < 100 then ureturn (line @ [c], t) s else Inl OutOfBounds)
         else ureturn (line, t) s)"

partial_function (option) script_loop ::
    "(u64 \<Rightarrow> u64 \<Rightarrow> nat \<Rightarrow> 'a kernel \<Rightarrow> (int, 'a) ures) \<Rightarrow> 'u shell_scheme \<Rightarrow> u64 \<Rightarrow> char \<Rightarrow> string \<Rightarrow> bool \<Rightarrow> 'a kernel \<Rightarrow>
      (unit, 'a) ures option" where
  "script_loop exec u fp c line t s =
     (if c = NUL then Some (ureturn () s)
      else case ubind (script_char exec u c line t s) (\<lambda>(line, t) s.
                  ubind (fgetc u (junk u) fp s) (\<lambda>c. ureturn (c, line, t))) of
        Inl e \<Rightarrow> Some (Inl e)
      | Inr (Inl out, s) \<Rightarrow> Some (Inr (Inl out, s))
      | Inr (Inr (c, line, t), s) \<Rightarrow> script_loop exec u fp c line t s)"

definition ExecuteAbsBinary ::
    "(u64 \<Rightarrow> u64 \<Rightarrow> nat \<Rightarrow> 'a kernel \<Rightarrow> (int, 'a) ures) \<Rightarrow> 'u shell_scheme \<Rightarrow> u64 \<Rightarrow> 'a kernel \<Rightarrow> (int, 'a) ures" where
  "ExecuteAbsBinary exec u vector s =
     ubind (GetCurrentDir u s) (\<lambda>dir s.
     rbind (ustr dir s) (\<lambda>(d, s).
     rbind (uload64 vector s) (\<lambda>(p, s).
     rbind (ustr (p + 2) s) (\<lambda>(pth, s).
     rbind (ustore_chars (dir + of_nat (length d)) (pth @ [NUL]) s) (\<lambda>s.
     ubind (fopen u (junk u) dir ''r'' s) (\<lambda>script s.
       if script = 0 then ureturn (-1) s
       else
         ubind (script_head u script 18 s) (\<lambda>head s.
         ubind (fclose u (junk u) script s) (\<lambda>_ s.
           if strncmp head ''#!rootfs/bin/sbush'' 18 = 0 then
             ubind (fopen u (junk u) dir ''r'' s) (\<lambda>fp s.
             ubind (fgetc u (junk u) fp s) (\<lambda>c s.
             ubind (run_loop (script_loop exec u fp c [] False s)) (\<lambda>_ s.
             ubind (fclose u (junk u) fp s) (\<lambda>_. ureturn 1))))
           else ureturn (-1) s))))))))"

text \<open>The fuel bounds the depth of scripts that call scripts.\<close>

fun Execute :: "nat \<Rightarrow> 'u shell_scheme \<Rightarrow> u64 \<Rightarrow> u64 \<Rightarrow> nat \<Rightarrow> 'a kernel \<Rightarrow> (int, 'a) ures" where
  "Execute 0 u cmd vector n s = Inl Unterminated"
| "Execute (Suc fuel) u cmd vector n s =
     (if n < 1 \<or> cmd = 0 then ureturn (-1) s
      else
        rbind (uload8 cmd s) (\<lambda>(c, s).
          if c = of_char CHR ''.'' \<or> c = of_char CHR ''/'' then ExecuteAbsBinary (Execute fuel u) u vector s
          else ubind (ExecuteBuiltIn u vector s) (\<lambda>r. ureturn (if r = 0 then 0 else -1))))"

definition RedirectCommand :: "nat \<Rightarrow> 'u shell_scheme \<Rightarrow> u64 \<Rightarrow> 'a kernel \<Rightarrow> (int, 'a) ures" where
  "RedirectCommand fuel u input s =
     ubind (SplitLine u (getargs input) s) (\<lambda>(vector, n) s.
     ubind (Execute fuel u input vector n s) (\<lambda>ret s.
     ubind (if ret = -1 then shputs_text u ([CHR 0x0A] @ ''Failed!'' @ [CHR 0x0A]) s else ureturn 0 s) (\<lambda>_ s.
     ubind (UpdateShellPrompt u s) (\<lambda>_. ureturn ret))))"

text \<open>One round of the loop of \<open>main\<close>, and \<open>main\<close> up to the round number \<open>n\<close>.\<close>

definition shell_round :: "nat \<Rightarrow> 'u shell_scheme \<Rightarrow> 'a kernel \<Rightarrow> (unit, 'a) ures" where
  "shell_round fuel u s =
     ubind (TakeInput u s) (\<lambda>input s.
     rbind (if input = 0 then Inr (0, s) else uload8 input s) (\<lambda>(c, s).
     ubind (if input \<noteq> 0 \<and> c \<noteq> 0 then ubind (RedirectCommand fuel u input s) (\<lambda>_. ureturn ())
            else UpdateShellPrompt u s) (\<lambda>_. free u input)))"

fun shell_rounds :: "nat \<Rightarrow> nat \<Rightarrow> 'u shell_scheme \<Rightarrow> 'a kernel \<Rightarrow> (unit, 'a) ures" where
  "shell_rounds 0 fuel u s = ureturn () s"
| "shell_rounds (Suc n) fuel u s = ubind (shell_round fuel u s) (\<lambda>_. shell_rounds n fuel u)"

definition sbush_main :: "nat \<Rightarrow> nat \<Rightarrow> 'u shell_scheme \<Rightarrow> 'a kernel \<Rightarrow> (unit, 'a) ures" where
  "sbush_main n fuel u s =
     ubind (shputscolor_text u (''    USE '' @ [CHR 0x27] @ ''-'' @ [CHR 0x27] @ ''(minus) for backspace if it not works'' @ [CHR 0x0A]) s) (\<lambda>_ s.
     ubind (shputscolor_text u (''                 WELCOME TO JARVIS'' @ [CHR 0x0A]) s) (\<lambda>_ s.
     ubind (UpdateShellPrompt u s) (\<lambda>_. shell_rounds n fuel u)))"

end
