(* ===== verification/Console_Spec.thy ===== *)
theory Console_Spec
  imports Console
begin

text \<open>
  What the console promises: the cursor always stands behind the cells written so far,
  single characters never leave the text area, numbers are printed in the usual notation,
  the terminal is a line editor whose buffer cannot overflow, and the clock counts seconds.
\<close>

section \<open>The cursor\<close>

definition cursor_ok :: "console \<Rightarrow> bool" where
  "cursor_ok c \<longleftrightarrow> video c = videostart c + 2 * of_nat (data_written c)"

text \<open>
  Printing keeps the cursor invariant, the place of the screen, the shift key and the state of
  the input line.
\<close>

definition prints :: "console \<Rightarrow> console \<Rightarrow> bool" where
  "prints c c' \<longleftrightarrow> (cursor_ok c \<longrightarrow> cursor_ok c') \<and> videostart c' = videostart c \<and>
     stdin c' = stdin c \<and> stdinlength c' = stdinlength c \<and> READMODEON c' = READMODEON c \<and>
     shiftKey c' = shiftKey c"

named_theorems prints

lemma prints_refl [simp, prints]: "prints c c"
  by (simp add: prints_def)

lemma prints_trans: "prints c c' \<Longrightarrow> prints c' c'' \<Longrightarrow> prints c c''"
  by (simp add: prints_def)

lemma prints_put_cell [prints]: "prints c (put_cell ch col c)"
  by (simp add: prints_def put_cell_def cursor_ok_def algebra_simps)

lemma prints_checkForScroll [prints]: "prints c (checkForScroll c)"
  by (simp add: prints_def checkForScroll_def cursor_ok_def Let_def)

lemma prints_flushbackspace [prints]: "prints c (flushbackspace c)"
  by (simp add: prints_def flushbackspace_def cursor_ok_def of_nat_diff algebra_simps)

lemma prints_pad_line [prints]: "prints c (pad_line c)"
proof (induction c rule: pad_line.induct)
  case (1 c)
  let ?d = "c\<lparr>video := video c + 2, data_written := data_written c + 1\<rparr>"
  have "prints c ?d" by (simp add: prints_def cursor_ok_def algebra_simps)
  then show ?case using 1 prints_trans[of c ?d] by (subst pad_line.simps) simp
qed

lemma prints_newline_loop [prints]: "prints c (newline_loop c)"
proof (induction c rule: newline_loop.induct)
  case (1 c)
  let ?d = "c\<lparr>vram := (vram c)(video c + 1 := 7), video := video c + 2, data_written := data_written c + 1\<rparr>"
  have "prints c ?d" by (simp add: prints_def cursor_ok_def algebra_simps)
  then show ?case using 1 prints_trans[of c ?d] by (subst newline_loop.simps) simp
qed

lemma prints_flush_loop [prints]: "prints c (snd (flush_loop col cs c))"
  by (induction cs arbitrary: c) (auto intro: prints_trans[OF prints_put_cell])

lemma prints_flush_with [prints]: "prints c (flush_with col cs c)"
  unfolding flush_with_def split_beta
  by (auto intro: prints_trans[OF prints_checkForScroll] prints_trans[OF prints_flush_loop] prints)

lemma prints_flush [prints]: "prints c (flush cs c)"
  by (simp add: flush_def prints_flush_with)

lemma prints_flushchar [prints]: "prints c (flushchar ch c)"
  unfolding flushchar_def by (rule prints_trans[OF prints_checkForScroll prints_put_cell])

lemma prints_flushint [prints]: "prints c (flushint n c)"
  by (simp add: flushint_def prints_flush)

lemma prints_flushhex [prints]: "prints c (flushhex n c)"
  unfolding flushhex_def by (rule prints_trans[OF prints_flush prints_flush])

lemma prints_flushNewLine [prints]: "prints c (flushNewLine c)"
  unfolding flushNewLine_def by (rule prints_trans[OF prints_checkForScroll prints_newline_loop])

lemma prints_LocalEcho: "prints c (LocalEcho ch c)"
proof -
  have "prints c (c\<lparr>ctrlKey := 0\<rparr>)" by (simp add: prints_def cursor_ok_def)
  then show ?thesis
    by (auto simp: LocalEcho_def intro: prints prints_trans[OF _ prints_flushchar])
qed

lemma prints_kprintf: "kprintf fmt ap c = Inr c' \<Longrightarrow> prints c c'"
proof (induction "length fmt" arbitrary: fmt ap c rule: less_induct)
  case less
  show ?case
  proof (cases fmt)
    case Nil
    then show ?thesis using less.prems by simp
  next
    case (Cons ch f)
    have step: "prints c c'" if "kprintf g a d = Inr c'" and "prints c d" and "length g \<le> length f" for g a d
      using less.hyps[of g a d] prints_trans[of c d c'] that Cons by simp
    note steps = step[OF _ prints_flush] step[OF _ prints_flushchar] step[OF _ prints_flushint]
      step[OF _ prints_flushhex] step[OF _ prints_flushNewLine]
    show ?thesis
      using less.prems Cons by (auto split: if_splits list.splits vararg.splits dest: steps)
  qed
qed

section \<open>Numbers\<close>

lemma swap_loop_nth:
  assumes "i < length str"
  shows "length (swap_loop str j i) = length str \<and>
    (\<forall>k < length str. swap_loop str j i ! k = (if j \<le> k \<and> k \<le> i then str ! (j + i - k) else str ! k))"
  using assms
proof (induction str j i rule: swap_loop.induct)
  case (1 str j i)
  show ?case
  proof (cases "j < i")
    case False
    then have "j \<le> k \<Longrightarrow> k \<le> i \<Longrightarrow> j + i - k = k" for k by linarith
    then show ?thesis using False by (simp add: swap_loop.simps[of str j i])
  next
    case True
    let ?s = "str[i := str ! j, j := str ! i]"
    have IH: "length (swap_loop ?s (j + 1) (i - 1)) = length ?s \<and>
      (\<forall>k < length ?s. swap_loop ?s (j + 1) (i - 1) ! k =
         (if j + 1 \<le> k \<and> k \<le> i - 1 then ?s ! (j + 1 + (i - 1) - k) else ?s ! k))"
      using 1 True by simp
    have "swap_loop ?s (j + 1) (i - 1) ! k = (if j \<le> k \<and> k \<le> i then str ! (j + i - k) else str ! k)"
      if "k < length str" for k
    proof -
      consider "k = j" | "k = i" | "j < k" "k < i" | "k < j \<or> i < k" by linarith
      then show ?thesis using IH that True 1(2) by cases (auto simp: nth_list_update)
    qed
    then show ?thesis using IH True by (simp add: swap_loop.simps[of str j i])
  qed
qed

lemma reverse_in_place_rev: "reverse_in_place str = rev str"
proof (cases "str = []")
  case False
  then have "length str - 1 < length str" by simp
  note s = swap_loop_nth[OF this, of 0]
  show ?thesis
    using s False by (intro nth_equalityI) (auto simp: reverse_in_place_def rev_nth)
qed (simp add: reverse_in_place_def)

text \<open>The value of a string of digits.\<close>

definition decimal :: "string \<Rightarrow> int" where
  "decimal cs = foldl (\<lambda>v ch. 10 * v + (schar ch - schar CHR ''0'')) 0 cs"

lemma schar_to_char:
  assumes "0 \<le> x" and "x < 128"
  shows "schar (to_char x) = x"
proof -
  have "(of_char (to_char x) :: u8) = of_int (of_char (to_char x))" by (simp only: of_int_of_char)
  also have "(of_char (to_char x) :: int) = x" using assms by (simp add: to_char_def)
  finally have "schar (to_char x) = sint (of_int x :: u8)" by (simp add: schar_def)
  then show ?thesis using assms by (simp add: sint_sbintrunc' signed_take_bit_int_eq_self)
qed

lemma schar_0: "schar CHR ''0'' = 48"
  by (simp add: schar_def)

lemma digit_char:
  assumes "0 \<le> d" and "d < 10"
  shows "schar (to_char (d + schar CHR ''0'')) - schar CHR ''0'' = d"
    and "to_char (d + schar CHR ''0'') \<in> set ''0123456789''"
proof -
  show "schar (to_char (d + schar CHR ''0'')) - schar CHR ''0'' = d"
    using schar_to_char[of "d + 48"] assms by (simp add: schar_0)
  have "d = 0 \<or> d = 1 \<or> d = 2 \<or> d = 3 \<or> d = 4 \<or> d = 5 \<or> d = 6 \<or> d = 7 \<or> d = 8 \<or> d = 9"
    using assms by presburger
  then show "to_char (d + schar CHR ''0'') \<in> set ''0123456789''"
    by (elim disjE) (simp_all add: schar_0 to_char_def char_of_def)
qed

lemma rev_digits_spec:
  "0 \<le> n \<Longrightarrow> decimal (rev (rev_digits n)) = n \<and> set (rev_digits n) \<subseteq> set ''0123456789'' \<and>
     (n \<noteq> 0 \<longrightarrow> last (rev_digits n) \<noteq> CHR ''0'' \<and> rev_digits n \<noteq> [])"
proof (induction n rule: rev_digits.induct)
  case (1 n)
  show ?case
  proof (cases "n = 0")
    case True
    then show ?thesis by (simp add: rev_digits.simps decimal_def)
  next
    case False
    have e: "n sdiv 10 = n div 10" "n smod 10 = n mod 10" "0 \<le> n mod 10" "n mod 10 < 10"
      using 1(2) by (auto simp: signed_divide_int_def signed_modulo_int_def sgn_if)
    have IH: "decimal (rev (rev_digits (n div 10))) = n div 10"
        "set (rev_digits (n div 10)) \<subseteq> set ''0123456789''"
        "n div 10 \<noteq> 0 \<longrightarrow> last (rev_digits (n div 10)) \<noteq> CHR ''0'' \<and> rev_digits (n div 10) \<noteq> []"
      using 1 False e by (auto simp: pos_imp_zdiv_nonneg_iff)
    let ?d = "to_char (n mod 10 + schar CHR ''0'')"
    have r: "rev_digits n = ?d # rev_digits (n div 10)"
      using False e by (subst rev_digits.simps) simp
    have "?d \<noteq> CHR ''0''" if "n div 10 = 0"
    proof
      assume "?d = CHR ''0''"
      then have "n mod 10 = 0" using digit_char(1)[OF e(3,4)] by simp
      then show False using that False by (metis div_mult_mod_eq add_0 mult_zero_left)
    qed
    moreover have "rev_digits 0 = []" by (simp add: rev_digits.simps)
    moreover have "decimal (rev (rev_digits n)) = n"
    proof -
      have "decimal (rev (rev_digits n)) =
          10 * decimal (rev (rev_digits (n div 10))) + (schar ?d - schar CHR ''0'')"
        by (simp add: r decimal_def)
      then show ?thesis using IH(1) digit_char(1)[OF e(3,4)] by simp
    qed
    ultimately show ?thesis
      using r IH(2,3) digit_char(2)[OF e(3,4)] by (cases "n div 10 = 0") auto
  qed
qed

definition hex_value :: "char \<Rightarrow> nat" where
  "hex_value ch = (if of_char ch \<ge> (97 :: nat) then of_char ch - 87 else of_char ch - 48)"

definition hexadecimal :: "string \<Rightarrow> nat" where
  "hexadecimal cs = foldl (\<lambda>v ch. 16 * v + hex_value ch) 0 cs"

lemma hex_value_digit: "d < 16 \<Longrightarrow> hex_value (hex_digit d) = d"
proof -
  assume "d < 16"
  then have "d \<in> {0, 1, 2, 3, 4, 5, 6, 7, 8, 9, 10, 11, 12, 13, 14, 15}" by (simp, presburger)
  then show ?thesis by (auto simp: hex_value_def hex_digit_def)
qed

lemma rev_hex_spec: "hexadecimal (rev (rev_hex n)) = n"
proof (induction n rule: rev_hex.induct)
  case (1 n)
  have "hexadecimal (rev (rev_hex n)) =
      16 * hexadecimal (rev (if n div 16 = 0 then [] else rev_hex (n div 16))) + hex_value (hex_digit (n mod 16))"
    by (subst rev_hex.simps) (simp add: hexadecimal_def)
  moreover have "hexadecimal (rev (if n div 16 = 0 then [] else rev_hex (n div 16))) = n div 16"
    using 1 by (auto simp: hexadecimal_def)
  ultimately show ?case by (simp add: hex_value_digit)
qed

section \<open>The input line\<close>

definition line :: "console \<Rightarrow> string" where
  "line c = take (stdinlength c) (stdin c)"

definition line_ok :: "console \<Rightarrow> bool" where
  "line_ok c \<longleftrightarrow> length (stdin c) = 1024 \<and> stdinlength c \<le> 1023 \<and> (READMODEON c \<longrightarrow> stdinlength c \<le> 1022)"

lemma getchar_line:
  assumes "getchar port c = (ch, c')"
  shows "prints (c\<lparr>shiftKey := shiftKey c'\<rparr>) c'"
  using assms by (auto simp: getchar_def getKeyBoardKey_def Let_def prints_def cursor_ok_def split: if_splits)

lemma kprintf_nofmt: "CHR ''%'' \<notin> set fmt \<Longrightarrow> \<exists>c'. kprintf fmt ap c = Inr c'"
  by (induction fmt ap c rule: kprintf.induct) auto

text \<open>What a key does to the line.\<close>

definition edit :: "char \<Rightarrow> string \<Rightarrow> string" where
  "edit ch l = (if ch = CHR 0x0A then l @ [NUL] else if ch = CHR ''-'' then butlast l else l @ [ch])"

definition ignored :: "char \<Rightarrow> console \<Rightarrow> bool" where
  "ignored ch c \<longleftrightarrow> ch = CHR ''#'' \<or> \<not> READMODEON c \<or> line c = [] \<and> ch = CHR ''-''"

lemma line_length: "line_ok c \<Longrightarrow> length (line c) = stdinlength c"
  by (simp add: line_def line_ok_def)

text \<open>The branch for a full line.\<close>

lemma full_line:
  assumes "line_ok c" and "READMODEON c" and "stdinlength c \<ge> 1022"
  obtains c' where "rbind (kprintf (''Cant support more than 1024 characters!'' @ [CHR 0x0A]) [] c)
      (\<lambda>c. rbind (stdin_store (stdinlength c) NUL c) (\<lambda>c. Inr (c\<lparr>READMODEON := False\<rparr>))) = Inr c'"
    and "line_ok c'" and "line c' = line c" and "\<not> READMODEON c'" and "stdinlength c' = 1022"
    and "cursor_ok c \<longrightarrow> cursor_ok c'" and "shiftKey c' = shiftKey c"
proof -
  obtain d where d: "kprintf (''Cant support more than 1024 characters!'' @ [CHR 0x0A]) [] c = Inr d"
    using kprintf_nofmt[of "''Cant support more than 1024 characters!'' @ [CHR 0x0A]" "[]" c] by auto
  have p: "prints c d" by (rule prints_kprintf[OF d])
  have n: "stdinlength c = 1022" "length (stdin c) = 1024" using assms by (auto simp: line_ok_def)
  show thesis
    by (rule that[of "d\<lparr>stdin := (stdin d)[1022 := NUL], READMODEON := False\<rparr>"])
      (use d p n in \<open>simp_all add: prints_def stdin_store_def line_ok_def line_def cursor_ok_def\<close>)
qed

lemma store_line:
  assumes "line_ok c" and "READMODEON c \<longrightarrow> stdinlength c < 1022" and "stdinlength c < 1023"
  obtains c' where "rbind (stdin_store (stdinlength c) ch c) (\<lambda>c. Inr (c\<lparr>stdinlength := stdinlength c + 1\<rparr>)) = Inr c'"
    and "line_ok c'" and "line c' = line c @ [ch]" and "READMODEON c' = READMODEON c"
    and "cursor_ok c' = cursor_ok c" and "shiftKey c' = shiftKey c"
  by (rule that[of "c\<lparr>stdin := (stdin c)[stdinlength c := ch], stdinlength := stdinlength c + 1\<rparr>"])
    (use assms in \<open>auto simp: stdin_store_def line_ok_def line_def cursor_ok_def take_Suc_conv_app_nth\<close>)

lemma drop_line:
  assumes "line_ok c"
  obtains c' where "rbind (stdin_store (stdinlength c) CHR '' '' c) (\<lambda>c. Inr (c\<lparr>stdinlength := stdinlength c - 1\<rparr>)) = Inr c'"
    and "line_ok c'" and "line c' = butlast (line c)" and "READMODEON c' = READMODEON c"
    and "cursor_ok c' = cursor_ok c" and "shiftKey c' = shiftKey c"
  by (rule that[of "c\<lparr>stdin := (stdin c)[stdinlength c := CHR '' ''], stdinlength := stdinlength c - 1\<rparr>"])
    (use assms in \<open>auto simp: stdin_store_def line_ok_def line_def cursor_ok_def butlast_take\<close>)

lemma tunnel_edit:
  assumes ok: "line_ok c" and g: "getchar port c = (ch, c1)"
  shows "\<exists>c'. tunnel port c = Inr c' \<and> line_ok c' \<and>
    line c' = (if ignored ch c then line c else edit ch (line c)) \<and>
    READMODEON c' = (READMODEON c \<and> (ignored ch c \<or> ch \<noteq> CHR 0x0A \<and> length (line c) < 1022)) \<and>
    (cursor_ok c \<longrightarrow> cursor_ok c') \<and> shiftKey c' = shiftKey c1"
proof -
  have p1: "prints (c\<lparr>shiftKey := shiftKey c1\<rparr>) c1" by (rule getchar_line[OF g])
  then have same: "line_ok c1" "line c1 = line c" "READMODEON c1 = READMODEON c" "stdinlength c1 = stdinlength c"
      "cursor_ok c \<longrightarrow> cursor_ok c1"
    using ok by (auto simp: prints_def line_ok_def line_def cursor_ok_def)
  show ?thesis
  proof (cases "ignored ch c")
    case True
    then have "tunnel port c = Inr c1"
      using same line_length[OF ok] by (auto simp: tunnel_def g ignored_def)
    then show ?thesis using True same by auto
  next
    case False
    let ?full = "stdinlength c1 \<ge> 1022"
    have r: "READMODEON c" "ch \<noteq> CHR ''#''" "\<not> (stdinlength c1 < 1022 \<and> stdinlength c1 = 0 \<and> ch = CHR ''-'')"
      using False same line_length[OF ok] by (auto simp: ignored_def)
    obtain c2 where c2: "(if ?full
          then rbind (kprintf (''Cant support more than 1024 characters!'' @ [CHR 0x0A]) [] c1)
            (\<lambda>c. rbind (stdin_store (stdinlength c) NUL c) (\<lambda>c. Inr (c\<lparr>READMODEON := False\<rparr>)))
          else Inr c1) = Inr c2" "line_ok c2" "line c2 = line c" "READMODEON c2 = (\<not> ?full)"
        "stdinlength c2 = stdinlength c1" "cursor_ok c \<longrightarrow> cursor_ok c2" "shiftKey c2 = shiftKey c1"
    proof (cases ?full)
      case True
      then have "stdinlength c1 = 1022" using same r(1) by (auto simp: line_ok_def)
      then show thesis using full_line[OF same(1) _ True] same r(1) that True by auto
    next
      case False
      then show thesis by (intro that[of c1]) (use same r(1) in simp_all)
    qed
    define c3 where "c3 = LocalEcho ch c2"
    have "prints c2 c3" unfolding c3_def by (rule prints_LocalEcho)
    then have c3: "line_ok c3" "line c3 = line c" "READMODEON c3 = (\<not> ?full)" "stdinlength c3 = stdinlength c"
        "cursor_ok c \<longrightarrow> cursor_ok c3" "shiftKey c3 = shiftKey c1"
      using c2 same by (auto simp: prints_def line_ok_def line_def)
    have t: "tunnel port c =
        (if ch = CHR 0x0A then rbind (stdin_store (stdinlength c3) NUL (c3\<lparr>READMODEON := False\<rparr>))
               (\<lambda>c. Inr (c\<lparr>stdinlength := stdinlength c + 1\<rparr>))
         else if ch = CHR ''-'' then rbind (stdin_store (stdinlength c3) CHR '' '' c3)
               (\<lambda>c. Inr (c\<lparr>stdinlength := stdinlength c - 1\<rparr>))
         else rbind (stdin_store (stdinlength c3) ch c3) (\<lambda>c. Inr (c\<lparr>stdinlength := stdinlength c + 1\<rparr>)))"
      unfolding tunnel_def g prod.case c3_def using r same(3) c2(1) by (auto simp: Let_def)
    have lt: "stdinlength c < 1023" "READMODEON c3 \<longrightarrow> stdinlength c3 < 1022"
      using ok r(1) c3 same(4) by (auto simp: line_ok_def)
    have nl: "line_ok (c3\<lparr>READMODEON := False\<rparr>)" "line (c3\<lparr>READMODEON := False\<rparr>) = line c"
        "cursor_ok (c3\<lparr>READMODEON := False\<rparr>) = cursor_ok c3" "shiftKey (c3\<lparr>READMODEON := False\<rparr>) = shiftKey c1"
      using c3 by (auto simp: line_ok_def line_def cursor_ok_def)
    have full: "(\<not> ?full) = (length (line c) < 1022)" using line_length[OF ok] same(4) by auto
    consider "ch = CHR 0x0A" | "ch = CHR ''-''" "ch \<noteq> CHR 0x0A" | "ch \<noteq> CHR 0x0A" "ch \<noteq> CHR ''-''" by blast
    then show ?thesis
    proof cases
      case 1
      then show ?thesis
        using store_line[OF nl(1), of NUL] t lt nl c3 False by (auto simp: edit_def)
    next
      case 2
      then show ?thesis
        using drop_line[OF c3(1)] t c3 False full r(1) by (auto simp: edit_def)
    next
      case 3
      then show ?thesis
        using store_line[OF c3(1) lt(2), of ch] t lt c3 False full r(1) by (auto simp: edit_def)
    qed
  qed
qed

section \<open>The clock\<close>

lemma timemama_frac:
  assumes "frac_time c = 50 * int (k mod 20)" and "time c = 1000 * int (k div 20)" and "time_in_sec c = int (k div 20)"
  shows "frac_time (timemama c) = 50 * int (Suc k mod 20) \<and> time (timemama c) = 1000 * int (Suc k div 20) \<and>
    time_in_sec (timemama c) = int (Suc k div 20)"
proof (cases "Suc (k mod 20) = 20")
  case True
  then have "Suc k mod 20 = 0" "Suc k div 20 = Suc (k div 20)" by (simp_all add: mod_Suc div_Suc)
  moreover have "k mod 20 = 19" using True by simp
  ultimately show ?thesis
    using assms by (simp add: timemama_def Let_def flushtime_def signed_divide_int_def)
next
  case False
  then have "Suc k mod 20 = Suc (k mod 20)" "Suc k div 20 = k div 20" by (simp_all add: mod_Suc div_Suc)
  moreover have "50 * int (k mod 20) + 50 \<noteq> 1000" using False by linarith
  ultimately show ?thesis using assms by (simp add: timemama_def Let_def)
qed

section \<open>The text area\<close>

lemma screen_addr:
  assumes "unat v + 160 * 25 < 2 ^ 64" and "k < 160 * 25"
  shows "unat (v + of_nat k :: u64) = unat v + k"
proof -
  have "unat (of_nat k :: u64) = k" using assms(2) by (intro unat_of_nat_small) simp
  then show ?thesis using unat_add_small[of v "of_nat k"] assms by simp
qed

definition outside :: "u64 \<Rightarrow> u64 \<Rightarrow> bool" where
  "outside v a \<longleftrightarrow> a < v \<or> v + 160 * 24 \<le> a"

lemma outside_ne:
  assumes "unat v + 160 * 25 < 2 ^ 64" and "k < 160 * 24" and "outside v a"
  shows "a \<noteq> v + of_nat k"
proof
  assume "a = v + of_nat k"
  then have "unat a = unat v + k" using screen_addr[OF assms(1), of k] assms(2) by simp
  moreover have "unat (v + 160 * 24) = unat v + 160 * 24"
    using screen_addr[OF assms(1), of "160 * 24"] by simp
  ultimately show False using assms(2,3) by (auto simp: outside_def word_less_nat_alt word_le_nat_alt)
qed

lemma fold_upd_frame:
  "(\<And>k. k \<in> set ks \<Longrightarrow> g k \<noteq> a) \<Longrightarrow> fold (\<lambda>k m. m(g k := f k m)) ks m a = m a"
  by (induction ks arbitrary: m) auto

lemma put2_frame: "a \<noteq> p \<Longrightarrow> a \<noteq> p + 1 \<Longrightarrow> put2 ch col p m a = m a"
  by (simp add: put2_def)

lemma fold_put2_frame:
  "(\<And>k. k \<in> set ks \<Longrightarrow> a \<noteq> g k \<and> a \<noteq> g k + 1) \<Longrightarrow> fold (\<lambda>k. put2 ch col (g k)) ks m a = m a"
  by (induction ks arbitrary: m) (auto simp: put2_frame)

lemma checkForScroll_frame:
  assumes "unat (videostart c) + 160 * 25 < 2 ^ 64" and "outside (videostart c) a"
  shows "vram (checkForScroll c) a = vram c a"
proof -
  let ?v = "videostart c"
  have ne: "k < 160 * 24 \<Longrightarrow> a \<noteq> ?v + of_nat k" for k by (rule outside_ne[OF assms(1) _ assms(2)])
  have "a \<noteq> ?v + of_nat k" if "k \<in> set [0..<160 * 12]" for k using ne[of k] that by simp
  then have 1: "fold (\<lambda>k m. m(?v + of_nat k := m (?v + of_nat k + 160 * 12))) [0..<160 * 12] m a = m a" for m :: "u64 \<Rightarrow> u8"
    by (intro fold_upd_frame) metis
  have "a \<noteq> ?v + 160 * 12 + 2 * of_nat k \<and> a \<noteq> ?v + 160 * 12 + 2 * of_nat k + 1"
    if "k \<in> set [0..<80 * 12]" for k
    using ne[of "160 * 12 + 2 * k"] ne[of "160 * 12 + 2 * k + 1"] that by (simp add: algebra_simps)
  then have 2: "fold (\<lambda>k. put2 CHR '' '' 7 (?v + 160 * 12 + 2 * of_nat k)) [0..<80 * 12] m a = m a" for m
    by (rule fold_put2_frame)
  show ?thesis using 1 2 by (simp add: checkForScroll_def Let_def del: fun_upd_apply)
qed

lemma checkForScroll_written: "data_written (checkForScroll c) < 80 * 24"
  by (simp add: checkForScroll_def Let_def)

section \<open>Properties\<close>

text \<open>C37. Whatever \<open>kprintf\<close> prints, with any format and arguments, it leaves the cursor behind
  the cells counted in \<open>data_written\<close>, and it changes neither the place of the screen nor the
  terminal's input line.\<close>

theorem kprintf_cursor:
  assumes "cursor_ok c" and "kprintf fmt ap c = Inr c'"
  shows "cursor_ok c' \<and> videostart c' = videostart c \<and> stdin c' = stdin c \<and>
    stdinlength c' = stdinlength c \<and> READMODEON c' = READMODEON c"
  using prints_kprintf[OF assms(2)] assms(1) by (simp add: prints_def)

text \<open>Printing one character never writes outside the 24 text lines: with the cursor
  invariant, the character and its colour go to the cell under the cursor (after scrolling
  when the area is full), at most 24 lines are counted as written, and every byte behind
  the text area is unchanged.\<close>

theorem flushchar_inside:
  assumes "cursor_ok c" and "unat (videostart c) + 160 * 25 < 2 ^ 64"
  shows "data_written (flushchar ch c) \<le> 80 * 24 \<and>
    (let p = videostart c + 2 * of_nat (data_written (flushchar ch c) - 1)
     in vram (flushchar ch c) p = of_char ch \<and> vram (flushchar ch c) (p + 1) = 7) \<and>
    (\<forall>a. a < videostart c \<or> videostart c + 160 * 24 \<le> a \<longrightarrow> vram (flushchar ch c) a = vram c a)"
proof -
  let ?d = "checkForScroll c" and ?v = "videostart c"
  have d: "cursor_ok ?d" "videostart ?d = ?v" using prints_checkForScroll[of c] assms(1) by (simp_all add: prints_def)
  have v: "video ?d = ?v + of_nat (2 * data_written ?d)" using d by (simp add: cursor_ok_def)
  have w: "data_written ?d < 80 * 24" by (rule checkForScroll_written)
  have "video ?d \<noteq> video ?d + 1" by simp
  have out: "vram (flushchar ch c) a = vram c a" if "outside ?v a" for a
  proof -
    have "a \<noteq> video ?d" "a \<noteq> video ?d + 1"
      using outside_ne[OF assms(2) _ that, of "2 * data_written ?d"]
        outside_ne[OF assms(2) _ that, of "2 * data_written ?d + 1"] w v by (simp_all add: algebra_simps)
    then show ?thesis
      using checkForScroll_frame[OF assms(2) that] by (simp add: flushchar_def put_cell_def put2_frame)
  qed
  show ?thesis
    using out w v by (simp add: flushchar_def put_cell_def put2_def Let_def outside_def)
qed

text \<open>Numbers are printed in the usual notation: the digits that \<open>flushint\<close> prints for a
  positive number have that number as their decimal value and no leading zero, and the
  digits that \<open>flushhex\<close> prints have the number as their hexadecimal value.\<close>

theorem flush_numbers:
  "(0 < n \<longrightarrow> (\<exists>ds. flushint n c = flush ds c \<and> decimal ds = n \<and> set ds \<subseteq> set ''0123456789'' \<and>
      hd ds \<noteq> CHR ''0'')) \<and>
   (\<exists>ds. flushhex w c = flush ds (flush ''0x'' c) \<and> hexadecimal ds = unat w)"
proof -
  have "flushhex w c = flush (rev (rev_hex (unat w))) (flush ''0x'' c)"
    by (simp add: flushhex_def reverse_in_place_rev)
  moreover have "flushint n c = flush (rev (rev_digits n)) c" if "0 < n"
    using that by (simp add: flushint_def reverse_in_place_rev)
  ultimately show ?thesis
    using rev_digits_spec[of n] rev_hex_spec[of "unat w"]
    by (metis hd_rev less_le set_rev)
qed

text \<open>C25. The terminal is a line editor: a key that maps to a character appends it to the
  line, the key '-' removes the last character, Enter closes the line with a terminator and
  wakes the reader, and keys without a character, keys pressed while nobody reads and '-' on
  an empty line are ignored. The line buffer never overflows.\<close>

theorem tunnel_line:
  assumes "line_ok c" and "getchar port c = (ch, c1)"
  shows "\<exists>c'. tunnel port c = Inr c' \<and> line_ok c' \<and>
    line c' = (if ignored ch c then line c else edit ch (line c)) \<and>
    READMODEON c' = (READMODEON c \<and> (ignored ch c \<or> ch \<noteq> CHR 0x0A \<and> length (line c) < 1022)) \<and>
    (cursor_ok c \<longrightarrow> cursor_ok c')"
  using tunnel_edit[OF assms] by blast

text \<open>The clock shows whole seconds: after \<open>n\<close> timer interrupts of 50 milliseconds from a
  cleared clock, the number of seconds is \<open>n div 20\<close>.\<close>

theorem timemama_seconds:
  assumes "frac_time c = 0" and "time c = 0" and "time_in_sec c = 0"
  shows "time_in_sec ((timemama ^^ n) c) = int (n div 20)"
proof -
  have "frac_time ((timemama ^^ n) c) = 50 * int (n mod 20) \<and> time ((timemama ^^ n) c) = 1000 * int (n div 20) \<and>
    time_in_sec ((timemama ^^ n) c) = int (n div 20)"
    by (induction n) (use assms timemama_frac in \<open>simp_all\<close>)
  then show ?thesis by simp
qed

section \<open>Witnesses\<close>

text \<open>The console at boot.\<close>

definition console_boot :: console where
  "console_boot = \<lparr>vram = (\<lambda>_. 0), video = 0xB8000, videostart = 0xB8000, data_written = 0, shiftKey = 0,
     ctrlKey = 0, stdin = replicate 1024 NUL, stdinlength = 0, READMODEON = True, frac_time = 0, time = 0,
     time_in_sec = 0\<rparr>"

lemma boot_ok: "cursor_ok console_boot" "line_ok console_boot"
  by (simp_all add: cursor_ok_def line_ok_def console_boot_def)

theorem kprintf_cursor_witness:
  "\<exists>c'. kprintf ''pid %d'' [VInt 12] console_boot = Inr c' \<and> cursor_ok c' \<and>
    videostart c' = videostart console_boot \<and> stdin c' = stdin console_boot \<and>
    stdinlength c' = stdinlength console_boot \<and> READMODEON c' = READMODEON console_boot"
proof -
  obtain c' where c': "kprintf ''pid %d'' [VInt 12] console_boot = Inr c'" by simp
  show ?thesis using kprintf_cursor[OF boot_ok(1) c'] c' by blast
qed

theorem flushchar_inside_witness:
  "data_written (flushchar CHR ''A'' console_boot) \<le> 80 * 24 \<and>
    (let p = videostart console_boot + 2 * of_nat (data_written (flushchar CHR ''A'' console_boot) - 1)
     in vram (flushchar CHR ''A'' console_boot) p = of_char CHR ''A'' \<and>
        vram (flushchar CHR ''A'' console_boot) (p + 1) = 7)"
proof -
  have "unat (videostart console_boot) + 160 * 25 < 2 ^ 64" by (simp add: console_boot_def)
  from flushchar_inside[OF boot_ok(1) this, of "CHR ''A''"] show ?thesis by blast
qed

theorem flush_numbers_witness:
  "\<exists>ds. flushint 1024 console_boot = flush ds console_boot \<and> decimal ds = 1024 \<and>
      set ds \<subseteq> set ''0123456789'' \<and> hd ds \<noteq> CHR ''0''"
  using flush_numbers[of 1024 console_boot 0] by simp

theorem tunnel_line_witness:
  "getchar 0x10 console_boot = (CHR ''q'', console_boot) \<and>
   (\<exists>c'. tunnel 0x10 console_boot = Inr c' \<and> line_ok c' \<and>
    line c' = (if ignored CHR ''q'' console_boot then line console_boot else edit CHR ''q'' (line console_boot)) \<and>
    READMODEON c' = (READMODEON console_boot \<and> (ignored CHR ''q'' console_boot \<or>
       CHR ''q'' \<noteq> CHR 0x0A \<and> length (line console_boot) < 1022)) \<and>
    (cursor_ok console_boot \<longrightarrow> cursor_ok c'))"
proof -
  have g: "getchar 0x10 console_boot = (CHR ''q'', console_boot)"
    by (simp add: getchar_def getScancode_def CheckIfSpecialKey_def getKeyBoardKey_def console_boot_def
        ScanCodeMap_def MakeKeyboardMapping_def Let_def)
  show ?thesis using g tunnel_line[OF boot_ok(2) g] by (rule conjI)
qed

theorem timemama_seconds_witness: "time_in_sec ((timemama ^^ 45) console_boot) = int (45 div 20)"
  by (rule timemama_seconds) (simp_all add: console_boot_def)

end
