(* ===== verification/Tasks_Spec.thy ===== *)
theory Tasks_Spec
  imports Tasks Console_Spec Vfs_Spec
begin

text \<open>
  The run queue as an abstract first-in first-out queue, and the selection of the next
  process.
\<close>

section \<open>The queue interface\<close>

locale bounded_fifo =
  fixes elems :: "'s \<Rightarrow> 'e list" and ok :: "'s \<Rightarrow> bool" and enq :: "'e \<Rightarrow> 's \<Rightarrow> 's res"
    and front :: "'s \<Rightarrow> 'e" and pop :: "'s \<Rightarrow> 's" and cap :: nat
  assumes enq: "ok s \<Longrightarrow> length (elems s) < cap \<Longrightarrow> \<exists>s'. enq e s = Inr s' \<and> ok s' \<and> elems s' = elems s @ [e]"
    and front: "ok s \<Longrightarrow> elems s \<noteq> [] \<Longrightarrow> front s = hd (elems s)"
    and pop: "ok s \<Longrightarrow> elems s \<noteq> [] \<Longrightarrow> ok (pop s) \<and> elems (pop s) = tl (elems s)"
begin

lemma pop_n: "ok s \<Longrightarrow> n \<le> length (elems s) \<Longrightarrow> ok ((pop ^^ n) s) \<and> elems ((pop ^^ n) s) = drop n (elems s)"
proof (induction n)
  case (Suc n)
  then have IH: "ok ((pop ^^ n) s)" "elems ((pop ^^ n) s) = drop n (elems s)" by auto
  then have "elems ((pop ^^ n) s) \<noteq> []" using Suc.prems(2) by simp
  then show ?case using pop[OF IH(1)] IH(2) by (simp add: drop_Suc tl_drop)
qed simp

end

text \<open>Operations on a queue: an element is put in, or the next live element is asked for.\<close>

datatype 'e queue_op = Put 'e | Take

text \<open>The abstract queue is a list. A request skips the elements that are not live.\<close>

fun fifo_ops :: "('e \<Rightarrow> bool) \<Rightarrow> 'e queue_op list \<Rightarrow> 'e list \<Rightarrow> 'e option list \<times> 'e list" where
  "fifo_ops live [] q = ([], q)"
| "fifo_ops live (Put e # ops) q = fifo_ops live ops (q @ [e])"
| "fifo_ops live (Take # ops) q =
     (case dropWhile (\<lambda>e. \<not> live e) q of
        [] \<Rightarrow> apfst (Cons None) (fifo_ops live ops [])
      | e # es \<Rightarrow> apfst (Cons (Some e)) (fifo_ops live ops es))"

text \<open>Nothing is put into a full queue.\<close>

fun fifo_fits :: "nat \<Rightarrow> ('e \<Rightarrow> bool) \<Rightarrow> 'e queue_op list \<Rightarrow> 'e list \<Rightarrow> bool" where
  "fifo_fits cap live [] q = True"
| "fifo_fits cap live (Put e # ops) q = (length q < cap \<and> fifo_fits cap live ops (q @ [e]))"
| "fifo_fits cap live (Take # ops) q = fifo_fits cap live ops (tl (dropWhile (\<lambda>e. \<not> live e) q))"

text \<open>The same operations on a state, with the results of the requests.\<close>

fun queue_ops ::
    "('e \<Rightarrow> 's \<Rightarrow> 's res) \<Rightarrow> ('s \<Rightarrow> ('r option \<times> 's) res) \<Rightarrow> 'e queue_op list \<Rightarrow> 's \<Rightarrow> ('r option list \<times> 's) res" where
  "queue_ops put fetch [] s = Inr ([], s)"
| "queue_ops put fetch (Put e # ops) s = rbind (put e s) (queue_ops put fetch ops)"
| "queue_ops put fetch (Take # ops) s =
     rbind (fetch s) (\<lambda>(r, s). rbind (queue_ops put fetch ops s) (\<lambda>(rs, s). Inr (r # rs, s)))"

locale service_queue =
  fixes elems :: "'s \<Rightarrow> 'e list" and ok :: "'s \<Rightarrow> bool" and live good :: "'s \<Rightarrow> 'e \<Rightarrow> bool"
    and put :: "'e \<Rightarrow> 's \<Rightarrow> 's res" and take_next :: "'s \<Rightarrow> ('r option \<times> 's) res" and ref :: "'e \<Rightarrow> 'r" and cap :: nat
  assumes put: "ok s \<Longrightarrow> length (elems s) < cap \<Longrightarrow>
      \<exists>s'. put e s = Inr s' \<and> ok s' \<and> elems s' = elems s @ [e] \<and> live s' = live s \<and> good s' = good s"
    and take_next: "ok s \<Longrightarrow> \<forall>e \<in> set (elems s). good s e \<Longrightarrow>
      \<exists>s'. take_next s = Inr (case dropWhile (\<lambda>e. \<not> live s e) (elems s) of [] \<Rightarrow> None | e # es \<Rightarrow> Some (ref e), s') \<and>
        ok s' \<and> elems s' = tl (dropWhile (\<lambda>e. \<not> live s e) (elems s)) \<and> live s' = live s \<and> good s' = good s"
begin

lemma ops_refine:
  "ok s \<Longrightarrow> \<forall>e \<in> set (elems s). good s e \<Longrightarrow> \<forall>e. Put e \<in> set ops \<longrightarrow> good s e \<Longrightarrow>
   fifo_fits cap (live s) ops (elems s) \<Longrightarrow>
     \<exists>s'. queue_ops put take_next ops s =
         Inr (map (map_option ref) (fst (fifo_ops (live s) ops (elems s))), s') \<and>
       ok s' \<and> elems s' = snd (fifo_ops (live s) ops (elems s)) \<and> live s' = live s \<and> good s' = good s"
proof (induction ops arbitrary: s)
  case (Cons x ops)
  show ?case
  proof (cases x)
    case (Put e)
    then obtain s1 where s1: "put e s = Inr s1" "ok s1" "elems s1 = elems s @ [e]" "live s1 = live s" "good s1 = good s"
      using put[OF Cons.prems(1), of e] Cons.prems(4) by auto
    then show ?thesis using Cons.IH[OF s1(2)] Cons.prems Put by auto
  next
    case Take
    let ?d = "dropWhile (\<lambda>e. \<not> live s e) (elems s)"
    obtain s1 where s1: "take_next s = Inr (case ?d of [] \<Rightarrow> None | e # es \<Rightarrow> Some (ref e), s1)"
        "ok s1" "elems s1 = tl ?d" "live s1 = live s" "good s1 = good s"
      using take_next[OF Cons.prems(1,2)] by auto
    have "\<forall>e \<in> set (elems s1). good s1 e"
      using Cons.prems(2) s1(3,5) by (metis list.set_sel(2) list.sel(2) set_dropWhileD)
    then obtain s2 where s2: "queue_ops put take_next ops s1 =
          Inr (map (map_option ref) (fst (fifo_ops (live s) ops (tl ?d))), s2)"
        "ok s2" "elems s2 = snd (fifo_ops (live s) ops (tl ?d))" "live s2 = live s" "good s2 = good s"
      using Cons.IH[OF s1(2)] Cons.prems(3,4) Take s1(3-5) by auto
    then show ?thesis using s1(1) Take by (cases ?d) (simp_all del: dropWhile_eq_Nil_conv)
  qed
qed simp

end

section \<open>The ring buffer\<close>

definition ring_ok :: "'a kernel \<Rightarrow> bool" where
  "ring_ok s \<longleftrightarrow> proc_start s < PROC_SIZE + 1 \<and> proc_end s < PROC_SIZE + 1"

definition qlen :: "'a kernel \<Rightarrow> nat" where
  "qlen s = (if proc_start s \<le> proc_end s then proc_end s - proc_start s else proc_end s + 101 - proc_start s)"

definition ring :: "'a kernel \<Rightarrow> u64 list" where
  "ring s = map (\<lambda>k. proc_Q s ((proc_start s + k) mod (PROC_SIZE + 1))) [0..<qlen s]"

lemma length_ring [simp]: "length (ring s) = qlen s"
  by (simp add: ring_def)

lemma mod_ring: "i < 202 \<Longrightarrow> i mod 101 = (if i < 101 then i else i - 101)" for i :: nat
  by (simp add: mod_if)

lemma ring_Nil: "ring_ok s \<Longrightarrow> ring s = [] \<longleftrightarrow> proc_start s = proc_end s"
  by (auto simp: ring_def qlen_def ring_ok_def)

lemma ring_Cons:
  assumes "ring_ok s" and "proc_start s \<noteq> proc_end s"
  shows "ring s = queue_front s # ring (queue_pop s) \<and> ring_ok (queue_pop s)"
proof -
  have b: "proc_start s < 101" "proc_end s < 101" using assms(1) by (simp_all add: ring_ok_def)
  have q: "qlen s = Suc (qlen (queue_pop s))" using assms b by (auto simp: qlen_def queue_pop_def mod_ring)
  have lt: "qlen s < 101" using b by (auto simp: qlen_def)
  have "proc_Q s ((proc_start s + Suc k) mod 101) =
      proc_Q (queue_pop s) ((proc_start (queue_pop s) + k) mod 101)" if "k < qlen (queue_pop s)" for k
  proof -
    have k: "Suc k < 101" using that q lt by simp
    have "(proc_start s + Suc k) mod 101 \<noteq> proc_start s" using b k by (auto simp: mod_ring)
    moreover have "((proc_start s + 1) mod 101 + k) mod 101 = (proc_start s + Suc k) mod 101"
      by (simp add: mod_add_left_eq)
    ultimately show ?thesis by (simp add: queue_pop_def)
  qed
  then have "ring s = queue_front s # ring (queue_pop s)"
    using b unfolding ring_def q upt_conv_Cons[OF zero_less_Suc] map_Suc_upt[symmetric]
    by (simp add: queue_front_def)
  then show ?thesis using b by (simp add: ring_ok_def queue_pop_def)
qed

lemma enqueue_ring:
  assumes "ring_ok s" and "qlen s < PROC_SIZE"
  shows "enqueue v s = Inr (s\<lparr>proc_Q := (proc_Q s)(proc_end s := v), proc_end := (proc_end s + 1) mod 101\<rparr>)"
    and "ring_ok (s\<lparr>proc_Q := (proc_Q s)(proc_end s := v), proc_end := (proc_end s + 1) mod 101\<rparr>)"
    and "ring (s\<lparr>proc_Q := (proc_Q s)(proc_end s := v), proc_end := (proc_end s + 1) mod 101\<rparr>) = ring s @ [v]"
proof -
  let ?s = "s\<lparr>proc_Q := (proc_Q s)(proc_end s := v), proc_end := (proc_end s + 1) mod 101\<rparr>"
  have b: "proc_start s < 101" "proc_end s < 101" using assms(1) by (simp_all add: ring_ok_def)
  show "enqueue v s = Inr ?s" using b by (simp add: enqueue_def)
  show "ring_ok ?s" using b by (simp add: ring_ok_def)
  have q: "qlen ?s = Suc (qlen s)" using assms b by (auto simp: qlen_def mod_ring)
  have e: "(proc_start s + qlen s) mod 101 = proc_end s" using b by (auto simp: qlen_def mod_ring)
  have "proc_Q ?s ((proc_start s + k) mod 101) = proc_Q s ((proc_start s + k) mod 101)" if "k < qlen s" for k
  proof -
    have "(proc_start s + k) mod 101 \<noteq> proc_end s" using that b by (auto simp: qlen_def mod_ring split: if_splits)
    then show ?thesis by simp
  qed
  then show "ring ?s = ring s @ [v]" unfolding ring_def q by (simp add: e)
qed

lemma ring_full: "ring_ok s \<Longrightarrow> qlen s \<le> PROC_SIZE"
  by (auto simp: ring_ok_def qlen_def)

interpretation rq: bounded_fifo ring ring_ok enqueue queue_front queue_pop PROC_SIZE
proof
  fix s :: "'a kernel" and e :: u64
  assume s: "ring_ok s"
  show "length (ring s) < PROC_SIZE \<Longrightarrow> \<exists>s'. enqueue e s = Inr s' \<and> ring_ok s' \<and> ring s' = ring s @ [e]"
    using enqueue_ring[OF s, of e] by auto
  show "ring s \<noteq> [] \<Longrightarrow> queue_front s = hd (ring s)"
    using ring_Cons[OF s] ring_Nil[OF s] by auto
  show "ring s \<noteq> [] \<Longrightarrow> ring_ok (queue_pop s) \<and> ring (queue_pop s) = tl (ring s)"
    using ring_Cons[OF s] ring_Nil[OF s] by auto
qed

section \<open>Choosing the next process\<close>

definition runnable :: "'a kernel \<Rightarrow> u64 \<Rightarrow> bool" where
  "runnable s e \<longleftrightarrow> proc_descriptor s (unat (sno (all_pro s (unat e)))) = 1 \<and>
     (pstate (all_pro s (unat e)) = RUNNING \<or> pstate (all_pro s (unat e)) = NEW_PROC)"

definition entry_ok :: "'a kernel \<Rightarrow> u64 \<Rightarrow> bool" where
  "entry_ok s e \<longleftrightarrow> unat e < PROC_SIZE \<and> unat (sno (all_pro s (unat e))) < PROC_SIZE"

lemma queue_pop_simps [simp]:
  "all_pro (queue_pop s) = all_pro s" "proc_descriptor (queue_pop s) = proc_descriptor s"
  by (simp_all add: queue_pop_def)

lemma funpow_pop_simps [simp]:
  "all_pro ((queue_pop ^^ n) s) = all_pro s" "proc_descriptor ((queue_pop ^^ n) s) = proc_descriptor s"
  by (induction n) simp_all

lemma say_nofmt: "CHR ''%'' \<notin> set fmt \<Longrightarrow> \<exists>c. say fmt ap s = Inr (s\<lparr>con := c\<rparr>)"
  using kprintf_nofmt[of fmt ap "con s"] by (auto simp: say_def)

lemma Throw_stops [simp]:
  "ThrowSegmentationFault addr s = Inl (SegmentationFault addr)"
  "ThrowSecurityError addr s = Inl (SecurityError addr)"
  "ThrowOutOfMemoryError s = Inl OutOfMemory"
  by (simp_all add: ThrowSegmentationFault_def ThrowSecurityError_def ThrowOutOfMemoryError_def say_def)

lemma get_nextproc_pop:
  assumes "ring_ok s" and "\<forall>e \<in> set (ring s). entry_ok s e"
  shows "case dropWhile (\<lambda>e. \<not> runnable s e) (ring s) of
      [] \<Rightarrow> \<exists>c. get_nextproc s = Inr (None, ((queue_pop ^^ qlen s) s)\<lparr>con := c\<rparr>)
    | e # es \<Rightarrow> get_nextproc s = Inr (Some (unat e), (queue_pop ^^ (qlen s - length es)) s)"
  using assms
proof (induction "ring s" arbitrary: s)
  case Nil
  then have "proc_start s = proc_end s" "qlen s = 0" using ring_Nil[of s] length_ring[of s] by auto
  moreover obtain c where "say (''0 process in the queue'' @ [CHR 0x0A]) [] s = Inr (s\<lparr>con := c\<rparr>)"
    using say_nofmt[of "''0 process in the queue'' @ [CHR 0x0A]" "[]" s] by auto
  ultimately show ?case
    using Nil.hyps[symmetric] by (auto simp: get_nextproc_def nextproc_loop.simps[of s])
next
  case (Cons e es)
  note r = Cons.hyps(2)[symmetric]
  have ne: "proc_start s \<noteq> proc_end s" using ring_Nil[OF Cons.prems(1)] r by auto
  have p: "queue_front s = e" "ring (queue_pop s) = es" "ring_ok (queue_pop s)"
    using ring_Cons[OF Cons.prems(1) ne] r by auto
  have b: "proc_start s < 101" using Cons.prems(1) by (simp add: ring_ok_def)
  have eo: "unat e < 100" "unat (sno (all_pro s (unat e))) < 100"
    using Cons.prems(2) r by (auto simp: entry_ok_def)
  have step: "nextproc_loop s = (if runnable s e then Some (Inr (Some (unat e), queue_pop s))
      else nextproc_loop (queue_pop s))"
    using ne b eo p(1)
    by (subst nextproc_loop.simps) (auto simp: Let_def runnable_def queue_front_def queue_pop_def)
  have q: "qlen s = Suc (length es)" using r length_ring[of s] by simp
  have same: "runnable (queue_pop s) = runnable s" "entry_ok (queue_pop s) = entry_ok s"
    by (simp_all add: fun_eq_iff runnable_def entry_ok_def)
  show ?case
  proof (cases "runnable s e")
    case True
    then show ?thesis using step q r by (simp add: get_nextproc_def)
  next
    case False
    have "case dropWhile (\<lambda>e. \<not> runnable s e) es of
        [] \<Rightarrow> \<exists>c. get_nextproc (queue_pop s) = Inr (None, ((queue_pop ^^ length es) (queue_pop s))\<lparr>con := c\<rparr>)
      | x # xs \<Rightarrow> get_nextproc (queue_pop s) =
          Inr (Some (unat x), (queue_pop ^^ (length es - length xs)) (queue_pop s))"
      using Cons.hyps(1)[OF p(2)[symmetric] p(3)] Cons.prems(2) r p(2) length_ring[of "queue_pop s"]
      by (simp only: same p(2)) auto
    moreover have "get_nextproc s = get_nextproc (queue_pop s)" using step False by (simp add: get_nextproc_def)
    moreover have "Suc (length es) - length xs = Suc (length es - length xs)"
      if "dropWhile (\<lambda>e. \<not> runnable s e) es = x # xs" for x xs
      using length_dropWhile_le[of "\<lambda>e. \<not> runnable s e" es] that by simp
    ultimately show ?thesis
      using False q r by (auto simp: funpow_Suc_right simp del: funpow.simps dropWhile_eq_Nil_conv split: list.splits)
  qed
qed

text \<open>
  \<open>get_nextproc\<close> ends and returns the first process of the queue that is in use and
  runnable, leaving in the queue exactly the entries behind it; when no entry is runnable
  it returns the null pointer and leaves the queue empty.
\<close>

lemma get_nextproc_takes:
  fixes s :: "'a kernel"
  assumes "ring_ok s" and "\<forall>e \<in> set (ring s). entry_ok s e"
  shows "\<exists>s'. get_nextproc s = Inr (case dropWhile (\<lambda>e. \<not> runnable s e) (ring s) of
        [] \<Rightarrow> None | e # es \<Rightarrow> Some (unat e), s') \<and> ring_ok s' \<and>
      ring s' = tl (dropWhile (\<lambda>e. \<not> runnable s e) (ring s)) \<and>
      all_pro s' = all_pro s \<and> proc_descriptor s' = proc_descriptor s"
proof -
  have con: "ring (t\<lparr>con := c\<rparr>) = ring t" "ring_ok (t\<lparr>con := c\<rparr>) = ring_ok t" for t :: "'a kernel" and c
    by (simp_all add: ring_def qlen_def ring_ok_def)
  have n: "ring ((queue_pop ^^ n) s) = drop n (ring s)" "ring_ok ((queue_pop ^^ n) s)" if "n \<le> qlen s" for n
    using rq.pop_n[OF assms(1), of n] that by auto
  show ?thesis
  proof (cases "dropWhile (\<lambda>e. \<not> runnable s e) (ring s)")
    case Nil
    then obtain c where "get_nextproc s = Inr (None, ((queue_pop ^^ qlen s) s)\<lparr>con := c\<rparr>)"
      using get_nextproc_pop[OF assms] by (auto simp del: dropWhile_eq_Nil_conv)
    then show ?thesis using n[of "qlen s"] con unfolding Nil by simp
  next
    case (Cons e es)
    have "ring s = takeWhile (\<lambda>e. \<not> runnable s e) (ring s) @ e # es"
      using takeWhile_dropWhile_id[of "\<lambda>e. \<not> runnable s e" "ring s"] unfolding Cons by simp
    then obtain xs where xs: "ring s = xs @ e # es" by blast
    then have "qlen s = length xs + Suc (length es)" using length_ring[of s] by simp
    then have "qlen s - length es \<le> qlen s" "drop (qlen s - length es) (ring s) = es"
      by (simp_all add: xs)
    moreover have "get_nextproc s = Inr (Some (unat e), (queue_pop ^^ (qlen s - length es)) s)"
      using get_nextproc_pop[OF assms] unfolding Cons by simp
    ultimately show ?thesis using n[of "qlen s - length es"] unfolding Cons by simp
  qed
qed

interpretation sq: service_queue ring ring_ok runnable entry_ok enqueue get_nextproc unat PROC_SIZE
proof
  fix s :: "'a kernel" and e :: u64
  assume s: "ring_ok s"
  have same: "runnable s' = runnable s \<and> entry_ok s' = entry_ok s"
    if "all_pro s' = all_pro s" "proc_descriptor s' = proc_descriptor s" for s' :: "'a kernel"
    using that by (simp add: fun_eq_iff runnable_def entry_ok_def)
  show "\<exists>s'. enqueue e s = Inr s' \<and> ring_ok s' \<and> ring s' = ring s @ [e] \<and>
      runnable s' = runnable s \<and> entry_ok s' = entry_ok s" if "length (ring s) < PROC_SIZE"
  proof -
    let ?s = "s\<lparr>proc_Q := (proc_Q s)(proc_end s := e), proc_end := (proc_end s + 1) mod 101\<rparr>"
    have "qlen s < PROC_SIZE" using that by simp
    note enqueue_ring[OF s this, of e]
    moreover have "runnable ?s = runnable s \<and> entry_ok ?s = entry_ok s" by (rule same) simp_all
    ultimately show ?thesis by blast
  qed
  show "\<forall>e \<in> set (ring s). entry_ok s e \<Longrightarrow> \<exists>s'. get_nextproc s =
      Inr (case dropWhile (\<lambda>e. \<not> runnable s e) (ring s) of [] \<Rightarrow> None | e # es \<Rightarrow> Some (unat e), s') \<and>
      ring_ok s' \<and> ring s' = tl (dropWhile (\<lambda>e. \<not> runnable s e) (ring s)) \<and>
      runnable s' = runnable s \<and> entry_ok s' = entry_ok s"
    using get_nextproc_takes[OF s] same by blast
qed

section \<open>A small system\<close>

text \<open>
  Three processes: the active one in slot 0, a runnable one in slot 1 and a zombie in slot 2,
  with the zombie before the runnable one in the queue.
\<close>

definition pcb_small :: "nat \<Rightarrow> PCB" where
  "pcb_small i = \<lparr>sno = of_nat i, pid = of_nat i + 1, ppid = 1, waitstate = 0, waitingfor = 0, signalling_child = 0,
     sigchild_state = 5, mmstruct = \<lparr>vma_list = 0x11\<rparr>, fd = replicate MAX_FD 0, heap_top = 0x602000,
     pname = Some ''sh'', currentDir = Some ''/'', entry_point = 0x400000, u_stack = 0x7000, u_stackbase = 0x8000,
     k_stackbase = 0x9000 + 0x2000 * of_nat i, k_stack = 0x8F00 + 0x2000 * of_nat i,
     pstate = (if i = 2 then ZOMBIE else RUNNING), pcr3 = 0x100000, pnext = None\<rparr>"

definition kernel_small :: tasks where
  "kernel_small = vfs.extend fs_small \<lparr>con = console_boot, files = Map.empty, all_pro = pcb_small,
     proc_Q = (\<lambda>_. -1)(99 := 2, 100 := 1), proc_descriptor = (\<lambda>i. if i < 3 then 1 else 0), proc_start = 99,
     proc_end = 0, active = Some 0, global_pid = 4, upml4 = 0xFFFFFFFF801FF000, ustacktop = 0xFFFFFFFF7F1FF000,
     kstackbase = 0xFFFFFFFFFFED1000, parent_stack = replicate 4096 0, rsp = 0x8F00, tss_rsp0 = 0x9000,
     RING_0_MODE = 1, initial_stack_top = 0xFFFFFFFF80210000, tarfs_img = [], tarfs_start = 0, keys = []\<rparr>"

lemma kernel_small_simps [simp]:
  "all_pro kernel_small = pcb_small" "proc_start kernel_small = 99" "proc_end kernel_small = 0"
  "proc_Q kernel_small = (\<lambda>_. -1)(99 := 2, 100 := 1)" "active kernel_small = Some 0"
  "proc_descriptor kernel_small = (\<lambda>i. if i < 3 then 1 else 0)" "con kernel_small = console_boot"
  "inodes kernel_small = fs_heap" "root_inode kernel_small = 0x100" "kern_VA kernel_small = 0x1000"
  "RING_0_MODE kernel_small = 1" "kstackbase kernel_small = 0xFFFFFFFFFFED1000" "files kernel_small = Map.empty"
  by (simp_all add: kernel_small_def vfs.defs fs_small_def vmm.defs vm_small_def machine.defs)

lemma ring_small: "ring_ok kernel_small" "ring kernel_small = [2, 1]"
  by (simp_all add: ring_ok_def ring_def qlen_def upt_rec)

section \<open>Properties\<close>

text \<open>C29. The ring buffer \<open>proc_Q\<close> with its indices is a first-in first-out queue. For every sequence of
  \<open>enqueue\<close> and \<open>get_nextproc\<close>, in any order and any number of times around the array, that puts nothing into a
  queue of 100 entries: the code ends, each call of \<open>get_nextproc\<close> returns the process that is the oldest entry of
  the list of waiting entries that can run, passing over older ones that cannot, or the null pointer when there is
  none, and the buffer holds that list at the end. The entries are numbers of slots of the process table.\<close>

theorem run_queue_fifo:
  fixes s :: "'a kernel"
  assumes "ring_ok s" and "\<forall>e \<in> set (ring s). entry_ok s e" and "\<forall>e. Put e \<in> set ops \<longrightarrow> entry_ok s e"
    and "fifo_fits PROC_SIZE (runnable s) ops (ring s)"
  shows "\<exists>s'. queue_ops enqueue get_nextproc ops s =
      Inr (map (map_option unat) (fst (fifo_ops (runnable s) ops (ring s))), s') \<and>
    ring_ok s' \<and> ring s' = snd (fifo_ops (runnable s) ops (ring s))"
  using sq.ops_refine[OF assms] by blast

text \<open>The zombie in slot 2 is passed over, the two entries that are put in come out in their order, the last one
  after the indices have gone past the end of the array, and then the queue is empty.\<close>

theorem run_queue_fifo_witness:
  "\<exists>s'. queue_ops enqueue get_nextproc [Take, Put 1, Put 0, Take, Take, Take] kernel_small =
      Inr ([Some 1, Some 1, Some 0, None], s') \<and> ring_ok s' \<and> ring s' = []"
proof -
  have live: "runnable kernel_small 0" "runnable kernel_small 1" "\<not> runnable kernel_small 2"
    by (simp_all add: runnable_def pcb_small_def)
  have "entry_ok kernel_small e" if "e \<in> {0, 1, 2}" for e
    using that by (auto simp: entry_ok_def pcb_small_def)
  then show ?thesis
    using run_queue_fifo[of kernel_small "[Take, Put 1, Put 0, Take, Take, Take]"] live
    by (simp add: ring_small)
qed

end
