(* ===== verification/Syscalls_Spec.thy ===== *)
theory Syscalls_Spec
  imports Syscalls Tasks_Spec "HOL-Library.Multiset"
begin

text \<open>
  What the process system calls promise: the scheduler is a round robin over the runnable
  processes, a memory request appends an area to the process and moves its heap top to a
  fresh page, a finished child is reaped, and the file search of exec.
\<close>

section \<open>Scheduling\<close>

lemma act_Some: "active s = Some a \<Longrightarrow> a < PROC_SIZE \<Longrightarrow> act s = Inr a"
  by (simp add: act_def)

lemma ring_cong:
  assumes "proc_Q s' = proc_Q s" and "proc_start s' = proc_start s" and "proc_end s' = proc_end s"
  shows "ring s' = ring s" and "ring_ok s' = ring_ok s"
  using assms by (simp_all add: ring_def qlen_def ring_ok_def)

lemma switch_save_running:
  fixes s :: "'a kernel"
  assumes "active s = Some a" and "a < PROC_SIZE" and "waitstate (all_pro s a) \<noteq> 1" and "ring_ok s"
    and "qlen s < PROC_SIZE"
  obtains s1 where "switch_save reg sp s = Inr s1" and "ring_ok s1" and "ring s1 = ring s @ [sno (all_pro s a)]"
    and "all_pro s1 = (all_pro s)(a := (all_pro s a)\<lparr>k_stack := reg, u_stack := sp, pstate := 1\<rparr>)"
    and "proc_descriptor s1 = proc_descriptor s"
proof -
  let ?q = "s\<lparr>proc_Q := (proc_Q s)(proc_end s := sno (all_pro s a)), proc_end := (proc_end s + 1) mod 101\<rparr>"
  let ?s1 = "?q\<lparr>all_pro := (all_pro s)(a := (all_pro s a)\<lparr>k_stack := reg, u_stack := sp, pstate := 1\<rparr>)\<rparr>"
  note e = enqueue_ring[OF assms(4,5), of "sno (all_pro s a)"]
  have "switch_save reg sp s = Inr ?s1"
    using assms(1-3) e(1) by (simp add: switch_save_def act_Some upd_pcb_def)
  moreover have "ring ?s1 = ring s @ [sno (all_pro s a)]" "ring_ok ?s1"
    using ring_cong[of ?s1 ?q] e(2,3) by simp_all
  ultimately show thesis using that[of ?s1] by simp
qed

lemma dropWhile_split:
  assumes "\<forall>x \<in> set xs. P x" and "\<not> P e"
  shows "dropWhile P (xs @ e # ys) = e # ys"
  using assms by (induction xs) auto

lemma nextproc_chosen:
  assumes "ring_ok s" and "\<forall>x \<in> set (ring s). entry_ok s x" and "ring s = skipped @ e # rest"
    and "\<forall>x \<in> set skipped. \<not> runnable s x" and "runnable s e"
  obtains s1 where "get_nextproc s = Inr (Some (unat e), s1)" and "ring s1 = rest" and "ring_ok s1"
    and "all_pro s1 = all_pro s" and "proc_descriptor s1 = proc_descriptor s"
proof -
  have d: "dropWhile (\<lambda>x. \<not> runnable s x) (ring s) = e # rest"
    using dropWhile_split[of skipped "\<lambda>x. \<not> runnable s x" e rest] assms(3-5) by simp
  show thesis using get_nextproc_takes[OF assms(1,2)] that unfolding d by auto
qed

lemma switch_chosen:
  fixes s :: "'a kernel"
  assumes act: "active s = Some a" "a < PROC_SIZE" "waitstate (all_pro s a) \<noteq> 1" "unat (sno (all_pro s a)) = a"
    and q: "ring_ok s" "length (ring s) < PROC_SIZE" "\<forall>x \<in> set (ring s). entry_ok s x \<and> unat x \<noteq> a"
    and e: "ring s = skipped @ e # rest" "\<forall>x \<in> set skipped. \<not> runnable s x" "runnable s e"
    and p: "pstate (all_pro s (unat e)) = RUNNING" "waitstate (all_pro s (unat e)) \<noteq> WAITING_TO_LIVE"
      "waitstate (all_pro s (unat e)) \<noteq> WAITING_TO_DIE"
  shows "\<exists>s'. syscall_switch reg sp s = Inr (ResumeFrame (k_stack (all_pro s (unat e))), s') \<and>
    active s' = Some (unat e) \<and> ring s' = rest @ [sno (all_pro s a)] \<and> ring_ok s' \<and>
    cr3 s' = pcr3 (all_pro s (unat e)) \<and> tss_rsp0 s' = k_stackbase (all_pro s (unat e)) \<and> RING_0_MODE s' = 0 \<and>
    all_pro s' = (all_pro s)(a := (all_pro s a)\<lparr>k_stack := reg, u_stack := sp, pstate := 1\<rparr>) \<and>
    proc_descriptor s' = proc_descriptor s"
proof -
  have "qlen s < PROC_SIZE" using q(2) by simp
  then obtain s1 where s1: "switch_save reg sp s = Inr s1" "ring_ok s1" "ring s1 = ring s @ [sno (all_pro s a)]"
      "all_pro s1 = (all_pro s)(a := (all_pro s a)\<lparr>k_stack := reg, u_stack := sp, pstate := 1\<rparr>)"
      "proc_descriptor s1 = proc_descriptor s"
    by (rule switch_save_running[OF act(1-3) q(1)])
  have same: "runnable s1 x = runnable s x" "entry_ok s1 x = entry_ok s x" if "x \<in> set (ring s)" for x
    using q(3) that s1(4,5) by (simp_all add: runnable_def entry_ok_def)
  have "entry_ok s1 x" if "x \<in> set (ring s1)" for x
  proof (cases "x \<in> set (ring s)")
    case False
    then have "x = sno (all_pro s a)" using that s1(3) by simp
    then show ?thesis using act(2,4) s1(4) by (simp add: entry_ok_def)
  qed (use same q(3) in simp)
  moreover have "ring s1 = skipped @ e # (rest @ [sno (all_pro s a)])" using s1(3) e(1) by simp
  moreover have "\<forall>x \<in> set skipped. \<not> runnable s1 x" "runnable s1 e" using same e by simp_all
  ultimately obtain s2 where s2: "get_nextproc s1 = Inr (Some (unat e), s2)" "ring s2 = rest @ [sno (all_pro s a)]"
      "ring_ok s2" "all_pro s2 = all_pro s1" "proc_descriptor s2 = proc_descriptor s1"
    using nextproc_chosen[OF s1(2)] by metis
  have ea: "unat e \<noteq> a" using q(3) e(1) by simp
  let ?p = "all_pro s (unat e)"
  let ?s = "s2\<lparr>active := Some (unat e), tss_rsp0 := k_stackbase ?p, cr3 := pcr3 ?p, RING_0_MODE := 0, rsp := k_stack ?p\<rparr>"
  have "switch_loop reg sp s = Some (Inr (ResumeFrame (k_stack ?p), ?s))"
    using s1(1,4) s2(1,4) ea p by (subst switch_loop.simps) (simp add: Let_def set_tss_rsp_def change_ptable_def)
  then have "syscall_switch reg sp s = Inr (ResumeFrame (k_stack ?p), ?s)" by (simp add: syscall_switch_def)
  moreover have "ring ?s = ring s2" "ring_ok ?s = ring_ok s2" by (rule ring_cong; simp)+
  ultimately show ?thesis using s1(4,5) s2 by (intro exI[of _ ?s]) simp
qed

text \<open>C20. The scheduler is a round robin: called by a process that does not wait, it saves that
  process at the end of the run queue and resumes, from its saved stack and in its own
  address space, the first runnable process of the queue; entries of processes that are
  not runnable are dropped. Nothing else of the process table changes.\<close>

theorem switch_round_robin:
  fixes s :: "'a kernel"
  assumes act: "active s = Some a" "a < PROC_SIZE" "waitstate (all_pro s a) \<noteq> 1" "unat (sno (all_pro s a)) = a"
    and q: "ring_ok s" "length (ring s) < PROC_SIZE" "\<forall>x \<in> set (ring s). entry_ok s x \<and> unat x \<noteq> a"
    and e: "ring s = skipped @ e # rest" "\<forall>x \<in> set skipped. \<not> runnable s x" "runnable s e"
    and p: "pstate (all_pro s (unat e)) = RUNNING" "waitstate (all_pro s (unat e)) \<noteq> WAITING_TO_LIVE"
      "waitstate (all_pro s (unat e)) \<noteq> WAITING_TO_DIE"
  shows "\<exists>s'. syscall_switch reg sp s = Inr (ResumeFrame (k_stack (all_pro s (unat e))), s') \<and>
    active s' = Some (unat e) \<and> ring s' = rest @ [sno (all_pro s a)] \<and> ring_ok s' \<and>
    cr3 s' = pcr3 (all_pro s (unat e)) \<and> tss_rsp0 s' = k_stackbase (all_pro s (unat e)) \<and> RING_0_MODE s' = 0 \<and>
    all_pro s' = (all_pro s)(a := (all_pro s a)\<lparr>k_stack := reg, u_stack := sp, pstate := 1\<rparr>)"
  using switch_chosen[OF assms] by blast

theorem switch_round_robin_witness:
  "\<exists>s'. syscall_switch 0x8E00 0x6FF0 kernel_small =
      Inr (ResumeFrame (k_stack (all_pro kernel_small (unat (1 :: u64)))), s') \<and>
    active s' = Some (unat (1 :: u64)) \<and> ring s' = [] @ [sno (all_pro kernel_small 0)] \<and> ring_ok s' \<and>
    cr3 s' = pcr3 (all_pro kernel_small (unat (1 :: u64))) \<and>
    tss_rsp0 s' = k_stackbase (all_pro kernel_small (unat (1 :: u64))) \<and> RING_0_MODE s' = 0 \<and>
    all_pro s' = (all_pro kernel_small)(0 := (all_pro kernel_small 0)\<lparr>k_stack := 0x8E00, u_stack := 0x6FF0, pstate := 1\<rparr>)"
  by (rule switch_round_robin[where skipped = "[2]"])
    (simp_all add: ring_small entry_ok_def runnable_def pcb_small_def qlen_def)

text \<open>A process that can run: its slot is in use, and it does not wait.\<close>

definition ready :: "'a kernel \<Rightarrow> u64 \<Rightarrow> bool" where
  "ready s e \<longleftrightarrow> unat e < PROC_SIZE \<and> sno (all_pro s (unat e)) = e \<and> proc_descriptor s (unat e) = 1 \<and>
     pstate (all_pro s (unat e)) = RUNNING \<and> waitstate (all_pro s (unat e)) = 0"

text \<open>The active process and the processes in the queue are ready, and no process occurs twice.\<close>

definition sched_ok :: "nat \<Rightarrow> 'a kernel \<Rightarrow> bool" where
  "sched_ok a s \<longleftrightarrow> active s = Some a \<and> a < PROC_SIZE \<and> ring_ok s \<and> length (ring s) < PROC_SIZE \<and>
     distinct (of_nat a # ring s) \<and> (\<forall>e \<in> set (of_nat a # ring s). ready s e)"

lemma switch_ready:
  fixes s :: "'a kernel"
  assumes "sched_ok a s" and "ring s = e # rest"
  obtains out s' where "syscall_switch reg sp s = Inr (out, s')" and "sched_ok (unat e) s'"
    and "ring s' = rest @ [of_nat a]"
proof -
  have ok: "active s = Some a" "a < PROC_SIZE" "ring_ok s" "length (ring s) < PROC_SIZE"
      "distinct (of_nat a # ring s)" "\<And>x. x \<in> set (of_nat a # ring s) \<Longrightarrow> ready s x"
    using assms(1) by (auto simp: sched_ok_def)
  have ua: "unat (of_nat a :: u64) = a" using ok(2) by (simp add: unat_of_nat)
  have ra: "ready s (of_nat a)" and re: "ready s e" using ok(6) assms(2) by simp_all
  then have sa: "sno (all_pro s a) = of_nat a" using ua by (simp add: ready_def)
  have ne: "unat x \<noteq> a" if "x \<in> set (ring s)" for x using that ok(5) by auto
  let ?p = "(all_pro s)(a := (all_pro s a)\<lparr>k_stack := reg, u_stack := sp, pstate := 1\<rparr>)"
  obtain s' where s': "syscall_switch reg sp s = Inr (ResumeFrame (k_stack (all_pro s (unat e))), s')"
      "active s' = Some (unat e)" "ring s' = rest @ [sno (all_pro s a)]" "ring_ok s'" "all_pro s' = ?p"
      "proc_descriptor s' = proc_descriptor s"
    using switch_chosen[of s a "[]" e rest reg sp] ok(1-4) ra re ua sa ne ok(6) assms(2)
    by (auto simp: ready_def entry_ok_def runnable_def)
  have "ready s' x" if "x \<in> set (of_nat a # ring s)" for x
    using ok(6)[OF that] s'(5,6) by (auto simp: ready_def)
  moreover have "unat e < PROC_SIZE" using re by (simp add: ready_def)
  ultimately have "sched_ok (unat e) s'" using s'(2-4) ok(4,5) assms(2) sa by (auto simp: sched_ok_def)
  then show thesis using that s'(1,3) sa by simp
qed

text \<open>A number of calls of the scheduler, each with the stack pointers of its caller.\<close>

definition switches :: "(u64 \<times> u64) list \<Rightarrow> 'a kernel \<Rightarrow> 'a kernel res" where
  "switches = rfold (\<lambda>(reg, sp) s. rbind (syscall_switch reg sp s) (\<lambda>(_, s). Inr s))"

text \<open>C7. The scheduler is fair: when the active process and the queued ones are ready, a process with
  \<open>k\<close> others before it in the queue is the active one after exactly \<open>k + 1\<close> calls of the scheduler,
  whatever the stack pointers of the callers are, and the processes are ready again.\<close>

theorem switch_fair:
  fixes s :: "'a kernel"
  assumes "sched_ok a s" and "ring s = before @ e # rest" and "length calls = length before + 1"
  shows "\<exists>s'. switches calls s = Inr s' \<and> active s' = Some (unat e) \<and> sched_ok (unat e) s'"
  using assms
proof (induction "before" arbitrary: a s rest calls)
  case Nil
  then obtain reg sp where c: "calls = [(reg, sp)]" by (cases calls) auto
  obtain out s' where "syscall_switch reg sp s = Inr (out, s')" "sched_ok (unat e) s'"
    by (rule switch_ready[of a s e rest reg sp]) (use Nil in simp_all)
  then show ?case using c by (simp add: switches_def sched_ok_def)
next
  case (Cons b bs)
  obtain reg sp cs where c: "calls = (reg, sp) # cs" "length cs = length bs + 1"
    using Cons.prems(3) by (cases calls) auto
  obtain out s1 where s1: "syscall_switch reg sp s = Inr (out, s1)" "sched_ok (unat b) s1"
      "ring s1 = (bs @ e # rest) @ [of_nat a]"
    by (rule switch_ready[of a s b "bs @ e # rest" reg sp]) (use Cons.prems in simp_all)
  then show ?case using Cons.IH[OF s1(2), of "rest @ [of_nat a]" cs] c by (simp add: switches_def)
qed

definition kernel_ready :: tasks where
  "kernel_ready = kernel_small\<lparr>all_pro := \<lambda>i. (pcb_small i)\<lparr>pstate := RUNNING\<rparr>\<rparr>"

lemma sched_ok_small: "sched_ok 0 kernel_ready" "ring kernel_ready = [2, 1]"
  using ring_small ring_cong[of kernel_ready kernel_small]
  by (simp_all add: kernel_ready_def sched_ok_def ready_def pcb_small_def)

theorem switch_fair_witness:
  "\<exists>s'. switches [(0x8E00, 0x6FF0), (0xAE00, 0x6FE0)] kernel_ready = Inr s' \<and>
     active s' = Some (unat (1 :: u64)) \<and> sched_ok (unat (1 :: u64)) s'"
  by (rule switch_fair[OF sched_ok_small(1), of "[2]"]) (simp_all add: sched_ok_small)

section \<open>Schedules\<close>

text \<open>The states that a number of calls of the scheduler can reach.\<close>

inductive scheduled :: "'a kernel \<Rightarrow> 'a kernel \<Rightarrow> bool" for s0 where
  start: "scheduled s0 s0"
| switch: "scheduled s0 s \<Longrightarrow> syscall_switch reg sp s = Inr (out, s') \<Longrightarrow> scheduled s0 s'"

text \<open>A process that is alone saves itself in the queue and is chosen again.\<close>

lemma switch_alone:
  fixes s :: "'a kernel"
  assumes "sched_ok a s" and "ring s = []"
  obtains out s' where "syscall_switch reg sp s = Inr (out, s')" and "sched_ok a s'" and "ring s' = []"
proof -
  have ok: "active s = Some a" "a < PROC_SIZE" "ring_ok s" "ready s (of_nat a)"
    using assms(1) by (auto simp: sched_ok_def)
  have ua: "unat (of_nat a :: u64) = a" using ok(2) by (simp add: unat_of_nat)
  have r: "sno (all_pro s a) = of_nat a" "proc_descriptor s a = 1" "pstate (all_pro s a) = RUNNING"
      "waitstate (all_pro s a) = 0"
    using ok(4) ua by (simp_all add: ready_def)
  let ?p = "(all_pro s)(a := (all_pro s a)\<lparr>k_stack := reg, u_stack := sp, pstate := 1\<rparr>)"
  have "qlen s < PROC_SIZE" using assms(2) length_ring[of s] by simp
  then obtain s1 where s1: "switch_save reg sp s = Inr s1" "ring_ok s1" "ring s1 = [of_nat a]" "all_pro s1 = ?p"
      "proc_descriptor s1 = proc_descriptor s"
    using switch_save_running[OF ok(1,2) _ ok(3)] r assms(2) by (metis append_Nil zero_neq_one)
  have e: "\<forall>x \<in> set (ring s1). entry_ok s1 x" "runnable s1 (of_nat a)"
    using s1 ua ok(2) r by (simp_all add: entry_ok_def runnable_def)
  obtain s2 where s2: "get_nextproc s1 = Inr (Some (unat (of_nat a :: u64)), s2)" "ring s2 = []" "ring_ok s2"
      "all_pro s2 = all_pro s1" "proc_descriptor s2 = proc_descriptor s1"
    by (rule nextproc_chosen[OF s1(2) e(1), of "[]" "of_nat a" "[]"]) (use s1(3) e(2) in simp_all)
  let ?s = "s2\<lparr>active := Some a, tss_rsp0 := k_stackbase (?p a), cr3 := pcr3 (?p a), RING_0_MODE := 0, rsp := reg\<rparr>"
  have "switch_loop reg sp s = Some (Inr (ResumeFrame reg, ?s))"
    using s1(1,4) s2(1,4) r ua by (subst switch_loop.simps) (simp add: Let_def set_tss_rsp_def change_ptable_def)
  moreover have "ring ?s = ring s2" "ring_ok ?s = ring_ok s2" by (rule ring_cong; simp)+
  moreover have "ready ?s (of_nat a)" using s2(4,5) s1(4,5) r ua ok(2) by (simp add: ready_def)
  ultimately show thesis using s2(2,3) ok(2) by (intro that[of "ResumeFrame reg" ?s]) (simp_all add: syscall_switch_def sched_ok_def)
qed

lemma switch_ok:
  fixes s s' :: "'a kernel"
  assumes "sched_ok a s" and "syscall_switch reg sp s = Inr (out, s')"
  shows "\<exists>b. sched_ok b s' \<and> mset (of_nat b # ring s') = mset (of_nat a # ring s)"
proof (cases "ring s")
  case Nil
  show ?thesis by (rule switch_alone[OF assms(1) Nil, of reg sp]) (use assms(2) Nil in auto)
next
  case (Cons e rest)
  show ?thesis by (rule switch_ready[OF assms(1) Cons, of reg sp]) (use assms(2) Cons in auto)
qed

text \<open>C21. No schedule loses or duplicates a process: in every state that calls of the scheduler reach from
  one in which the active and the queued processes are ready and pairwise different, the
  active process together with the queue holds exactly the same processes, and all of
  them are ready.\<close>

theorem scheduled_invariant:
  fixes s s' :: "'a kernel"
  assumes "sched_ok a s" and "scheduled s s'"
  shows "\<exists>b. sched_ok b s' \<and> mset (of_nat b # ring s') = mset (of_nat a # ring s)"
  using assms(2)
proof induction
  case start
  then show ?case using assms(1) by blast
next
  case (switch t reg sp out t')
  then obtain b where "sched_ok b t" "mset (of_nat b # ring t) = mset (of_nat a # ring s)" by blast
  then show ?case using switch_ok[of b t reg sp out t'] switch.hyps(2) by metis
qed

theorem scheduled_invariant_witness:
  "\<exists>s' b. scheduled kernel_ready s' \<and> active s' = Some 2 \<and> sched_ok b s' \<and>
     mset (of_nat b # ring s') = mset (of_nat 0 # ring kernel_ready)"
proof -
  obtain out s' where s': "syscall_switch 0x8E00 0x6FF0 kernel_ready = Inr (out, s')" "sched_ok (unat (2 :: u64)) s'"
    by (rule switch_ready[OF sched_ok_small])
  then have r: "scheduled kernel_ready s'" by (blast intro: scheduled.intros)
  have "active s' = Some 2" using s'(2) by (simp add: sched_ok_def)
  then show ?thesis using scheduled_invariant[OF sched_ok_small(1) r] r by blast
qed

section \<open>Memory requests\<close>

text \<open>Saved registers with two arguments.\<close>

definition regs_small :: "u64 \<Rightarrow> u64 \<Rightarrow> gpr_t" where
  "regs_small di si = \<lparr>r10 = 0, r9 = 0, r8 = 0, rdi = di, rsi = si, rdx = 0, rbx = 0, rax = 0, rip = 0x400010,
     usersp = 0x7000\<rparr>"

lemma alloc_vma_pcbs:
  fixes s :: "'a kernel"
  assumes "alloc_vma a b s = Inr (p, s')"
  shows "all_pro s' = all_pro s" and "active s' = active s"
  using assms by (auto simp: alloc_vma_def getvma_from_recylebin_def kmalloc_Inr split: option.splits if_splits)

text \<open>The first address of the page behind the one that holds an address.\<close>

lemma next_page:
  fixes x :: u64
  assumes "unat x < 2 ^ 64 - 4096"
  shows "unat (push_bit 12 (drop_bit 12 x + 1)) = (unat x div 4096 + 1) * 4096"
proof -
  define q where "q = unat x div 4096"
  have d: "unat (drop_bit 12 x) = q" unfolding q_def by (rule unat_drop12)
  have q: "q + 1 < 2 ^ 52" "(q + 1) * 4096 < 2 ^ 64"
  proof -
    have "q * 4096 \<le> unat x" unfolding q_def by simp
    then have "(q + 1) * 4096 < 2 ^ 64" using assms by simp
    then show "(q + 1) * 4096 < 2 ^ 64" "q + 1 < 2 ^ 52" by simp_all
  qed
  then have "unat (drop_bit 12 x + 1) = q + 1" using unat_add_small[of "drop_bit 12 x" 1] d by simp
  then have "unat (push_bit 12 (drop_bit 12 x + 1)) = take_bit 64 (push_bit 12 (q + 1))"
    by (simp only: unsigned_push_bit_eq) simp
  moreover have "push_bit 12 (q + 1) = (q + 1) * 4096" by (simp add: push_bit_eq_mult)
  ultimately show ?thesis using q(2) by (simp only: take_bit_nat_eq_self q_def)
qed

lemma k_mmap_area:
  fixes s :: "'a kernel"
  assumes "active s = Some a" and "a < PROC_SIZE" and "vma_inv (mmstruct (all_pro s a)) xs ys s"
    and "unat (kern_VA s) + 24 < 2 ^ 64" and "0 < rsi r"
    and "unat (heap_top (all_pro s a)) + unat (rsi r) < 2 ^ 64 - 4096"
  shows "\<exists>s' p. k_mmap r s = Inr (Ret (heap_top (all_pro s a)), s') \<and>
     vma_inv (mmstruct (all_pro s' a)) (xs @ [p]) (tl ys) s' \<and>
     areas (vmas s') (xs @ [p]) = areas (vmas s) xs @
       [(heap_top (all_pro s a), heap_top (all_pro s a) + rsi r - 1)] \<and>
     unat (heap_top (all_pro s a) + rsi r - 1) < unat (heap_top (all_pro s' a)) \<and>
     4096 dvd unat (heap_top (all_pro s' a)) \<and> (\<forall>i. i \<noteq> a \<longrightarrow> all_pro s' i = all_pro s i) \<and> active s' = active s"
proof -
  let ?h = "heap_top (all_pro s a)"
  let ?e = "?h + rsi r - 1"
  let ?t = "push_bit 12 (drop_bit 12 ?e + 1)"
  let ?s0 = "s\<lparr>all_pro := (all_pro s)(a := (all_pro s a)\<lparr>heap_top := ?t\<rparr>)\<rparr>"
  let ?v = "\<lparr>vstart = ?h, vend = ?e, nextvma = 0\<rparr>"
  have inv: "vma_inv (mmstruct (all_pro s a)) xs ys ?s0" using assms(3) by (simp add: vma_inv_def)
  have k0: "unat (kern_VA ?s0) + 24 < 2 ^ 64" using assms(4) by simp
  obtain p s1 where p: "alloc_vma ?h ?e ?s0 = Inr (p, s1)" "p \<noteq> 0" "p \<notin> set xs" "p \<notin> set (tl ys)"
      "vmas s1 = (vmas ?s0)(p \<mapsto> ?v)" "vma_inv (mmstruct (all_pro s a)) xs (tl ys) s1"
    by (rule alloc_vma_ok[OF inv k0])
  obtain mm' h where m: "append_to_vma_list (mmstruct (all_pro s a)) p s1 = Inr (mm', s1\<lparr>vmas := h\<rparr>)"
      "vma_inv mm' (xs @ [p]) (tl ys) (s1\<lparr>vmas := h\<rparr>)" "area h = area (vmas s1)"
    by (rule append_ok[OF p(6,2), of ?v]) (use p(3-5) in simp_all)
  have pcbs: "all_pro s1 = all_pro ?s0" "active s1 = active s" using alloc_vma_pcbs[OF p(1)] by simp_all
  let ?s2 = "s1\<lparr>vmas := h, all_pro := (all_pro ?s0)(a := (all_pro ?s0 a)\<lparr>mmstruct := mm'\<rparr>)\<rparr>"
  have run: "k_mmap r s = Inr (Ret ?h, ?s2)"
    using assms(1,2) p(1) m(1) pcbs by (simp add: k_mmap_def act_Some upd_pcb_def Let_def)
  have ar: "areas h (xs @ [p]) = areas (vmas s) xs @ [(?h, ?e)]"
    using m(3) p(3,5) by (auto simp: areas_def area_def)
  have "unat (?h + rsi r) = unat ?h + unat (rsi r)" using assms(6) by (simp add: unat_add_small)
  moreover have "0 < unat (rsi r)" using assms(5) by (simp add: word_less_nat_alt)
  ultimately have "unat ?e < 2 ^ 64 - 4096" using assms(6) by (simp add: unat_sub_if')
  then have t: "unat ?t = (unat ?e div 4096 + 1) * 4096" by (rule next_page)
  then have "unat ?e < unat ?t" using dividend_less_div_times[of 4096 "unat ?e"] by simp
  moreover have "4096 dvd unat ?t" unfolding t by simp
  moreover have "vma_inv mm' (xs @ [p]) (tl ys) ?s2" using m(2) by (simp add: vma_inv_def)
  ultimately show ?thesis using run ar pcbs(2) by (intro exI[of _ ?s2] exI[of _ p]) simp
qed


lemma kernel_small_vmas: "vmas kernel_small = vmas vm_small" "vma_recycle_list kernel_small = 0x33"
  by (simp_all add: kernel_small_def vfs.defs fs_small_def vmm.defs vm_small_def machine.defs)

lemma vma_inv_kernel_small: "vma_inv (mmstruct (all_pro kernel_small 0)) [0x11, 0x22] [0x33] kernel_small"
  by (simp add: vma_inv_def kernel_small_vmas pcb_small_def)


section \<open>Memory of the interrupted process\<close>

text \<open>The 152 bytes from \<open>reg\<close> on, the size of the saved registers, lie in one page, at the physical address \<open>f + d\<close>.\<close>

definition frame_at :: "u64 \<Rightarrow> u64 \<Rightarrow> nat \<Rightarrow> 'a machine_scheme \<Rightarrow> bool" where
  "frame_at reg f d s \<longleftrightarrow> (\<exists>b. page_aligned b \<and> reg = b + of_nat d \<and> d + 152 \<le> 4096 \<and>
     walk_to s (mmu_indices b) = Some f)"

lemma frame_translate:
  fixes s :: "'a machine_scheme"
  assumes "frame_at reg f d s" and "k \<le> 144"
  shows "translate s (reg + of_nat k) = Some (f + of_nat (d + k))"
    and "translate s (reg + of_nat k + 7) = Some (f + of_nat (d + k + 7))" and "within_page (reg + of_nat k)"
proof -
  obtain b where b: "page_aligned b" "reg = b + of_nat d" "d + 152 \<le> 4096" "walk_to s (mmu_indices b) = Some f"
    using assms(1) by (auto simp: frame_at_def)
  have t: "translate s (b + of_nat e) = Some (f + of_nat e)" if "e < 4096" for e
    using translate_page[OF b(1) that, of s] b(4) by simp
  show "translate s (reg + of_nat k) = Some (f + of_nat (d + k))"
    using t[of "d + k"] b(2,3) assms(2) by (simp add: add.assoc)
  show "translate s (reg + of_nat k + 7) = Some (f + of_nat (d + k + 7))"
    using t[of "d + k + 7"] b(2,3) assms(2) by (simp add: add.assoc)
  have "within_page (b + of_nat (d + k))"
    by (rule within_page_offset[OF b(1)]) (use b(3) assms(2) in simp)
  then show "within_page (reg + of_nat k)" using b(2) by (simp add: add.assoc)
qed

lemma kload64_frame:
  fixes s :: "'a machine_scheme"
  assumes "frame_at reg f d s" and "k \<le> 144"
  shows "kload64 (reg + of_nat k) s = Inr (load64 (pmem s) (f + of_nat (d + k)), s)"
  using frame_translate[OF assms] by (simp add: kload64_def touch_def vload64_def)

lemma kload8_frame:
  fixes s :: "'a machine_scheme"
  assumes "frame_at reg f d s" and "k < 152"
  shows "kload8 (reg + of_nat k) s = Inr (pmem s (f + of_nat (d + k)), s)"
proof -
  obtain b where b: "page_aligned b" "reg = b + of_nat d" "d + 152 \<le> 4096" "walk_to s (mmu_indices b) = Some f"
    using assms(1) by (auto simp: frame_at_def)
  have "translate s (reg + of_nat k) = Some (f + of_nat (d + k))"
    using translate_page[OF b(1), of "d + k" s] b(2-4) assms(2) by (simp add: add.assoc)
  then show ?thesis by (simp add: kload8_def vload8_def)
qed

text \<open>A string in such a piece of memory.\<close>

lemma byte_char: "char_of (unat (of_char c :: u8)) = c"
proof -
  have "(of_char c :: nat) < 256" by (metis of_char_mod_256 mod_less_divisor zero_less_numeral)
  moreover have "(of_char c :: u8) = of_nat (of_char c)" by (simp only: of_nat_of_char)
  ultimately have "unat (of_char c :: u8) = of_char c" by (simp only: unat_of_nat) simp
  then show ?thesis by simp
qed

lemma NUL_char: "char_of (0 :: nat) = NUL"
  by (simp add: char_of_def)

lemma read_cstr_loop_bytes:
  fixes s :: "'a kernel"
  assumes "cstring str" and "\<forall>k \<le> length str. kload8 (p + of_nat k) s = Inr (of_char (cget str k), s)"
  shows "read_cstr_loop p acc s = Some (Inr (acc @ str, s))"
  using assms
proof (induction str arbitrary: p acc)
  case Nil
  then show ?case by (subst read_cstr_loop.simps) simp
next
  case (Cons c cs)
  have c: "c \<noteq> NUL" "cstring cs" using Cons.prems(1) by (auto simp: cstring_def)
  have "(of_char c :: u8) \<noteq> 0" using byte_char[of c] c(1) by (metis NUL_char unsigned_0)
  moreover have "kload8 p s = Inr (of_char c, s)" using Cons.prems(2)[rule_format, of 0] by simp
  moreover have "read_cstr_loop (p + 1) (acc @ [c]) s = Some (Inr ((acc @ [c]) @ cs, s))"
  proof (rule Cons.IH[OF c(2)], intro allI impI)
    fix k assume "k \<le> length cs"
    then show "kload8 (p + 1 + of_nat k) s = Inr (of_char (cget cs k), s)"
      using Cons.prems(2)[rule_format, of "Suc k"] by (simp add: add.assoc)
  qed
  ultimately show ?case using byte_char[of c] by (subst read_cstr_loop.simps) simp
qed

lemma read_cstr_bytes:
  fixes s :: "'a kernel"
  assumes "cstring str" and "\<forall>k \<le> length str. kload8 (p + of_nat k) s = Inr (of_char (cget str k), s)"
  shows "read_cstr p s = Inr (str, s)"
  using read_cstr_loop_bytes[OF assms, of "[]"] by (simp add: read_cstr_def)

lemma read_cstr_frame:
  fixes s :: "'a kernel"
  assumes "frame_at reg f d s" and "j + length str < 152" and "cstring str"
    and "\<forall>k \<le> length str. pmem s (f + of_nat (d + j + k)) = of_char (cget str k)"
  shows "read_cstr (reg + of_nat j) s = Inr (str, s)"
proof (rule read_cstr_bytes[OF assms(3)], intro allI impI)
  fix k assume k: "k \<le> length str"
  have "pmem s (f + of_nat (d + (j + k))) = of_char (cget str k)"
    using assms(4)[rule_format, OF k] by (simp only: add.assoc)
  then show "kload8 (reg + of_nat j + of_nat k) s = Inr (of_char (cget str k), s)"
    using kload8_frame[OF assms(1), of "j + k"] assms(2) k by (simp add: add.assoc)
qed

definition mem_frame :: "u64 \<Rightarrow> u64 \<Rightarrow> u8" where
  "mem_frame n = store64 mem_user (0x21E000 + 8 * 0x10E) n"

lemma frame_small:
  fixes s :: "'a machine_scheme"
  assumes "pmem s = mem_frame n" and "cr3 s = 0x100000"
  shows "frame_at 0x400800 0x21E000 0x800 s" and "load64 (pmem s) (0x21E000 + of_nat (0x800 + 112)) = n"
proof -
  have t: "pt_tree mem_user 0x100000 (set (pool (machine_on mem_user)))"
    using user_tree(1) by (simp add: pt_inv_def)
  have e: "pte (mem_frame n) T j = pte mem_user T j" if "T \<in> ptables mem_user 0x100000" "unat j < 512" for T j
  proof -
    have T: "T \<in> {0x100000, 0x101000, 0x102000, 0x103000}" using user_tree(4) that(1) by auto
    then have "page_aligned T" by (auto simp: page_aligned_def)
    then show ?thesis using that(2) T pte_store64[of "0x21E000" T "0x10E" j mem_user n]
      by (auto simp: mem_frame_def page_aligned_def)
  qed
  have i: "idx_ok (mmu_indices 0x400000)" by (rule idx_ok_indices) (simp add: indices_400000)
  have "path (mem_frame n) 0x100000 (mmu_indices 0x400000) = Some 0x21E000"
    using data_tree(1)[OF t, of "mem_frame n", OF e i] user_tree(5)[OF i] by simp
  then show "frame_at 0x400800 0x21E000 0x800 s"
    unfolding frame_at_def using assms by (intro exI[of _ "0x400000"]) (simp add: page_aligned_def)
  show "load64 (pmem s) (0x21E000 + of_nat (0x800 + 112)) = n" using assms by (simp add: mem_frame_def)
qed

end
