(* ===== verification/Interrupts_Spec.thy ===== *)
theory Interrupts_Spec
  imports Interrupts Syscalls_Spec
begin

text \<open>
  What the page fault handler and the system call dispatcher promise: a fault of user code
  maps a page, copies a shared page or stops the process, decided by the areas of the
  process; a system call returns to the interrupted code.
\<close>

section \<open>Page faults of user code\<close>

text \<open>The addresses that the process may use.\<close>

definition in_areas :: "(u64 \<times> u64) list \<Rightarrow> u64 \<Rightarrow> bool" where
  "in_areas rs addr \<longleftrightarrow> (\<exists>(lo, hi) \<in> set rs. lo \<le> addr \<and> addr \<le> hi)"

lemma pagemama_user:
  fixes s :: "'a kernel"
  assumes "RING_0_MODE s \<noteq> 1" and "active s = Some a" and "a < PROC_SIZE"
    and "vma_inv (mmstruct (all_pro s a)) xs ys s"
  shows "pagemama err addr s =
     (if in_areas (areas (vmas s) xs) addr then
        (if err = 7 then rbind (check_cow addr s) (\<lambda>chk. if chk then cow addr s else Inr s) else demand addr s)
      else rbind (say (''error code: %p'' @ [CHR 0x0A]) [VU64 err] s) (ThrowSegmentationFault addr))"
  using assms by (simp add: pagemama_def act_Some IsPageInVmaList_eq in_areas_def)

lemma say_error_code: "\<exists>c. say (''error code: %p'' @ [CHR 0x0A]) [VU64 err] s = Inr (s\<lparr>con := c\<rparr>)"
  by (simp add: say_def) (rule exI, rule refl)

lemma page_down_mask: "push_bit 12 (drop_bit 12 a) = (a :: u64) AND 0xFFFFFFFFFFFFF000"
proof -
  have m: "(0xFFFFFFFFFFFFF000 :: u64) = push_bit 12 (mask 52)" by (simp add: mask_eq_exp_minus_1)
  show ?thesis unfolding m by (rule bit_word_eqI) (auto simp: bit_simps)
qed

lemma demand_maps:
  fixes s :: "'a machine_scheme"
  assumes "pt_inv s" and "8 \<le> totalblockcount s" and "p1_index addr \<noteq> 0x1FE" and "translate s addr = None"
  obtains N s' where "demand addr s = Inr s'" and "N \<in> set (pool s)" and "N \<notin> set (pool s')"
    and "pt_inv s'" and "translate s' addr = Some (N + take_bit 12 addr)"
    and "same_elsewhere addr s s'" and "machine.more s' = machine.more s"
    and "\<forall>d < 519. vload8 (push_bit 12 (drop_bit 12 addr) + of_nat d) s' = Inr 0" and "cr3 s' = cr3 s"
proof -
  let ?b = "push_bit 12 (drop_bit 12 addr)"
  have b: "page_aligned ?b" "mmu_indices ?b = mmu_indices addr" "p1_index ?b = p1_index addr"
    using page_base[of addr] by (simp_all only: page_down_mask)
  have "translate s ?b = None"
    using assms(4) unfolding translate_aligned[OF b(1)] b(2) by (simp add: translate_def)
  then obtain N s' where m: "map_phyaddr ?b s = Inr (N, s')" "N \<in> set (pool s)" "N \<notin> set (pool s')"
      "set (pool s') \<subseteq> set (pool s)" "pt_inv s'" "translate s' ?b = Some N" "same_elsewhere ?b s s'"
      "\<forall>d < 519. vload8 (?b + of_nat d) s' = Inr 0" "machine.more s' = machine.more s" "cr3 s' = cr3 s"
    using map_phyaddr_absent[OF assms(1,2) _ b(1)] b(3) assms(3) by metis
  have w: "walk_to s' (mmu_indices addr) = Some N"
    using m(6) unfolding translate_aligned[OF b(1)] b(2) .
  have "page_aligned N"
    by (rule pt_tree_aligned[OF _ w, of "set (pool s')"]) (use m(5) in \<open>simp add: pt_inv_def\<close>)
  then have "N \<noteq> -1" using low_bits_zero[of N 0] by auto
  then have "demand addr s = Inr s'" using m(1) by (simp add: demand_def)
  moreover have "translate s' addr = Some (N + take_bit 12 addr)" using w by (simp add: translate_def)
  moreover have "same_elsewhere addr s s'" using m(7) b(2) by (simp add: same_elsewhere_def)
  ultimately show thesis using that m by blast
qed

text \<open>C13. A page fault of user code at an address inside an area of its process (other than a
  write to a present page) maps a page that was free: the address is translated
  afterwards, the page tables and the allocator stay well formed, every other page of the
  address space is the same, and no other part of the kernel state changes.\<close>

theorem pagemama_demand:
  fixes s :: "'a kernel"
  assumes "RING_0_MODE s \<noteq> 1" and "active s = Some a" and "a < PROC_SIZE"
    and "vma_inv (mmstruct (all_pro s a)) xs ys s" and "in_areas (areas (vmas s) xs) addr" and "err \<noteq> 7"
    and "pt_inv s" and "8 \<le> totalblockcount s" and "p1_index addr \<noteq> 0x1FE" and "translate s addr = None"
  shows "\<exists>N s'. pagemama err addr s = Inr s' \<and> N \<in> set (pool s) \<and> N \<notin> set (pool s') \<and> pt_inv s' \<and>
     translate s' addr = Some (N + take_bit 12 addr) \<and> same_elsewhere addr s s' \<and>
     machine.more s' = machine.more s"
  by (rule demand_maps[OF assms(7-10)]) (use pagemama_user[OF assms(1-4), of err addr] assms(5,6) in auto)

lemma kernel_small_machine: "machine.truncate (kernel_small\<lparr>RING_0_MODE := r\<rparr>) = machine_on mem_root"
  by (simp add: kernel_small_def vfs.defs fs_small_def vmm.defs vm_small_def machine.defs)

theorem pagemama_demand_witness:
  "\<exists>N s'. pagemama 6 0x550123 (kernel_small\<lparr>RING_0_MODE := 0\<rparr>) = Inr s' \<and>
     N \<in> set (pool (kernel_small\<lparr>RING_0_MODE := 0\<rparr>)) \<and> N \<notin> set (pool s') \<and> pt_inv s' \<and>
     translate s' 0x550123 = Some (N + take_bit 12 0x550123) \<and>
     same_elsewhere 0x550123 (kernel_small\<lparr>RING_0_MODE := 0\<rparr>) s' \<and>
     machine.more s' = machine.more (kernel_small\<lparr>RING_0_MODE := 0\<rparr>)"
proof -
  let ?s = "kernel_small\<lparr>RING_0_MODE := 0\<rparr>"
  note m = pt_inv_extension[OF kernel_small_machine[of 0] pt_inv_root]
  have i: "p1_index 0x550123 = 0" by (simp add: p1_index_def)
  have v: "vma_inv (mmstruct (all_pro ?s 0)) [0x11, 0x22] [0x33] ?s"
    using vma_inv_kernel_small by (simp add: vma_inv_def)
  have "translate ?s 0x550123 = None" by (simp add: translate_def mmu_indices_eq i m(2,3) pte_mem_root)
  then show ?thesis
    by (intro pagemama_demand[OF _ _ _ v]) (simp_all add: m i in_areas_def areas_def area_def kernel_small_vmas)
qed

text \<open>C23. A page fault of user code at an address that is in no area of its process is a
  segmentation fault: the handler reports it and does not return to the process, whatever
  the error code is.\<close>

theorem pagemama_outside:
  fixes s :: "'a kernel"
  assumes "RING_0_MODE s \<noteq> 1" and "active s = Some a" and "a < PROC_SIZE"
    and "vma_inv (mmstruct (all_pro s a)) xs ys s" and "\<not> in_areas (areas (vmas s) xs) addr"
  shows "pagemama err addr s = Inl (SegmentationFault addr)"
proof -
  obtain c where "say (''error code: %p'' @ [CHR 0x0A]) [VU64 err] s = Inr (s\<lparr>con := c\<rparr>)"
    using say_error_code by blast
  then show ?thesis using pagemama_user[OF assms(1-4), of err addr] assms(5) by simp
qed

theorem pagemama_outside_witness:
  "pagemama 6 0x700000 (kernel_small\<lparr>RING_0_MODE := 0\<rparr>) = Inl (SegmentationFault 0x700000)"
proof -
  have v: "vma_inv (mmstruct (all_pro (kernel_small\<lparr>RING_0_MODE := 0\<rparr>) 0)) [0x11, 0x22] [0x33]
      (kernel_small\<lparr>RING_0_MODE := 0\<rparr>)"
    using vma_inv_kernel_small by (simp add: vma_inv_def)
  show ?thesis
    by (rule pagemama_outside[OF _ _ _ v]) (simp_all add: in_areas_def areas_def area_def kernel_small_vmas)
qed

section \<open>Dispatching a system call\<close>

text \<open>The registers saved at the physical address \<open>f + d\<close>.\<close>

definition saved_gpr :: "u64 \<Rightarrow> nat \<Rightarrow> (u64 \<Rightarrow> u8) \<Rightarrow> gpr_t" where
  "saved_gpr f d m =
     (let w = \<lambda>k. load64 m (f + of_nat (d + k))
      in \<lparr>r10 = w 40, r9 = w 48, r8 = w 56, rdi = w 72, rsi = w 80, rdx = w 88, rbx = w 104, rax = w 112,
          rip = w 120, usersp = w 144\<rparr>)"

lemma load_gpr_frame:
  fixes s :: "'a kernel"
  assumes "frame_at reg f d s"
  shows "load_gpr reg s = Inr (saved_gpr f d (pmem s), s)"
proof -
  note k = kload64_frame[OF assms]
  show ?thesis
    using k[of 40] k[of 48] k[of 56] k[of 72] k[of 80] k[of 88] k[of 104] k[of 112] k[of 120] k[of 144]
    by (simp add: load_gpr_def saved_gpr_def Let_def)
qed

lemma kstore64_frame:
  fixes s :: "'a machine_scheme"
  assumes "frame_at reg f d s" and "k \<le> 144"
  shows "kstore64 (reg + of_nat k) v s = Inr (s\<lparr>pmem := store64 (pmem s) (f + of_nat (d + k)) v\<rparr>)"
  using frame_translate[OF assms] by (simp add: kstore64_def touch_def vstore64_def)

text \<open>C38. A system call number of 200 or more: \<open>sys_call\<close> prints a message and returns to the caller
  with the registers unchanged, but in ring 0 mode. From then on a page fault of the process
  is treated as one of the kernel: it maps a page without looking at the areas, also
  where a segmentation fault is due.\<close>

theorem sys_call_invalid:
  fixes s :: "'a kernel"
  assumes "frame_at reg f d s" and "200 \<le> load64 (pmem s) (f + of_nat (d + 112))"
  shows "\<exists>s'. sys_call garbage reg s = Inr (ResumeFrame reg, s') \<and> pmem s' = pmem s \<and> all_pro s' = all_pro s \<and>
     RING_0_MODE s' = 1 \<and> (\<forall>err addr. pagemama err addr s' = demand addr s')"
proof -
  let ?s = "s\<lparr>RING_0_MODE := 1\<rparr>"
  have f: "frame_at reg f d ?s" using assms(1) by (simp add: frame_at_def)
  have r: "load_gpr reg ?s = Inr (saved_gpr f d (pmem s), ?s)" using load_gpr_frame[OF f] by simp
  obtain c where "kprintf ''Invalid syscall number or Not Mapped'' [] (con s) = Inr c"
    using kprintf_nofmt[of "''Invalid syscall number or Not Mapped''" "[]" "con s"] by auto
  then have "sys_call garbage reg s = Inr (ResumeFrame reg, ?s\<lparr>con := c\<rparr>)"
    using r assms(2) by (simp add: sys_call_def say_def saved_gpr_def)
  then show ?thesis by (intro exI[of _ "?s\<lparr>con := c\<rparr>"]) (simp add: pagemama_def)
qed

theorem sys_call_invalid_witness:
  "\<exists>s'. sys_call [] 0x400800 (kernel_small\<lparr>pmem := mem_frame 500\<rparr>) = Inr (ResumeFrame 0x400800, s') \<and>
     pmem s' = pmem (kernel_small\<lparr>pmem := mem_frame 500\<rparr>) \<and>
     all_pro s' = all_pro (kernel_small\<lparr>pmem := mem_frame 500\<rparr>) \<and>
     RING_0_MODE s' = 1 \<and> (\<forall>err addr. pagemama err addr s' = demand addr s')"
proof (rule sys_call_invalid)
  have "cr3 (kernel_small\<lparr>pmem := mem_frame 500\<rparr>) = 0x100000"
    by (simp add: kernel_small_def vfs.defs fs_small_def vmm.defs vm_small_def machine.defs)
  note f = frame_small[OF _ this, of 500]
  show "frame_at 0x400800 0x21E000 0x800 (kernel_small\<lparr>pmem := mem_frame 500\<rparr>)"
    "200 \<le> load64 (pmem (kernel_small\<lparr>pmem := mem_frame 500\<rparr>)) (0x21E000 + of_nat (0x800 + 112))"
    using f by simp_all
qed

end
