(* ===== verification/User_Mode_Spec.thy ===== *)
theory User_Mode_Spec
  imports User_Mode Interrupts_Spec
begin

text \<open>
  What a user program may rely on: a store to a page that is shared after a fork goes to a
  private copy, and a system call hands its result back in \<open>rax\<close>.
\<close>

section \<open>Stores to shared pages\<close>

lemma and_sub7: "m AND 7 = m \<Longrightarrow> e AND m = (e AND 7) AND (m :: u64)"
  by (metis and.assoc and.commute)

lemma flags_5:
  assumes "e AND 7 = (5 :: u64)"
  shows "e AND 1 = 1" and "e AND 4 = 4" and "e AND 2 = 0"
  using and_sub7[of 1 e] and_sub7[of 4 e] and_sub7[of 2 e] unfolding assms by simp_all

lemma flags_7:
  assumes "e AND 7 = (7 :: u64)"
  shows "e AND 1 = 1" and "e AND 4 = 4" and "e AND 2 = 2"
  using and_sub7[of 1 e] and_sub7[of 4 e] and_sub7[of 2 e] unfolding assms by simp_all

text \<open>
  The page at \<open>addr\<close> is the block \<open>b\<close> of the allocator, entered for reading only.
\<close>

definition shared_page :: "u64 \<Rightarrow> int \<Rightarrow> 'a machine_scheme \<Rightarrow> bool" where
  "shared_page addr b s \<longleftrightarrow> b \<in> {1..<50000} \<and> page_addr s b \<notin> tables s \<and>
     (\<exists>T. walk_to s [p1_index addr, p2_index addr, p3_index addr] = Some T \<and>
       pte (pmem s) T (p4_index addr) AND 7 = 5 \<and>
       pte (pmem s) T (p4_index addr) AND 0xFFFFFFFFFFFFF000 = page_addr s b)"

lemma shared_page_access:
  fixes s :: "'a kernel"
  assumes "RING_0_MODE s \<noteq> 1" and "active s = Some a" and "a < PROC_SIZE"
    and "vma_inv (mmstruct (all_pro s a)) xs ys s" and "in_areas (areas (vmas s) xs) addr"
    and "pt_inv s" and "5 \<le> totalblockcount s" and "p1_index addr \<noteq> 0x1FE" and "shared_page addr b s"
  obtains N s' where "user_access True addr s = Inr s'" and "pt_inv s'" and "N \<in> set (pool s)"
    and "walk_to s' (mmu_indices addr) = Some N" and "N \<noteq> page_addr s b"
    and "\<forall>d < 4096. pmem s' (N + of_nat d) = pmem s (page_addr s b + of_nat d)"
    and "\<forall>d < 4096. pmem s' (page_addr s b + of_nat d) = pmem s (page_addr s b + of_nat d)"
    and "same_elsewhere addr s s'" and "page_aligned N" and "page_aligned (page_addr s b)"
proof -
  obtain T where T: "b \<in> {1..<50000}" "page_addr s b \<notin> tables s"
      "walk_to s [p1_index addr, p2_index addr, p3_index addr] = Some T"
      "pte (pmem s) T (p4_index addr) AND 7 = 5"
      "pte (pmem s) T (p4_index addr) AND 0xFFFFFFFFFFFFF000 = page_addr s b"
    using assms(9) by (auto simp: shared_page_def)
  let ?e = "pte (pmem s) T (p4_index addr)"
  have tree: "pt_tree (pmem s) (root s) (set (pool s))" and p: "pmm_inv s" using assms(6) by (simp_all add: pt_inv_def)
  have b0: "bit ?e 0" using flags_5[OF T(4)] and_1_bit[of ?e] by simp
  have g: "get_phys_addr addr s = Inr ?e" using get_phys_addr_eq[OF assms(6,8)] T(3) by simp
  obtain N s' where c: "cow addr s = Inr s'" "pt_inv s'" "N \<in> set (pool s)" "walk_to s' (mmu_indices addr) = Some N"
      "N \<noteq> page_addr s b" "\<forall>d < 4096. pmem s' (N + of_nat d) = pmem s (page_addr s b + of_nat d)"
      "\<forall>d < 4096. pmem s' (page_addr s b + of_nat d) = pmem s (page_addr s b + of_nat d)" "same_elsewhere addr s s'"
      "\<exists>T. walk_to s' [p1_index addr, p2_index addr, p3_index addr] = Some T \<and>
        pte (pmem s') T (p4_index addr) AND 7 = 7"
    by (rule cow_copies[OF assms(6,7,8) T(1) g b0 T(5,2)])
  have "user_fault True addr s = Some 7" using T(3) flags_5[OF T(4)] by (simp add: user_fault_def Let_def del: path.simps)
  moreover have "check_cow addr s = Inr True" using check_cow_eq[OF tree T(3)] T(4) by simp
  then have "pagemama 7 addr s = Inr s'" using pagemama_user[OF assms(1-4), of 7 addr] assms(5) c(1) by simp
  moreover have "user_fault True addr s' = None" using c(9) flags_7 by (auto simp: user_fault_def Let_def simp del: path.simps)
  ultimately have u: "user_access True addr s = Inr s'" by (simp add: user_access_def)
  have "walk_to s (mmu_indices addr) = Some (page_addr s b)"
    using leaf_entry[OF T(3)] b0 frame_of_managed[OF p T(1,5)] by simp
  then have al: "page_aligned (page_addr s b)" by (rule pt_tree_aligned[OF tree])
  have "page_aligned N" by (rule pt_tree_aligned[OF _ c(4), of "set (pool s')"]) (use c(2) in \<open>simp add: pt_inv_def\<close>)
  then show thesis using that[OF u] c al by blast
qed


text \<open>The process of \<open>kernel_small\<close> in user mode, with a page entered for reading at \<open>0x400000\<close>.\<close>

definition kernel_shared :: tasks where
  "kernel_shared = kernel_small\<lparr>pmem := mem_leaf 0x21E005, RING_0_MODE := 0\<rparr>"

lemma kernel_shared_simps [simp]:
  "active kernel_shared = Some 0" "RING_0_MODE kernel_shared = 0" "vmas kernel_shared = vmas vm_small"
  "mmstruct (all_pro kernel_shared 0) = \<lparr>vma_list = 0x11\<rparr>"
  by (simp_all add: kernel_shared_def kernel_small_vmas pcb_small_def)

lemma kernel_shared_vma: "vma_inv (mmstruct (all_pro kernel_shared 0)) [0x11, 0x22] [0x33] kernel_shared"
  using vma_inv_kernel_small by (simp add: kernel_shared_def vma_inv_def)

lemma entry_5: "bit (0x21E005 :: u64) 0" "frame_of 0x21E005 = 0x21E000"
  by (simp_all add: frame_of_def)

lemmas leaf_5 = leaf_entered[OF entry_5]

lemma kernel_shared_pages: "pt_inv kernel_shared" "5 \<le> totalblockcount kernel_shared" "shared_page 0x400123 30 kernel_shared"
proof -
  have "machine.truncate kernel_shared = machine_on (mem_leaf 0x21E005)"
    by (simp add: kernel_shared_def kernel_small_def vfs.defs fs_small_def vmm.defs vm_small_def machine.defs machine_on_def)
  note m = pt_inv_extension[OF this leaf_5(1)]
  show "pt_inv kernel_shared" "5 \<le> totalblockcount kernel_shared" using m by simp_all
  have i: "p1_index 0x400123 = 0" "p2_index 0x400123 = 0" "p3_index 0x400123 = 2" "p4_index 0x400123 = 0"
    by (simp_all add: p1_index_def p2_index_def p3_index_def p4_index_def)
  have "page_addr kernel_shared 30 = 0x21E000" using m(5) by (simp add: page_addr_def)
  moreover have "0x21E000 \<notin> tables kernel_shared" using leaf_5(4) m(2,3) by auto
  ultimately show "shared_page 0x400123 30 kernel_shared"
    using leaf_5(2,3) m(2,3) by (simp add: shared_page_def i del: path.simps)
qed


section \<open>The result of a system call\<close>

lemma int80_Ret:
  assumes "int80 g reg r s = Inr (Ret v, s1)" and "\<not> 200 \<le> rax r"
  shows "\<exists>s2. dispatch g reg r (s\<lparr>RING_0_MODE := 1\<rparr>) = Inr (Ret v, s2) \<and> s1 = s2\<lparr>RING_0_MODE := 0\<rparr>"
proof -
  obtain out s2 where d: "dispatch g reg r (s\<lparr>RING_0_MODE := 1\<rparr>) = Inr (out, s2)"
    using assms by (cases "dispatch g reg r (s\<lparr>RING_0_MODE := 1\<rparr>)") (auto simp: int80_def Let_def)
  then show ?thesis using assms by (cases out) (simp_all add: int80_def Let_def)
qed

text \<open>C27. The interrupt handler gives a user program the system call that its instruction \<open>int 0x80\<close>
  stands for: when the call with the saved registers returns a value, \<open>sys_call\<close> leaves that
  value in the saved register \<open>rax\<close>, resumes the program from its saved registers in user
  mode, and changes nothing else of what the call has done.\<close>

theorem sys_call_returns:
  fixes s s1 :: "'a kernel"
  assumes "frame_at reg f d s" and "load64 (pmem s) (f + of_nat (d + 112)) < 200"
    and "int80 garbage reg (saved_gpr f d (pmem s)) s = Inr (Ret v, s1)" and "frame_at reg f d s1"
  shows "\<exists>m. sys_call garbage reg s = Inr (ResumeFrame reg, s1\<lparr>pmem := m\<rparr>) \<and> RING_0_MODE s1 = 0 \<and>
     m = store64 (pmem s1) (f + of_nat (d + 112)) v \<and> rax (saved_gpr f d m) = v"
proof -
  let ?s = "s\<lparr>RING_0_MODE := 1\<rparr>" and ?r = "saved_gpr f d (pmem s)"
  let ?m = "store64 (pmem s1) (f + of_nat (d + 112)) v"
  have r: "load_gpr reg ?s = Inr (?r, ?s)"
    using load_gpr_frame[of reg f d ?s] assms(1) by (simp add: frame_at_def)
  have n: "\<not> 200 \<le> rax ?r" using assms(2) by (simp add: saved_gpr_def Let_def)
  obtain s2 where s2: "dispatch garbage reg ?r ?s = Inr (Ret v, s2)" "s1 = s2\<lparr>RING_0_MODE := 0\<rparr>"
    using assms(3) n int80_Ret by blast
  have "frame_at reg f d s2" using assms(4) s2(2) by (simp add: frame_at_def)
  then have "kstore64 (reg + off_rax) v s2 = Inr (s2\<lparr>pmem := store64 (pmem s2) (f + of_nat (d + 112)) v\<rparr>)"
    using kstore64_frame[of reg f d s2 112 v] by simp
  then have "sys_call garbage reg s = Inr (ResumeFrame reg, s1\<lparr>pmem := ?m\<rparr>)"
    using r n s2 by (simp add: sys_call_def)
  then show ?thesis using s2(2) by (intro exI[of _ ?m]) (simp add: saved_gpr_def Let_def)
qed

definition kernel_time :: tasks where
  "kernel_time = kernel_small\<lparr>pmem := mem_frame 56\<rparr>"

lemma kernel_time_frame: "frame_at 0x400800 0x21E000 0x800 (kernel_time\<lparr>RING_0_MODE := r\<rparr>)"
    "load64 (pmem kernel_time) (0x21E000 + of_nat (0x800 + 112)) = 56"
  by (rule frame_small[where n = 56];
      simp add: kernel_time_def kernel_small_def vfs.defs fs_small_def vmm.defs vm_small_def machine.defs)+

theorem sys_call_returns_witness:
  "\<exists>m. sys_call [] 0x400800 kernel_time = Inr (ResumeFrame 0x400800, kernel_time\<lparr>RING_0_MODE := 0, pmem := m\<rparr>) \<and>
     RING_0_MODE (kernel_time\<lparr>RING_0_MODE := 0\<rparr>) = 0 \<and>
     m = store64 (pmem (kernel_time\<lparr>RING_0_MODE := 0\<rparr>)) (0x21E000 + of_nat (0x800 + 112)) 0 \<and>
     rax (saved_gpr 0x21E000 0x800 m) = 0"
proof (rule sys_call_returns)
  have "rax (saved_gpr 0x21E000 0x800 (pmem kernel_time)) = 56"
    using kernel_time_frame(2) by (simp add: saved_gpr_def Let_def)
  then show "int80 [] 0x400800 (saved_gpr 0x21E000 0x800 (pmem kernel_time)) kernel_time =
      Inr (Ret 0, kernel_time\<lparr>RING_0_MODE := 0\<rparr>)"
    by (simp add: int80_def Let_def dispatch_def syscall_init_def syscall_time_def)
      (simp add: kernel_time_def console_boot_def)
  show "frame_at 0x400800 0x21E000 0x800 kernel_time"
    using kernel_time_frame(1) by (simp add: frame_at_def)
qed (use kernel_time_frame in simp_all)

end
