(* ===== verification/Libc_Spec.thy ===== *)
theory Libc_Spec
  imports Libc User_Mode_Spec "HOL-Library.List_Lexorder"
begin

text \<open>
  What the C library promises: \<open>strcmp\<close> decides the lexicographic order of strings, numbers are
  formatted in the usual notation, and \<open>malloc\<close> and \<open>free\<close> are inverse on the areas of a process.
\<close>

section \<open>String comparison\<close>

lemma schar_inj: "schar a = schar b \<longleftrightarrow> a = b"
proof
  assume "schar a = schar b"
  then have "(of_char a :: u8) = of_char b" unfolding schar_def by (simp only: signed_word_eqI)
  then show "a = b" by (metis byte_char)
qed simp

lemma Nil_less: "[] < x \<longleftrightarrow> x \<noteq> ([] :: int list)"
  by (cases x) simp_all

text \<open>The order of two strings as lists of signed characters.\<close>

definition order_of :: "string \<Rightarrow> string \<Rightarrow> int" where
  "order_of x y = (if x = y then 0 else if map schar x < map schar y then -1 else 1)"

lemma strcmp_from_order:
  assumes "cstring str1" and "cstring str2"
  shows "strcmp_from str1 str2 i = order_of (drop i str1) (drop i str2)"
  using assms
proof (induction str1 str2 i rule: strcmp_from.induct)
  case (1 str1 str2 i)
  have n: "cget str1 i = NUL \<longleftrightarrow> length str1 \<le> i" "cget str2 i = NUL \<longleftrightarrow> length str2 \<le> i"
    using 1(3,4) cget_NUL by blast+
  show ?case
  proof (cases "i < length str1 \<and> i < length str2")
    case True
    then have d: "drop i str1 = str1 ! i # drop (i + 1) str1" "drop i str2 = str2 ! i # drop (i + 1) str2"
        "cget str1 i = str1 ! i" "cget str2 i = str2 ! i"
      by (simp_all add: Cons_nth_drop_Suc cget_def)
    then show ?thesis
      using 1 True n schar_inj[of "str1 ! i" "str2 ! i"]
      by (subst strcmp_from.simps) (auto simp: order_of_def)
  next
    case False
    then show ?thesis
      using n by (subst strcmp_from.simps)
        (cases "i < length str1"; cases "i < length str2"; auto simp: strcmp_end_def order_of_def Nil_less)
  qed
qed

text \<open>C39. \<open>strcmp\<close> decides the lexicographic order of strings of signed characters: it returns 0 exactly
  for equal strings, -1 when the first is smaller and 1 when it is larger. The branch that
  returns 2 is never reached.\<close>

theorem strcmp_order:
  assumes "cstring x" and "cstring y"
  shows "strcmp x y = (if x = y then 0 else if map schar x < map schar y then -1 else 1)"
  using strcmp_from_order[OF assms, of 0] by (simp add: strcmp_def order_of_def)

theorem strcmp_order_witness:
  "strcmp ''ls'' ''lsx'' = (if ''ls'' = ''lsx'' then 0 else if map schar ''ls'' < map schar ''lsx'' then -1 else 1)"
  by (rule strcmp_order) (simp_all add: cstring_def)

section \<open>Formatting\<close>

text \<open>The conversions of \<open>printf\<close>: a positive number is formatted with \<open>%d\<close> by its decimal digits without
  leading zeros, an address with \<open>%p\<close> by its hexadecimal digits, and the number 0 by nothing at
  all; the rest of the format is treated in the same way.\<close>

theorem printf_numbers:
  assumes "0 < n"
  shows "\<exists>ds hs. printf_text (''%d'' @ fmt) (VInt n # ap) = rbind (printf_text fmt ap) (\<lambda>t. Inr (ds @ t)) \<and>
     decimal ds = n \<and> set ds \<subseteq> set ''0123456789'' \<and> hd ds \<noteq> CHR ''0'' \<and>
     printf_text (''%p'' @ fmt) (VU64 w # ap) = rbind (printf_text fmt ap) (\<lambda>t. Inr (hs @ t)) \<and>
     hexadecimal hs = unat w \<and>
     printf_text (''%d'' @ fmt) (VInt 0 # ap) = printf_text fmt ap"
proof -
  have "printfflushint n = rev (rev_digits n)" "printfflushhex w = rev (rev_hex (unat w))" "printfflushint 0 = []"
    by (simp_all add: printfflushint_def printfflushhex_def reverse_in_place_rev rev_digits.simps)
  moreover have "hd (rev (rev_digits n)) \<noteq> CHR ''0''" "decimal (rev (rev_digits n)) = n"
      "set (rev_digits n) \<subseteq> set ''0123456789''"
    using rev_digits_spec[of n] assms by (simp_all add: hd_rev)
  ultimately show ?thesis
    using rev_hex_spec[of "unat w"]
    by (intro exI[of _ "printfflushint n"] exI[of _ "printfflushhex w"]) simp
qed

theorem printf_numbers_witness:
  "\<exists>ds hs. printf_text (''%d'' @ '' KB'') (VInt 640 # []) = rbind (printf_text '' KB'' []) (\<lambda>t. Inr (ds @ t)) \<and>
     decimal ds = 640 \<and> set ds \<subseteq> set ''0123456789'' \<and> hd ds \<noteq> CHR ''0'' \<and>
     printf_text (''%p'' @ '' KB'') (VU64 0xB8000 # []) = rbind (printf_text '' KB'' []) (\<lambda>t. Inr (hs @ t)) \<and>
     hexadecimal hs = unat (0xB8000 :: u64) \<and>
     printf_text (''%d'' @ '' KB'') (VInt 0 # []) = printf_text '' KB'' []"
  by (rule printf_numbers) simp

section \<open>Allocation\<close>

lemma malloc_mmap:
  assumes "k_mmap (regs (uregs u)) (s\<lparr>RING_0_MODE := 1\<rparr>) = Inr (Ret v, s1)"
    and "regs = (\<lambda>r. r\<lparr>rax := 9, rdi := 0, rsi := n, rdx := 3, r10 := 0x21, r9 := -1, r8 := 0\<rparr>)"
  shows "malloc u n s = Inr (Inr v, s1\<lparr>RING_0_MODE := 0\<rparr>)"
  using assms by (simp add: malloc_def ucall_def int80_def Let_def dispatch_def syscall_init_def)

lemma free_munmap:
  "free u p s = rbind (k_munmap ((uregs u)\<lparr>rax := 11, rdi := p, rsi := 1\<rparr>) (s\<lparr>RING_0_MODE := 1\<rparr>))
     (\<lambda>(out, s). case out of Ret v \<Rightarrow> Inr (Inr (), s\<lparr>RING_0_MODE := 0\<rparr>) | _ \<Rightarrow> Inr (Inl out, s))"
  by (cases "k_munmap ((uregs u)\<lparr>rax := 11, rdi := p, rsi := 1\<rparr>) (s\<lparr>RING_0_MODE := 1\<rparr>)")
    (auto simp: free_def ucall_def int80_def Let_def dispatch_def syscall_init_def ureturn_def split: outcome.splits)

lemma free_last_area:
  fixes s :: "'a kernel"
  assumes "active s = Some a" and "a < PROC_SIZE" and "vma_inv (mmstruct (all_pro s a)) (xs @ [p]) ys s"
    and "area (vmas s) p = (h, e)" and "\<forall>r \<in> set (areas (vmas s) xs). \<not> (fst r \<le> h \<and> h + 1 \<le> snd r)"
    and "h + 1 \<le> e \<Longrightarrow> can_unmap h e (s\<lparr>RING_0_MODE := 1\<rparr>)"
  shows "if h + 1 \<le> e
     then \<exists>s' zs ys'. free u h s = Inr (Inr (), s') \<and> vma_inv (mmstruct (all_pro s' a)) zs ys' s' \<and>
       areas (vmas s') zs = areas (vmas s) xs
     else free u h s = Inl (SegmentationFault h)"
proof -
  let ?s = "s\<lparr>RING_0_MODE := 1\<rparr>" and ?mm = "mmstruct (all_pro s a)"
  let ?r = "(uregs u)\<lparr>rax := 11, rdi := h, rsi := 1\<rparr>"
  have i: "vma_inv ?mm (xs @ [p]) ys ?s" using assms(3) by (simp add: vma_inv_def)
  have some: "\<exists>w. vmas s x = Some w" if "x \<in> set (xs @ [p])" for x
    using chain_in_heap[of nextvma "vmas s" "vma_list ?mm" "xs @ [p]"] assms(3) that by (auto simp: vma_inv_def)
  have old: "\<not> covers (the (vmas s x)) h (h + 1)" if "x \<in> set xs" for x
    using some[of x] covers_area[of "vmas s" x] assms(5) that by (auto simp: areas_def)
  obtain v where v: "vmas s p = Some v" "vstart v = h" "vend v = e" using some[of p] assms(4) by (auto simp: area_def)
  then have new: "covers (the (vmas s p)) h (h + 1) \<longleftrightarrow> h + 1 \<le> e" by (simp add: covers_def)
  have can: "\<forall>x \<in> set (xs @ [p]). covers (the (vmas ?s x)) h (h + 1) \<longrightarrow>
      can_unmap (vstart (the (vmas ?s x))) (vend (the (vmas ?s x))) ?s"
    using old new v assms(6) by auto
  obtain b mm' s' zs ys' where r: "remove_from_vma_list ?mm h (h + 1) ?s = Inr (b, mm', s')"
      "vma_inv mm' zs ys' s'" "areas (vmas s') zs = remove_area h (h + 1) (areas (vmas ?s) (xs @ [p]))"
      "b \<longleftrightarrow> (\<exists>x \<in> set (xs @ [p]). covers (the (vmas ?s x)) h (h + 1))"
    using remove_area_ok[OF i can] by blast
  have b: "b \<longleftrightarrow> h + 1 \<le> e" using r(4) old new by auto
  let ?s2 = "s'\<lparr>all_pro := (all_pro s')(a := (all_pro s' a)\<lparr>mmstruct := mm'\<rparr>)\<rparr>"
  have m: "k_munmap ?r ?s = (if b then Inr (Ret 0, ?s2) else Inl (SegmentationFault h))"
    using assms(1,2) r(1) by (simp add: k_munmap_def act_Some upd_pcb_def)
  show ?thesis
  proof (cases "h + 1 \<le> e")
    case True
    have "areas (vmas s) (xs @ [p]) = areas (vmas s) xs @ [(h, e)]" using assms(4) by (simp add: areas_def)
    then have "areas (vmas s') zs = areas (vmas s) xs"
      using r(3) remove_area_split[OF assms(5), of "[(h, e)]"] True by simp
    moreover have "vma_inv mm' zs ys' ?s2" using r(2) by (simp add: vma_inv_def)
    ultimately show ?thesis
      using True m b by (auto simp: free_munmap vma_inv_def intro!: exI[of _ "?s2\<lparr>RING_0_MODE := 0\<rparr>"])
  next
    case False
    then show ?thesis using m b by (simp add: free_munmap)
  qed
qed

text \<open>C26. \<open>malloc\<close> of \<open>n\<close> bytes returns the heap top \<open>h\<close> of the process; a following \<open>free\<close> of the block, which asks
  the kernel to remove one byte, removes the whole area of the block and leaves the process
  with the areas it had before, provided the block has two bytes or more and its pages
  can be unmapped. For a block of one byte \<open>free\<close> is a segmentation fault.\<close>

theorem malloc_free:
  fixes s :: "'a kernel"
  assumes "active s = Some a" and "a < PROC_SIZE" and "vma_inv (mmstruct (all_pro s a)) xs ys s"
    and "unat (kern_VA s) + 24 < 2 ^ 64" and "h = heap_top (all_pro s a)" and "0 < n"
    and "unat h + unat n < 2 ^ 64 - 4096"
    and "\<forall>r \<in> set (areas (vmas s) xs). \<not> (fst r \<le> h \<and> h + 1 \<le> snd r)"
  shows "\<exists>s1. malloc u n s = Inr (Inr h, s1) \<and>
     (n = 1 \<longrightarrow> free u h s1 = Inl (SegmentationFault h)) \<and>
     (n \<noteq> 1 \<and> can_unmap h (h + n - 1) (s1\<lparr>RING_0_MODE := 1\<rparr>) \<longrightarrow>
       (\<exists>s2 zs ys'. free u h s1 = Inr (Inr (), s2) \<and> vma_inv (mmstruct (all_pro s2 a)) zs ys' s2 \<and>
          areas (vmas s2) zs = areas (vmas s) xs))"
proof -
  let ?s = "s\<lparr>RING_0_MODE := 1\<rparr>" and ?e = "h + n - 1"
  define regs where "regs = (\<lambda>r :: gpr_t. r\<lparr>rax := 9, rdi := 0, rsi := n, rdx := 3, r10 := 0x21, r9 := -1, r8 := 0\<rparr>)"
  have i: "vma_inv (mmstruct (all_pro ?s a)) xs ys ?s" using assms(3) by (simp add: vma_inv_def)
  obtain s' p where m: "k_mmap (regs (uregs u)) ?s = Inr (Ret h, s')" "vma_inv (mmstruct (all_pro s' a)) (xs @ [p]) (tl ys) s'"
      "areas (vmas s') (xs @ [p]) = areas (vmas s) xs @ [(h, ?e)]" "active s' = Some a"
    using k_mmap_area[OF _ assms(2) i, of "regs (uregs u)"] assms(1,4-7) by (auto simp: regs_def)
  let ?s1 = "s'\<lparr>RING_0_MODE := 0\<rparr>"
  have run: "malloc u n s = Inr (Inr h, ?s1)" by (rule malloc_mmap[OF m(1) regs_def])
  have ar: "areas (vmas s') xs = areas (vmas s) xs" "area (vmas s') p = (h, ?e)" using m(3) by (simp_all add: areas_def)
  have n: "h + 1 \<le> ?e \<longleftrightarrow> n \<noteq> 1"
  proof -
    have "0 < unat n" using assms(6) by (simp add: word_less_nat_alt)
    moreover have "unat (h + n) = unat h + unat n" "unat (h + 1) = unat h + 1"
      using assms(7) by (simp_all add: unat_add_small)
    ultimately have "unat ?e = unat h + unat n - 1" by (simp add: unat_sub_if')
    then show ?thesis
      using \<open>unat (h + 1) = unat h + 1\<close> \<open>0 < unat n\<close> by (auto simp: word_le_nat_alt word_unat_eq_iff)
  qed
  have v: "vma_inv (mmstruct (all_pro ?s1 a)) (xs @ [p]) (tl ys) ?s1" using m(2) by (simp add: vma_inv_def)
  note f = free_last_area[of ?s1 a xs p "tl ys" h ?e u, OF _ assms(2) v]
  show ?thesis
  proof (rule exI[of _ ?s1], intro conjI impI)
    show "malloc u n s = Inr (Inr h, ?s1)" by (rule run)
    show "free u h ?s1 = Inl (SegmentationFault h)" if "n = 1"
      using f m(4) ar assms(8) n that by simp
    show "\<exists>s2 zs ys'. free u h ?s1 = Inr (Inr (), s2) \<and> vma_inv (mmstruct (all_pro s2 a)) zs ys' s2 \<and>
        areas (vmas s2) zs = areas (vmas s) xs" if "n \<noteq> 1 \<and> can_unmap h ?e (?s1\<lparr>RING_0_MODE := 1\<rparr>)"
      using f m(4) ar assms(8) n that by simp
  qed
qed

definition user_small :: user where
  "user_small = \<lparr>ugarbage = [], uframe = 0x8F00, uregs = regs_small 0 0\<rparr>"

theorem malloc_free_witness:
  "\<exists>s1. malloc user_small 0x1800 kernel_small = Inr (Inr 0x602000, s1) \<and>
     (0x1800 = (1 :: u64) \<longrightarrow> free user_small 0x602000 s1 = Inl (SegmentationFault 0x602000)) \<and>
     (0x1800 \<noteq> (1 :: u64) \<and> can_unmap 0x602000 (0x602000 + 0x1800 - 1) (s1\<lparr>RING_0_MODE := 1\<rparr>) \<longrightarrow>
       (\<exists>s2 zs ys'. free user_small 0x602000 s1 = Inr (Inr (), s2) \<and> vma_inv (mmstruct (all_pro s2 0)) zs ys' s2 \<and>
          areas (vmas s2) zs = areas (vmas kernel_small) [0x11, 0x22]))"
  by (rule malloc_free[OF _ _ vma_inv_kernel_small])
    (simp_all add: pcb_small_def areas_def area_def kernel_small_vmas)

end
