(* ===== verification/File_Syscalls_Spec.thy ===== *)
theory File_Syscalls_Spec
  imports File_Syscalls Syscalls_Spec
begin

text \<open>
  What the file and directory system calls promise: the entries of an open directory are
  delivered in order and exactly once, a file descriptor is the lowest free one, and the
  parent of a working directory.
\<close>

section \<open>Reading a directory\<close>

text \<open>
  The loop of a client, \<open>while((p = readdir(d)) != NULL)\<close>, for at most \<open>n\<close> calls. It collects the
  names the calls leave in the directory object and says whether the end was reached.
\<close>

fun read_entries :: "nat \<Rightarrow> gpr_t \<Rightarrow> 'a kernel \<Rightarrow> (string list \<times> bool \<times> 'a kernel) res" where
  "read_entries 0 r s = Inr ([], False, s)"
| "read_entries (Suc n) r s =
     rbind (k_readdir r s) (\<lambda>(out, s).
       if out = Ret 0 then Inr ([], True, s)
       else
         rbind (deref (dirs s (rdi r))) (\<lambda>d.
         rbind (read_entries n r s) (\<lambda>(names, done, s).
           Inr (d_name d # names, done, s))))"

text \<open>The directory object at \<open>q\<close> is open on the inode \<open>a\<close> with contents \<open>n\<close>, before entry \<open>i\<close>.\<close>

definition dir_open :: "u64 \<Rightarrow> u64 \<Rightarrow> inode \<Rightarrow> nat \<Rightarrow> 'a kernel \<Rightarrow> bool" where
  "dir_open q a n i s \<longleftrightarrow> q \<noteq> 0 \<and> q + 264 \<noteq> 0 \<and> (\<exists>d. dirs s q = Some d \<and> cstring (dpath d) \<and> currInode d = of_nat i \<and>
     lookup (inodes s) (root_inode s) (tokens CHR ''/'' (dpath d)) = Some a) \<and> inodes s a = Some n \<and>
     (\<exists>hi. fs_wf (inodes s) hi) \<and> root_inode s \<in> dom (inodes s)"

definition entry_name :: "inode heap \<Rightarrow> u64 \<Rightarrow> string" where
  "entry_name h c = inodeName (the (h c))"

lemma k_readdir_step:
  fixes s :: "'a kernel"
  assumes "dir_open (rdi r) a n i s" and "i < 2 ^ 64 - 1"
  shows "if i < length (family n)
     then \<exists>k d. k_readdir r s = Inr (Ret (rdi r + 264), s\<lparr>kern_VA := k, dirs := (dirs s)(rdi r \<mapsto> d)\<rparr>) \<and>
       dir_open (rdi r) a n (i + 1) (s\<lparr>kern_VA := k, dirs := (dirs s)(rdi r \<mapsto> d)\<rparr>) \<and>
       d_name d = entry_name (inodes s) (family n ! i)
     else \<exists>k. k_readdir r s = Inr (Ret 0, s\<lparr>kern_VA := k\<rparr>)"
proof -
  obtain d hi where d: "rdi r \<noteq> 0" "rdi r + 264 \<noteq> 0" "dirs s (rdi r) = Some d" "cstring (dpath d)" "currInode d = of_nat i"
      "lookup (inodes s) (root_inode s) (tokens CHR ''/'' (dpath d)) = Some a" "inodes s a = Some n"
      "fs_wf (inodes s) hi" "root_inode s \<in> dom (inodes s)"
    using assms(1) by (auto simp: dir_open_def)
  obtain k where k: "GetInode (dpath d) s = Inr (a, s\<lparr>kern_VA := k\<rparr>)"
    using GetInode_lookup[OF d(8,9,4)] d(6) by auto
  have w: "a \<noteq> 0" "length (family n) \<le> 10" "\<forall>c \<in> set (family n). c \<in> dom (inodes s)"
    using d(7,8) by (auto simp: fs_wf_def)
  have m: "unat (-1 :: u64) = 2 ^ 64 - 1" by (simp add: unsigned_minus_1_eq_mask mask_eq_exp_minus_1)
  have u: "unat (currInode d) = i" using d(5) assms(2) by (simp add: unat_of_nat)
  then have n1: "currInode d \<noteq> -1" using m assms(2) by (metis less_irrefl)
  have c: "currInode d \<ge> of_nat (length (family n)) \<longleftrightarrow> length (family n) \<le> i"
    using w(2) u by (simp add: word_le_nat_alt unat_of_nat)
  show ?thesis
  proof (cases "i < length (family n)")
    case True
    then obtain m where m: "inodes s (family n ! i) = Some m" using w(3) nth_mem by blast
    let ?d = "d\<lparr>d_name := inodeName m, currInode := currInode d + 1\<rparr>"
    let ?s = "s\<lparr>kern_VA := k, dirs := (dirs s)(rdi r \<mapsto> ?d)\<rparr>"
    have "k_readdir r s = Inr (Ret (rdi r + 264), ?s)"
      using d k w(1) u n1 c m True by (simp add: k_readdir_def deref_def Let_def)
    moreover have "dir_open (rdi r) a n (i + 1) ?s"
      using d by (auto simp: dir_open_def)
    moreover have "d_name ?d = entry_name (inodes s) (family n ! i)" using m by (simp add: entry_name_def)
    ultimately show ?thesis using True by fastforce
  next
    case False
    then show ?thesis using d k w(1) u n1 c by (auto simp: k_readdir_def deref_def Let_def)
  qed
qed

lemma k_readdir_entry:
  fixes s :: "'a kernel"
  assumes "dir_open (rdi r) a n i s" and "i < 2 ^ 64 - 1" and "i < length (family n)"
  obtains k d where "k_readdir r s = Inr (Ret (rdi r + 264), s\<lparr>kern_VA := k, dirs := (dirs s)(rdi r \<mapsto> d)\<rparr>)"
    and "dir_open (rdi r) a n (i + 1) (s\<lparr>kern_VA := k, dirs := (dirs s)(rdi r \<mapsto> d)\<rparr>)"
    and "d_name d = entry_name (inodes s) (family n ! i)"
  using k_readdir_step[OF assms(1,2)] assms(3) by auto

text \<open>C28. Reading an open directory to its end: from entry \<open>i\<close> on, the calls of \<open>k_readdir\<close> deliver the names
  of the remaining entries of the directory, in the order of the directory and each exactly
  once, and one call more reports the end. The file system is not changed.\<close>

theorem k_readdir_lists:
  fixes s :: "'a kernel"
  assumes "dir_open (rdi r) a n i s" and "i \<le> length (family n)" and "length (family n) - i < calls"
  shows "\<exists>s'. read_entries calls r s = Inr (map (entry_name (inodes s)) (drop i (family n)), True, s') \<and>
     inodes s' = inodes s"
  using assms
proof (induction calls arbitrary: i s)
  case (Suc calls)
  have "length (family n) \<le> 10" using Suc.prems(1) by (auto simp: dir_open_def fs_wf_def)
  then have i: "i < 2 ^ 64 - 1" using Suc.prems(2) by simp
  show ?case
  proof (cases "i < length (family n)")
    case True
    obtain s1 d where s1: "k_readdir r s = Inr (Ret (rdi r + 264), s1)" "dir_open (rdi r) a n (i + 1) s1"
        "inodes s1 = inodes s" "dirs s1 (rdi r) = Some d" "d_name d = entry_name (inodes s) (family n ! i)"
      by (rule k_readdir_entry[OF Suc.prems(1) i True]) auto
    have "length (family n) - (i + 1) < calls" using Suc.prems(3) True by linarith
    then obtain s' where s': "read_entries calls r s1 =
        Inr (map (entry_name (inodes s1)) (drop (i + 1) (family n)), True, s')" "inodes s' = inodes s1"
      using Suc.IH[OF s1(2)] True by auto
    have "rdi r + 264 \<noteq> 0" using Suc.prems(1) by (simp add: dir_open_def)
    then show ?thesis using s1 s' True by (simp add: deref_def Cons_nth_drop_Suc[symmetric])
  next
    case False
    then show ?thesis using k_readdir_step[OF Suc.prems(1) i] by auto
  qed
qed simp

text \<open>The state \<open>kernel_small\<close> with the root directory opened.\<close>

definition kernel_dir :: tasks where
  "kernel_dir = kernel_small\<lparr>dirs := [0x900 \<mapsto> \<lparr>dpath = ''/'', currInode = 1, d_name = [], nextdir = 0\<rparr>]\<rparr>"

lemma dir_open_small: "dir_open 0x900 0x100 (the (fs_heap 0x100)) 1 kernel_dir"
  using fs_wf_heap unfolding dir_open_def kernel_dir_def
  by (auto simp: cstring_def tokens.simps fs_heap_def)

theorem k_readdir_lists_witness:
  "\<exists>s'. read_entries 3 (regs_small 0x900 0) kernel_dir =
      Inr (map (entry_name (inodes kernel_dir)) (drop 1 (family (the (fs_heap 0x100)))), True, s') \<and>
     inodes s' = inodes kernel_dir"
  by (rule k_readdir_lists[of _ "0x100"]) (use dir_open_small in \<open>simp_all add: regs_small_def fs_heap_def\<close>)

section \<open>Opening a file\<close>

lemma find_upt_Some:
  assumes "find P [m..<n] = Some i"
  shows "P i" and "m \<le> i" and "i < n" and "\<forall>j. m \<le> j \<and> j < i \<longrightarrow> \<not> P j"
proof -
  obtain k where k: "k < n - m" "P (m + k)" "i = m + k" "\<forall>j < k. \<not> P (m + j)"
    using assms by (auto simp: find_Some_iff)
  show "P i" "m \<le> i" "i < n" using k by auto
  show "\<forall>j. m \<le> j \<and> j < i \<longrightarrow> \<not> P j"
  proof (intro allI impI)
    fix j assume "m \<le> j \<and> j < i"
    then have "j - m < k" "m + (j - m) = j" using k(3) by linarith+
    then show "\<not> P j" using k(4) by metis
  qed
qed

lemma lookup_dom:
  assumes "fs_wf h hi" and "a \<in> dom h" and "lookup h a ts = Some q"
  shows "q \<in> dom h"
  using assms(2,3)
proof (induction ts arbitrary: a)
  case (Cons t ts)
  then obtain c where "child h a t = Some c" "lookup h c ts = Some q" by (auto split: option.splits)
  then show ?case using Cons.IH child_dom[OF assms(1)] by blast
qed simp

text \<open>The file that a path leads to, if it is one.\<close>

definition file_at :: "string \<Rightarrow> 'a vfs_scheme \<Rightarrow> u64 option" where
  "file_at pth s = (case lookup (inodes s) (root_inode s) (tokens CHR ''/'' pth) of
     None \<Rightarrow> None | Some q \<Rightarrow> (if itype (the (inodes s q)) = DIR then None else Some q))"

text \<open>C30. \<open>k_open\<close> on a path in user memory: when the path leads to no file, the result is -1 and no
  descriptor changes; otherwise the result is the lowest free descriptor from 2 on, which
  then stands for a file object at the start of the file, while the other descriptors and
  processes are unchanged; and when all are in use the result is -1.\<close>

theorem k_open_spec:
  fixes s t :: "'a kernel"
  assumes "read_cstr (rdi r) s = Inr (pth, t)" and "active t = Some a" and "a < PROC_SIZE" and "cstring pth"
    and "fs_wf (inodes t) hi" and "root_inode t \<in> dom (inodes t)"
  shows "case (file_at pth t, find (\<lambda>i. fd (all_pro t a) ! i = 0) [2..<MAX_FD]) of
      (Some q, Some i) \<Rightarrow> \<exists>s' p. k_open r s = Inr (Ret (of_nat i), s') \<and> 2 \<le> i \<and> i < MAX_FD \<and>
        (\<forall>j. 2 \<le> j \<and> j < i \<longrightarrow> fd (all_pro t a) ! j \<noteq> 0) \<and>
        all_pro s' = (all_pro t)(a := (all_pro t a)\<lparr>fd := (fd (all_pro t a))[i := p]\<rparr>) \<and>
        files s' = (files t)(p \<mapsto> \<lparr>currentoffset = istart (the (inodes t q)), node = q\<rparr>)
    | _ \<Rightarrow> \<exists>s'. k_open r s = Inr (Ret (-1), s') \<and> all_pro s' = all_pro t \<and> files s' = files t"
proof -
  let ?l = "lookup (inodes t) (root_inode t) (tokens CHR ''/'' pth)"
  obtain k where k: "GetInode pth t = Inr (case ?l of None \<Rightarrow> 0 | Some q \<Rightarrow> q, t\<lparr>kern_VA := k\<rparr>)"
    using GetInode_lookup[OF assms(5,6,4)] by auto
  have l: "q \<noteq> 0 \<and> (\<exists>n. inodes t q = Some n)" if "?l = Some q" for q
    using lookup_dom[OF assms(5,6) that] assms(5) by (auto simp: fs_wf_def)
  have say: "\<exists>c. say m [] u = Inr (u\<lparr>con := c\<rparr>)" if "CHR ''%'' \<notin> set m" for m and u :: "'a kernel"
    using kprintf_nofmt[OF that, of "[]" "con u"] by (auto simp: say_def)
  show ?thesis
  proof (cases "file_at pth t")
    case None
    let ?m = "[CHR 0x0A] @ ''No Such File!'' @ [CHR 0x0A]"
    obtain c where "say ?m [] (t\<lparr>kern_VA := k\<rparr>) = Inr (t\<lparr>kern_VA := k, con := c\<rparr>)"
      using say[of ?m "t\<lparr>kern_VA := k\<rparr>"] by auto
    then have "k_open r s = Inr (Ret (-1), t\<lparr>kern_VA := k, con := c\<rparr>)"
      using None k l assms(1) by (auto simp: k_open_def file_at_def deref_def split: option.splits if_splits)
    then show ?thesis using None by simp
  next
    case (Some q)
    then obtain n where q: "?l = Some q" "q \<noteq> 0" "inodes t q = Some n" "itype n \<noteq> DIR"
      using l by (auto simp: file_at_def split: option.splits if_splits)
    show ?thesis
    proof (cases "find (\<lambda>i. fd (all_pro t a) ! i = 0) [2..<MAX_FD]")
      case None
      let ?m = "[CHR 0x0A] @ ''We dont support opening more than 20 files!'' @ [CHR 0x0A]"
      obtain c where "say ?m [] (t\<lparr>kern_VA := k\<rparr>) = Inr (t\<lparr>kern_VA := k, con := c\<rparr>)"
        using say[of ?m "t\<lparr>kern_VA := k\<rparr>"] by auto
      then have "k_open r s = Inr (Ret (-1), t\<lparr>kern_VA := k, con := c\<rparr>)"
        using None k q assms(1-3) by (simp add: k_open_def deref_def act_Some)
      then show ?thesis using None Some by simp
    next
      case (Some i)
      let ?p = "k + 1"
      let ?s = "t\<lparr>kern_VA := k + 16, files := (files t)(?p \<mapsto> \<lparr>currentoffset = istart n, node = q\<rparr>),
        all_pro := (all_pro t)(a := (all_pro t a)\<lparr>fd := (fd (all_pro t a))[i := ?p]\<rparr>)\<rparr>"
      have "k_open r s = Inr (Ret (of_nat i), ?s)"
        using Some k q assms(1-3) by (simp add: k_open_def deref_def act_Some kmalloc_Inr upd_pcb_def)
      then show ?thesis
        using Some \<open>file_at pth t = Some q\<close> q(3) find_upt_Some[OF Some]
        by (auto intro!: exI[of _ ?s] exI[of _ ?p])
    qed
  qed
qed

text \<open>The path \<open>/bin/sb\<close> in the memory of the process; it leads to the file \<open>sbush\<close>.\<close>

definition kernel_path :: tasks where
  "kernel_path = kernel_small\<lparr>pmem := mem_frame 0x62732f6e69622f\<rparr>"

lemma kernel_path_simps [simp]:
  "active kernel_path = Some 0" "inodes kernel_path = fs_heap" "root_inode kernel_path = 0x100"
  "cr3 kernel_path = 0x100000" "pmem kernel_path = mem_frame 0x62732f6e69622f"
  by (simp_all add: kernel_path_def kernel_small_def vfs.defs fs_small_def vmm.defs vm_small_def machine.defs)

lemma read_path: "read_cstr 0x400870 kernel_path = Inr (''/bin/sb'', kernel_path)"
proof -
  have "pmem kernel_path (0x21E000 + of_nat (0x800 + 112 + k)) = of_char (cget ''/bin/sb'' k)" if "k \<le> 7" for k
  proof -
    have "k \<in> {0, 1, 2, 3, 4, 5, 6, 7}" using that by auto
    then show ?thesis
      by (elim insertE) (simp_all add: mem_frame_def store64_def byte_of_def cget_def)
  qed
  then show ?thesis
    using read_cstr_frame[OF frame_small(1), of kernel_path _ 112 "''/bin/sb''"] by (simp add: cstring_def)
qed

theorem k_open_spec_witness:
  "case (file_at ''/bin/sb'' kernel_path, find (\<lambda>i. fd (all_pro kernel_path 0) ! i = 0) [2..<MAX_FD]) of
      (Some q, Some i) \<Rightarrow> \<exists>s' p. k_open (regs_small 0x400870 0) kernel_path = Inr (Ret (of_nat i), s') \<and>
        2 \<le> i \<and> i < MAX_FD \<and> (\<forall>j. 2 \<le> j \<and> j < i \<longrightarrow> fd (all_pro kernel_path 0) ! j \<noteq> 0) \<and>
        all_pro s' = (all_pro kernel_path)(0 := (all_pro kernel_path 0)\<lparr>fd := (fd (all_pro kernel_path 0))[i := p]\<rparr>) \<and>
        files s' = (files kernel_path)(p \<mapsto> \<lparr>currentoffset = istart (the (inodes kernel_path q)), node = q\<rparr>)
    | _ \<Rightarrow> \<exists>s'. k_open (regs_small 0x400870 0) kernel_path = Inr (Ret (-1), s') \<and>
        all_pro s' = all_pro kernel_path \<and> files s' = files kernel_path"
  by (rule k_open_spec) (use read_path fs_wf_heap in \<open>simp_all add: regs_small_def cstring_def\<close>)

end
