(* ===== verification/Programs_Spec.thy ===== *)
theory Programs_Spec
  imports Programs Libc_Spec File_Syscalls_Spec
begin

text \<open>
  Memory and output of user programs: a page that is present, writable and not a page table
  behaves like an array of bytes, and the characters that a program prints come out on
  the screen.
\<close>

section \<open>Pages of a program\<close>

text \<open>The page at \<open>b\<close> is present and writable for user code and lies in the frame \<open>f\<close>, which holds no table.\<close>

definition rw_page :: "u64 \<Rightarrow> u64 \<Rightarrow> 'a machine_scheme \<Rightarrow> bool" where
  "rw_page b f s \<longleftrightarrow> page_aligned b \<and> p1_index b \<noteq> 0x1FE \<and> f \<notin> tables s \<and>
     (\<exists>F. pt_tree (pmem s) (root s) F) \<and>
     (\<exists>T. walk_to s [p1_index b, p2_index b, p3_index b] = Some T \<and>
        pte (pmem s) T (p4_index b) AND 7 = 7 \<and> frame_of (pte (pmem s) T (p4_index b)) = f)"

lemma rw_page_walk:
  assumes "rw_page b f s"
  shows "walk_to s (mmu_indices b) = Some f" and "page_aligned f"
proof -
  obtain T F where T: "walk_to s [p1_index b, p2_index b, p3_index b] = Some T"
      "pte (pmem s) T (p4_index b) AND 7 = 7" "frame_of (pte (pmem s) T (p4_index b)) = f"
    using assms by (auto simp: rw_page_def)
  have "bit (pte (pmem s) T (p4_index b)) 0" using flags_7[OF T(2)] and_1_bit[of "pte (pmem s) T (p4_index b)"] by simp
  then show "walk_to s (mmu_indices b) = Some f" using leaf_entry[OF T(1)] T(3) by simp
  show "page_aligned f" using T(3) by auto
qed

lemma rw_page_translate:
  assumes "rw_page b f s" and "e < 4096"
  shows "translate s (b + of_nat e) = Some (f + of_nat e)"
  using translate_page[OF _ assms(2), of b s] rw_page_walk(1)[OF assms(1)] assms(1) by (simp add: rw_page_def)

lemma rw_page_fault:
  assumes "rw_page b f s" and "e < 4096"
  shows "user_fault write (b + of_nat e) s = None"
proof -
  have i: "mmu_indices (b + of_nat e) = mmu_indices b" by (rule mmu_indices_page) (use assms in \<open>auto simp: rw_page_def\<close>)
  obtain T where T: "walk_to s [p1_index b, p2_index b, p3_index b] = Some T" "pte (pmem s) T (p4_index b) AND 7 = 7"
    using assms(1) by (auto simp: rw_page_def)
  show ?thesis
    using i T(1) flags_7[OF T(2)] by (simp add: user_fault_def indices_split Let_def del: path.simps)
qed

lemma rw_page_uload8:
  fixes s :: "'a kernel"
  assumes "rw_page b f s" and "e < 4096"
  shows "uload8 (b + of_nat e) s = Inr (pmem s (f + of_nat e), s)"
  using rw_page_fault[OF assms] rw_page_translate[OF assms]
  by (simp add: uload8_def user_access_def vload8_def)

lemma rw_page_kload8:
  fixes s :: "'a kernel"
  assumes "rw_page b f s" and "e < 4096"
  shows "kload8 (b + of_nat e) s = Inr (pmem s (f + of_nat e), s)"
  using rw_page_translate[OF assms] by (simp add: kload8_def vload8_def)

lemma rw_page_upd:
  fixes s :: "'a machine_scheme"
  assumes "rw_page b f s" and "rw_page b' f' s" and "e < 4096"
  shows "rw_page b f (s\<lparr>pmem := (pmem s)(f' + of_nat e := v)\<rparr>)"
proof -
  let ?m = "(pmem s)(f' + of_nat e := v)"
  obtain F T where F: "pt_tree (pmem s) (root s) F" and T: "walk_to s [p1_index b, p2_index b, p3_index b] = Some T"
      "pte (pmem s) T (p4_index b) AND 7 = 7" "frame_of (pte (pmem s) T (p4_index b)) = f"
    using assms(1) by (auto simp: rw_page_def)
  have pt: "pte ?m t j = pte (pmem s) t j" if "t \<in> tables s" "unat j < 512" for t j
  proof (rule pte_upd_other[OF rw_page_walk(2)[OF assms(2)] _ that(2) assms(3)])
    show "page_aligned t" using that(1) pt_tree_aligned[OF F] by (auto simp: ptables_def)
    show "t \<noteq> f'" using that(1) assms(2) by (auto simp: rw_page_def)
  qed
  have dt: "path ?m (root s) q = walk_to s q" if "idx_ok q" "length q \<le> 4" for q
    using data_tree(1)[OF F _ that, of ?m] pt by blast
  have dt2: "pt_tree ?m (root s) F" "ptables ?m (root s) = tables s" using data_tree(2,3)[OF F, of ?m] pt by blast+
  have i: "idx_ok (mmu_indices b)" "idx_ok [p1_index b, p2_index b, p3_index b]"
    using assms(1) idx_ok_indices idx_ok_append[of "[p1_index b, p2_index b, p3_index b]" "[p4_index b]"]
    by (auto simp: rw_page_def indices_split)
  have "T \<in> tables s" by (rule ptablesI[OF T(1) i(2)]) simp
  moreover have "unat (p4_index b) < 512"
    using i(1) idx_ok_bound[of "[p1_index b, p2_index b, p3_index b]" "p4_index b" "[]"] by (simp add: indices_split)
  ultimately have "pte ?m T (p4_index b) = pte (pmem s) T (p4_index b)" by (rule pt)
  then show ?thesis
    using assms(1) T dt[OF i(2)] dt2 by (auto simp: rw_page_def simp del: path.simps fun_upd_apply)
qed

lemma rw_page_upds:
  fixes s :: "'a machine_scheme"
  assumes "rw_page b f s" and "rw_page b' f' s" and "\<forall>(e, v) \<in> set ups. e < 4096"
  shows "rw_page b f (s\<lparr>pmem := fold (\<lambda>(e, v) m. m(f' + of_nat e := v)) ups (pmem s)\<rparr>)"
  using assms
proof (induction ups arbitrary: s)
  case (Cons x ups)
  obtain e v where x: "x = (e, v)" by (cases x)
  show ?case
    using Cons.IH[OF rw_page_upd[OF Cons.prems(1,2), of e v] rw_page_upd[OF Cons.prems(2,2), of e v]] Cons.prems(3) x by simp
qed simp

lemma rw_page_ustore8:
  fixes s :: "'a kernel"
  assumes "rw_page b f s" and "e < 4096"
  shows "ustore8 (b + of_nat e) v s = Inr (s\<lparr>pmem := (pmem s)(f + of_nat e := v)\<rparr>)"
  using rw_page_fault[OF assms] rw_page_translate[OF assms]
  by (simp add: ustore8_def user_access_def vstore8_def)


text \<open>A pointer and a string that lie in a page of the program.\<close>

definition holds_ptr :: "'a machine_scheme \<Rightarrow> u64 \<Rightarrow> u64 \<Rightarrow> bool" where
  "holds_ptr s p v \<longleftrightarrow> (\<exists>b f e. rw_page b f s \<and> e + 8 \<le> 4096 \<and> p = b + of_nat e \<and> load64 (pmem s) (f + of_nat e) = v)"

definition holds_string :: "'a machine_scheme \<Rightarrow> u64 \<Rightarrow> string \<Rightarrow> bool" where
  "holds_string s p str \<longleftrightarrow> cstring str \<and> (\<exists>b f e. rw_page b f s \<and> e + length str < 4096 \<and> p = b + of_nat e \<and>
     (\<forall>k \<le> length str. pmem s (f + of_nat (e + k)) = of_char (cget str k)))"

lemma holds_ptrI:
  "rw_page b f s \<Longrightarrow> p = b + of_nat e \<Longrightarrow> e + 8 \<le> 4096 \<Longrightarrow> load64 (pmem s) (f + of_nat e) = v \<Longrightarrow> holds_ptr s p v"
  unfolding holds_ptr_def by blast

lemma holds_stringI:
  "rw_page b f s \<Longrightarrow> p = b + of_nat e \<Longrightarrow> cstring str \<Longrightarrow> e + length str < 4096 \<Longrightarrow>
     (\<And>k. k \<le> length str \<Longrightarrow> pmem s (f + of_nat (e + k)) = of_char (cget str k)) \<Longrightarrow> holds_string s p str"
  unfolding holds_string_def by blast

lemma uload64_holds:
  fixes s :: "'a kernel"
  assumes "holds_ptr s p v"
  shows "uload64 p s = Inr (v, s)"
proof -
  obtain b f e where e: "rw_page b f s" "e + 8 \<le> 4096" "p = b + of_nat e" "load64 (pmem s) (f + of_nat e) = v"
    using assms by (auto simp: holds_ptr_def)
  have ld: "uload8 (p + of_nat k) s = Inr (pmem s (f + of_nat e + of_nat k), s)" if "k < 8" for k
    using rw_page_uload8[OF e(1), of "e + k"] e(2,3) that by (simp add: add.assoc)
  have l: "[0..<8] = [0, 1, 2, 3, 4, 5, 6, 7 :: nat]" by (simp add: upt_rec)
  show ?thesis
    using ld[of 0] ld[of 1] ld[of 2] ld[of 3] ld[of 4] ld[of 5] ld[of 6] ld[of 7] e(4)
    by (simp add: uload64_def l load64_def or.commute or.left_commute or.assoc)
qed

lemma read_cstr_holds:
  fixes s :: "'a kernel"
  assumes "holds_string s p str"
  shows "read_cstr p s = Inr (str, s)"
proof -
  obtain b f e where e: "cstring str" "rw_page b f s" "e + length str < 4096" "p = b + of_nat e"
      "\<forall>k \<le> length str. pmem s (f + of_nat (e + k)) = of_char (cget str k)"
    using assms by (auto simp: holds_string_def)
  show ?thesis
  proof (rule read_cstr_bytes[OF e(1)], intro allI impI)
    fix k assume "k \<le> length str"
    then show "kload8 (p + of_nat k) s = Inr (of_char (cget str k), s)"
      using rw_page_kload8[OF e(2), of "e + k"] e(3-5) by (simp add: add.assoc)
  qed
qed

lemma ustr_loop_bytes:
  fixes s :: "'a kernel"
  assumes "cstring str" and "\<forall>k \<le> length str. uload8 (p + of_nat k) s = Inr (of_char (cget str k), s)"
  shows "ustr_loop p acc s = Some (Inr (acc @ str, s))"
  using assms
proof (induction str arbitrary: p acc)
  case Nil
  then show ?case by (subst ustr_loop.simps) simp
next
  case (Cons c cs)
  have c: "c \<noteq> NUL" "cstring cs" using Cons.prems(1) by (auto simp: cstring_def)
  have "(of_char c :: u8) \<noteq> 0" using byte_char[of c] c(1) by (metis NUL_char unsigned_0)
  moreover have "uload8 p s = Inr (of_char c, s)" using Cons.prems(2)[rule_format, of 0] by simp
  moreover have "ustr_loop (p + 1) (acc @ [c]) s = Some (Inr ((acc @ [c]) @ cs, s))"
  proof (rule Cons.IH[OF c(2)], intro allI impI)
    fix k assume "k \<le> length cs"
    then show "uload8 (p + 1 + of_nat k) s = Inr (of_char (cget cs k), s)"
      using Cons.prems(2)[rule_format, of "Suc k"] by (simp add: add.assoc)
  qed
  ultimately show ?case using byte_char[of c] by (subst ustr_loop.simps) simp
qed

lemma ustr_holds:
  fixes s :: "'a kernel"
  assumes "holds_string s p str"
  shows "ustr p s = Inr (str, s)" and "uload8 p s = Inr (of_char (cget str 0), s)"
proof -
  obtain b f e where e: "cstring str" "rw_page b f s" "e + length str < 4096" "p = b + of_nat e"
      "\<forall>k \<le> length str. pmem s (f + of_nat (e + k)) = of_char (cget str k)"
    using assms by (auto simp: holds_string_def)
  have b: "\<forall>k \<le> length str. uload8 (p + of_nat k) s = Inr (of_char (cget str k), s)"
  proof (intro allI impI)
    fix k assume "k \<le> length str"
    then show "uload8 (p + of_nat k) s = Inr (of_char (cget str k), s)"
      using rw_page_uload8[OF e(2), of "e + k"] e(3-5) by (simp add: add.assoc)
  qed
  show "ustr p s = Inr (str, s)" using ustr_loop_bytes[OF e(1) b, of "[]"] by (simp add: ustr_def)
  show "uload8 p s = Inr (of_char (cget str 0), s)" using b[rule_format, of 0] by simp
qed

lemma holds_fields [simp]:
  "holds_string (s\<lparr>RING_0_MODE := r\<rparr>) p str = holds_string s p str" for s :: "'a kernel"
  by (simp add: holds_string_def rw_page_def)

section \<open>One character\<close>

lemma rw_page_fields [simp]:
  "rw_page b f (s\<lparr>con := c\<rparr>) = rw_page b f s" "rw_page b f (s\<lparr>RING_0_MODE := r\<rparr>) = rw_page b f s"
  for s :: "'a kernel"
  by (simp_all add: rw_page_def)

text \<open>The memory after the four bytes of a small number have been stored.\<close>

definition put4 :: "(u64 \<Rightarrow> u8) \<Rightarrow> u64 \<Rightarrow> u8 \<Rightarrow> u64 \<Rightarrow> u8" where
  "put4 m a v = m(a := v, a + 1 := 0, a + 2 := 0, a + 3 := 0)"

lemma put4_bytes: "put4 m a v a = v" "put4 m a v (a + 1) = 0"
  by (simp_all add: put4_def)

lemma rw_page_put4:
  fixes s :: "'a machine_scheme"
  assumes "rw_page b f s" and "rw_page b' f' s" and "e + 4 \<le> 4096"
  shows "rw_page b f (s\<lparr>pmem := put4 (pmem s) (f' + of_nat e) v\<rparr>)"
  using rw_page_upds[OF assms(1,2), of "[(e, v), (e + 1, 0), (e + 2, 0), (e + 3, 0)]"] assms(3)
  by (simp add: put4_def add.assoc add.commute add.left_commute)

lemma small_bytes:
  assumes "0 \<le> c" and "c < 256"
  shows "byte_of (of_int c) 0 = (of_int c :: u8)" and "0 < k \<Longrightarrow> byte_of (of_int c) k = 0"
proof -
  have c: "take_bit 8 c = c" using assms by (simp add: take_bit_int_eq_self)
  have "n < 8" if "bit c n" for n using that c by (metis bit_take_bit_iff)
  then show "byte_of (of_int c) k = 0" if "0 < k"
    using that by (intro bit_word_eqI) (force simp: byte_of_def bit_simps)
  show "byte_of (of_int c) 0 = (of_int c :: u8)" by (rule bit_word_eqI) (simp add: byte_of_def bit_simps)
qed

lemma rw_page_ustore32:
  fixes s :: "'a kernel"
  assumes "rw_page b f s" and "e + 4 \<le> 4096" and "0 \<le> c" and "c < 256"
  defines "s' \<equiv> s\<lparr>pmem := put4 (pmem s) (f + of_nat e) (of_int c)\<rparr>"
  shows "ustore32 (b + of_nat e) c s = Inr s'" and "rw_page b f s'"
proof -
  have st: "ustore8 (b + of_nat e + of_nat k) v t = Inr (t\<lparr>pmem := (pmem t)(f + of_nat e + of_nat k := v)\<rparr>)"
      "rw_page b f (t\<lparr>pmem := (pmem t)(f + of_nat e + of_nat k := v)\<rparr>)"
    if "rw_page b f t" "k < 4" for t :: "'a kernel" and k v
    using rw_page_ustore8[OF that(1), of "e + k" v] rw_page_upd[OF that(1,1), of "e + k" v] that(2) assms(2)
    by (simp_all add: add.assoc)
  note c = small_bytes[OF assms(3,4)]
  have l: "[0..<4] = [0, 1, 2, 3 :: nat]" by (simp add: upt_rec)
  define s0 where "s0 = s\<lparr>pmem := (pmem s)(f + of_nat e := of_int c)\<rparr>"
  define s1 where "s1 = s0\<lparr>pmem := (pmem s0)(f + of_nat e + 1 := 0)\<rparr>"
  define s2 where "s2 = s1\<lparr>pmem := (pmem s1)(f + of_nat e + 2 := 0)\<rparr>"
  define s3 where "s3 = s2\<lparr>pmem := (pmem s2)(f + of_nat e + 3 := 0)\<rparr>"
  have 0: "ustore8 (b + of_nat e) (of_int c) s = Inr s0" "rw_page b f s0" using st[OF assms(1), of 0] by (simp_all add: s0_def)
  have 1: "ustore8 (b + of_nat e + 1) 0 s0 = Inr s1" "rw_page b f s1" using st[OF 0(2), of 1] by (simp_all add: s1_def)
  have 2: "ustore8 (b + of_nat e + 2) 0 s1 = Inr s2" "rw_page b f s2" using st[OF 1(2), of 2] by (simp_all add: s2_def)
  have 3: "ustore8 (b + of_nat e + 3) 0 s2 = Inr s3" "rw_page b f s3" using st[OF 2(2), of 3] by (simp_all add: s3_def)
  have "s3 = s'" by (simp add: s3_def s2_def s1_def s0_def s'_def put4_def)
  moreover have "ustore32 (b + of_nat e) c s = Inr s3"
    using 0(1) 1(1) 2(1) 3(1) c by (simp add: ustore32_def l)
  ultimately show "ustore32 (b + of_nat e) c s = Inr s'" "rw_page b f s'" using 3(2) by simp_all
qed

text \<open>The kernel reads the character and the zero behind it as a string.\<close>

lemma read_cstr_char:
  fixes s :: "'a kernel"
  assumes "rw_page b f s" and "e + 4 \<le> 4096" and "pmem s = put4 m (f + of_nat e) (of_char ch)" and "ch \<noteq> NUL"
  shows "read_cstr (b + of_nat e) s = Inr ([ch], s)"
proof -
  have "(of_char ch :: u8) \<noteq> 0" using byte_char[of ch] assms(4) by (metis NUL_char unsigned_0)
  moreover have "kload8 (b + of_nat e) s = Inr (of_char ch, s)" "kload8 (b + of_nat e + 1) s = Inr (0, s)"
    using rw_page_kload8[OF assms(1), of e] rw_page_kload8[OF assms(1), of "e + 1"] assms(2)
      put4_bytes[of m "f + of_nat e" "of_char ch"] unfolding assms(3)
    by (simp_all add: add.commute add.left_commute)
  ultimately show ?thesis
    using byte_char[of ch] by (simp add: read_cstr_def read_cstr_loop.simps)
qed

text \<open>A character below 128 is the same number as a byte and as an \<open>int\<close>.\<close>

definition ascii :: "char \<Rightarrow> bool" where
  "ascii ch \<longleftrightarrow> ch \<noteq> NUL \<and> 0 \<le> schar ch"

lemma ascii_bounds: "ascii ch \<Longrightarrow> 0 \<le> schar ch \<and> schar ch < 256"
proof -
  have "schar ch < 128" unfolding schar_def using sint_lt[of "of_char ch :: u8"] by simp
  then show "ascii ch \<Longrightarrow> ?thesis" by (simp add: ascii_def)
qed

lemma schar_byte: "(of_int (schar ch) :: u8) = of_char ch"
  by (simp add: schar_def)

lemma ring_same: "RING_0_MODE s = r \<Longrightarrow> s\<lparr>RING_0_MODE := r\<rparr> = s" for s :: "'a kernel"
  by auto

lemma putchar_prints:
  fixes s :: "'a kernel"
  assumes "rw_page b f s" and "e + 4 \<le> 4096" and "ascii ch" and "RING_0_MODE s = 0"
  defines "s' \<equiv> s\<lparr>pmem := put4 (pmem s) (f + of_nat e) (of_char ch)\<rparr>"
  shows "putchar u (b + of_nat e) (schar ch) s = Inr (Inr (schar ch), s'\<lparr>con := flush [ch] (con s)\<rparr>)"
    and "putcharcolor u (b + of_nat e) (schar ch) s = Inr (Inr (schar ch), s'\<lparr>con := flushcolor [ch] (con s)\<rparr>)"
    and "rw_page b f s'"
proof -
  have a: "0 \<le> schar ch" "schar ch < 256" "ch \<noteq> NUL" using ascii_bounds[OF assms(3)] assms(3) by (auto simp: ascii_def)
  note st = rw_page_ustore32[OF assms(1,2) a(1,2), unfolded schar_byte, folded s'_def]
  show "rw_page b f s'" by (rule st(2))
  let ?s = "s'\<lparr>RING_0_MODE := 1\<rparr>"
  have "rw_page b f ?s" using st(2) by simp
  then have r: "read_cstr (b + of_nat e) ?s = Inr ([ch], ?s)"
    by (rule read_cstr_char[OF _ assms(2) _ a(3)]) (simp add: s'_def)
  have "RING_0_MODE (s'\<lparr>con := c\<rparr>) = 0" for c using assms(4) by (simp add: s'_def)
  then have z: "(s'\<lparr>con := c\<rparr>)\<lparr>RING_0_MODE := 0\<rparr> = s'\<lparr>con := c\<rparr>" for c
    by (rule ring_same)
  have k: "con s' = con s" by (simp add: s'_def)
  have n: "\<not> 200 \<le> (1 :: u64)" by (simp add: word_le_nat_alt)
  show "putchar u (b + of_nat e) (schar ch) s = Inr (Inr (schar ch), s'\<lparr>con := flush [ch] (con s)\<rparr>)"
    using st(1) r z n k
    by (simp add: putchar_def ucall_def int80_def Let_def dispatch_def syscall_init_def k_write_def
        terminal_write_def say_def ureturn_def)
  show "putcharcolor u (b + of_nat e) (schar ch) s = Inr (Inr (schar ch), s'\<lparr>con := flushcolor [ch] (con s)\<rparr>)"
    using st(1) r z n k
    by (simp add: putcharcolor_def ucall_def int80_def Let_def dispatch_def syscall_init_def k_writecolor_def ureturn_def)
qed


section \<open>Strings\<close>

text \<open>
  A program may print: the parameter of \<open>putchar\<close> lies in a page of the program, and the processor
  is in user mode.
\<close>

definition can_print :: "u64 \<Rightarrow> u64 \<Rightarrow> 'a kernel \<Rightarrow> bool" where
  "can_print p a s \<longleftrightarrow> RING_0_MODE s = 0 \<and>
     (\<exists>b f e. rw_page b f s \<and> e + 4 \<le> 4096 \<and> p = b + of_nat e \<and> a = f + of_nat e)"

text \<open>Only the console and the four bytes at \<open>a\<close> differ.\<close>

definition printed :: "u64 \<Rightarrow> console \<Rightarrow> 'a kernel \<Rightarrow> 'a kernel \<Rightarrow> bool" where
  "printed a c s s' \<longleftrightarrow> (\<exists>m. s' = s\<lparr>pmem := m, con := c\<rparr> \<and> (\<forall>x. x \<notin> {a, a + 1, a + 2, a + 3} \<longrightarrow> m x = pmem s x))"

lemma printed_refl: "printed a (con s) s s"
  unfolding printed_def by (rule exI[of _ "pmem s"]) simp

lemma printed_trans:
  assumes "printed a c s s1" and "printed a d s1 s2"
  shows "printed a d s s2"
proof -
  obtain m m' where "s1 = s\<lparr>pmem := m, con := c\<rparr>" "\<forall>x. x \<notin> {a, a + 1, a + 2, a + 3} \<longrightarrow> m x = pmem s x"
      "s2 = s1\<lparr>pmem := m', con := d\<rparr>" "\<forall>x. x \<notin> {a, a + 1, a + 2, a + 3} \<longrightarrow> m' x = pmem s1 x"
    using assms by (auto simp: printed_def)
  then show ?thesis unfolding printed_def by (intro exI[of _ m']) simp
qed

lemma printed_con: "printed a c s s' \<Longrightarrow> con s' = c"
  by (auto simp: printed_def)

text \<open>The state after one character: \<open>d\<close> is where the parameter of \<open>putchar\<close> lies, \<open>eff\<close> the effect on the console.\<close>

definition shown :: "u64 \<Rightarrow> (char \<Rightarrow> console \<Rightarrow> console) \<Rightarrow> char \<Rightarrow> 'a kernel \<Rightarrow> 'a kernel" where
  "shown d eff ch s = s\<lparr>pmem := put4 (pmem s) d (of_char ch), con := eff ch (con s)\<rparr>"

abbreviation plain :: "char \<Rightarrow> console \<Rightarrow> console" where "plain ch \<equiv> flush [ch]"
abbreviation coloured :: "char \<Rightarrow> console \<Rightarrow> console" where "coloured ch \<equiv> flushcolor [ch]"

lemma print_char:
  fixes s :: "'a kernel"
  assumes "can_print p d s" and "ascii ch"
  shows "putchar u p (schar ch) s = Inr (Inr (schar ch), shown d plain ch s)"
    and "putcharcolor u p (schar ch) s = Inr (Inr (schar ch), shown d coloured ch s)"
proof -
  obtain b f e where e: "RING_0_MODE s = 0" "rw_page b f s" "e + 4 \<le> 4096" "p = b + of_nat e" "d = f + of_nat e"
    using assms(1) by (auto simp: can_print_def)
  note putchar_prints(1,2)[OF e(2,3) assms(2) e(1), where u = u, folded e(4,5)]
  then show "putchar u p (schar ch) s = Inr (Inr (schar ch), shown d plain ch s)"
    "putcharcolor u p (schar ch) s = Inr (Inr (schar ch), shown d coloured ch s)"
    by (simp_all add: shown_def)
qed

lemma rw_page_shown:
  assumes "can_print p d s" and "rw_page b f s"
  shows "rw_page b f (shown d eff ch s)"
proof -
  obtain b' f' e where e: "rw_page b' f' s" "e + 4 \<le> 4096" "d = f' + of_nat e"
    using assms(1) by (auto simp: can_print_def)
  show ?thesis using rw_page_put4[OF assms(2) e(1,2), of "of_char ch"] e(3) by (simp add: shown_def)
qed

lemma can_print_shown: "can_print p d s \<Longrightarrow> can_print p d (shown d eff ch s)"
  using rw_page_shown[of p d s] by (fastforce simp: can_print_def shown_def)

lemma printed_shown: "printed d (eff ch (con s)) s (shown d eff ch s)"
  unfolding printed_def shown_def by (rule exI[of _ "put4 (pmem s) d (of_char ch)"]) (simp add: put4_def)

text \<open>A string in a page of the program, apart from the parameter at \<open>d\<close>.\<close>

definition text_at :: "u64 \<Rightarrow> u64 \<Rightarrow> string \<Rightarrow> 'a machine_scheme \<Rightarrow> bool" where
  "text_at d p str s \<longleftrightarrow> (\<exists>b f e. rw_page b f s \<and> e + length str < 4096 \<and> p = b + of_nat e \<and>
     (\<forall>k \<le> length str. pmem s (f + of_nat (e + k)) = of_char (cget str k) \<and> f + of_nat (e + k) \<notin> {d, d + 1, d + 2, d + 3}))"

lemma text_at_first:
  fixes s :: "'a kernel"
  assumes "text_at d p str s"
  shows "uload8 p s = Inr (of_char (cget str 0), s)"
proof -
  obtain b f e where e: "rw_page b f s" "e + length str < 4096" "p = b + of_nat e"
      "pmem s (f + of_nat (e + 0)) = of_char (cget str 0)"
    using assms unfolding text_at_def by blast
  then show ?thesis using rw_page_uload8[OF e(1), of e] by simp
qed

lemma text_at_shown:
  fixes s :: "'a kernel"
  assumes "text_at d p (ch # str) s" and "can_print sl d s"
  shows "text_at d (p + 1) str (shown d eff ch s)"
proof -
  obtain b f e where e: "rw_page b f s" "e + length (ch # str) < 4096" "p = b + of_nat e"
      "\<forall>k \<le> length (ch # str). pmem s (f + of_nat (e + k)) = of_char (cget (ch # str) k) \<and>
         f + of_nat (e + k) \<notin> {d, d + 1, d + 2, d + 3}"
    using assms(1) unfolding text_at_def by blast
  have "pmem (shown d eff ch s) (f + of_nat (e + 1 + k)) = of_char (cget str k) \<and>
      f + of_nat (e + 1 + k) \<notin> {d, d + 1, d + 2, d + 3}" if "k \<le> length str" for k
    using e(4)[rule_format, of "Suc k"] that by (simp add: shown_def put4_def)
  moreover have "p + 1 = b + of_nat (e + 1)" using e(3) by simp
  moreover have "e + 1 + length str < 4096" using e(2) by simp
  ultimately show ?thesis
    using rw_page_shown[OF assms(2) e(1), of eff ch] unfolding text_at_def by blast
qed

text \<open>
  The contract of the functions that print a text: one character after the other, for a list of characters and
  for a string in memory.
\<close>

locale text_output =
  fixes put :: "string \<Rightarrow> 'a kernel \<Rightarrow> (int, 'a) ures"
    and sl :: u64
    and eff :: "char \<Rightarrow> console \<Rightarrow> console"
  assumes put_Nil: "put [] s = ureturn 0 s"
    and put_Cons: "can_print sl d s \<Longrightarrow> ascii ch \<Longrightarrow> put (ch # str) s = put str (shown d eff ch s)"
begin

lemma put_prints:
  assumes "can_print sl d s" and "\<forall>ch \<in> set str. ascii ch"
  obtains s' where "put str s = Inr (Inr 0, s')" and "can_print sl d s'" and "printed d (fold eff str (con s)) s s'"
  using assms
proof (induction str arbitrary: s thesis)
  case Nil
  then show ?case using printed_refl by (auto simp: put_Nil ureturn_def)
next
  case (Cons ch str)
  let ?s = "shown d eff ch s"
  obtain s2 where s2: "put str ?s = Inr (Inr 0, s2)" "can_print sl d s2" "printed d (fold eff str (con ?s)) ?s s2"
    using Cons.IH[OF _ can_print_shown[OF Cons.prems(2)]] Cons.prems(3) by auto
  show ?case
  proof (rule Cons.prems(1))
    show "put (ch # str) s = Inr (Inr 0, s2)" using put_Cons[OF Cons.prems(2)] Cons.prems(3) s2(1) by simp
    show "printed d (fold eff (ch # str) (con s)) s s2"
      using printed_trans[OF printed_shown s2(3)] by (simp add: shown_def)
  qed (rule s2(2))
qed

end

locale text_loop = text_output put sl eff
  for put :: "string \<Rightarrow> 'a kernel \<Rightarrow> (int, 'a) ures" and sl eff +
  fixes loop :: "u64 \<Rightarrow> 'a kernel \<Rightarrow> (int, 'a) ures option"
  assumes loop_end: "uload8 p s = Inr (0, s) \<Longrightarrow> loop p s = Some (ureturn 0 s)"
    and loop_char: "uload8 p s = Inr (of_char ch, s) \<Longrightarrow> can_print sl d s \<Longrightarrow> ascii ch \<Longrightarrow>
      loop p s = loop (p + 1) (shown d eff ch s)"
begin

lemma loop_put:
  assumes "text_at d p str s" and "can_print sl d s" and "\<forall>ch \<in> set str. ascii ch"
  shows "loop p s = Some (put str s)"
  using assms
proof (induction str arbitrary: p s)
  case Nil
  then show ?case using loop_end text_at_first[OF Nil.prems(1)] by (simp add: put_Nil cget_def)
next
  case (Cons ch str)
  have "loop (p + 1) (shown d eff ch s) = Some (put str (shown d eff ch s))"
    using Cons.IH[OF text_at_shown[OF Cons.prems(1,2)] can_print_shown[OF Cons.prems(2)]] Cons.prems(3) by simp
  then show ?case
    using loop_char[OF _ Cons.prems(2), of p ch] text_at_first[OF Cons.prems(1)] put_Cons[OF Cons.prems(2)] Cons.prems(3)
    by (simp add: cget_def)
qed

end

lemma byte_ascii: "ascii ch \<Longrightarrow> (of_char ch :: u8) \<noteq> 0 \<and> sint (of_char ch :: u8) = schar ch"
  using byte_char[of ch] by (metis NUL_char unsigned_0 ascii_def schar_def)

interpretation pl: text_loop "puts_literal u p" p plain "puts_loop u p" for u p
proof
  show "puts_literal u p [] s = ureturn 0 s" for s by simp
  show "puts_literal u p (ch # str) s = puts_literal u p str (shown d plain ch s)"
    if "can_print p d s" "ascii ch" for d s ch str
    using print_char(1)[OF that, of u] by simp
  show "puts_loop u p a s = Some (ureturn 0 s)" if "uload8 a s = Inr (0, s)" for a s
    using that by (subst puts_loop.simps) simp
  show "puts_loop u p a s = puts_loop u p (a + 1) (shown d plain ch s)"
    if "uload8 a s = Inr (of_char ch, s)" "can_print p d s" "ascii ch" for a s ch d
    using that(1) print_char(1)[OF that(2,3), of u] byte_ascii[OF that(3)] by (subst puts_loop.simps) simp
qed

text \<open>What a sequence of characters does to the console, one system call each.\<close>

abbreviation show_text :: "string \<Rightarrow> console \<Rightarrow> console" where
  "show_text \<equiv> fold plain"

section \<open>Characters on the screen\<close>

lemma flush_cell:
  assumes "data_written c < 80 * 24" and "ch \<noteq> NUL" and "ch \<noteq> CHR 0x0A"
  shows "flush [ch] c = put_cell ch 7 c"
  using assms by (simp add: flush_def flush_with_def checkForScroll_def)

lemma cell_addresses:
  fixes v :: u64
  assumes "i < 2000" and "n < 2000"
  shows "v + 2 * of_nat i = v + 2 * of_nat n \<longleftrightarrow> i = n" and "v + 2 * of_nat i \<noteq> v + 2 * of_nat n + 1"
proof -
  have e: "(of_nat j :: u64) = of_nat k \<longleftrightarrow> j = k" if "j < 4001" "k < 4001" for j k
    using that by (simp add: word_of_nat_eq_iff take_bit_nat_eq_self)
  show "v + 2 * of_nat i = v + 2 * of_nat n \<longleftrightarrow> i = n" using e[of "2 * i" "2 * n"] assms by simp
  have "2 * i \<noteq> 2 * n + 1" by presburger
  then show "v + 2 * of_nat i \<noteq> v + 2 * of_nat n + 1" using e[of "2 * i" "2 * n + 1"] assms by (simp add: add_ac)
qed

text \<open>A text without newlines that ends before the end of line 24 stands in consecutive cells.\<close>

lemma show_text_cells:
  assumes "data_written c + length str \<le> 80 * 24" and "\<forall>ch \<in> set str. ch \<noteq> NUL \<and> ch \<noteq> CHR 0x0A"
  shows "video (show_text str c) = video c + 2 * of_nat (length str) \<and>
    data_written (show_text str c) = data_written c + length str \<and>
    (\<forall>i < length str. vram (show_text str c) (video c + 2 * of_nat i) = of_char (str ! i))"
  using assms
proof (induction str rule: rev_induct)
  case (snoc ch str)
  let ?c = "show_text str c"
  have c: "video ?c = video c + 2 * of_nat (length str)" "data_written ?c = data_written c + length str"
      "\<And>i. i < length str \<Longrightarrow> vram ?c (video c + 2 * of_nat i) = of_char (str ! i)"
    using snoc by auto
  have "flush [ch] ?c = put_cell ch 7 ?c" by (rule flush_cell) (use c(2) snoc.prems in auto)
  moreover have "vram (put_cell ch 7 ?c) (video c + 2 * of_nat i) = of_char ((str @ [ch]) ! i)" if "i < Suc (length str)" for i
    using c cell_addresses[of i "length str" "video c"] that snoc.prems(1)
    by (cases "i = length str") (auto simp: put_cell_def put2_def nth_append)
  ultimately show ?case using c by (simp add: put_cell_def)
qed simp

section \<open>Paths\<close>

text \<open>The directory that a path leads to.\<close>

definition directory_at :: "string \<Rightarrow> 'a kernel \<Rightarrow> (u64 \<times> inode) option" where
  "directory_at pth s =
     (case lookup (inodes s) (root_inode s) (tokens CHR ''/'' pth) of
        None \<Rightarrow> None
      | Some a \<Rightarrow> (case inodes s a of None \<Rightarrow> None | Some n \<Rightarrow> if itype n = DIR then Some (a, n) else None))"

lemma is_dir_spec:
  fixes s :: "'a kernel"
  assumes "fs_wf (inodes s) hi" and "root_inode s \<in> dom (inodes s)" and "cstring pth"
  shows "\<exists>k. is_dir pth s = Inr (directory_at pth s \<noteq> None, s\<lparr>kern_VA := k\<rparr>)"
proof -
  let ?l = "lookup (inodes s) (root_inode s) (tokens CHR ''/'' pth)"
  obtain k where k: "GetInode pth s = Inr ((case ?l of None \<Rightarrow> 0 | Some a \<Rightarrow> a), s\<lparr>kern_VA := k\<rparr>)"
    using GetInode_lookup[OF assms] by auto
  show ?thesis
  proof (cases ?l)
    case None
    then show ?thesis using k by (intro exI[of _ k]) (simp add: is_dir_def directory_at_def)
  next
    case (Some a)
    then obtain n where "inodes s a = Some n" using lookup_dom[OF assms(1,2)] by blast
    moreover have "a \<noteq> 0" using calculation assms(1) by (auto simp: fs_wf_def)
    ultimately show ?thesis
      using k Some by (intro exI[of _ k]) (cases "itype n"; simp add: is_dir_def deref_def directory_at_def)
  qed
qed

section \<open>A concrete program\<close>

text \<open>The kernel of \<open>kernel_small\<close> in user mode with a page of the program at \<open>0x400000\<close>, and an open directory.\<close>

definition kernel_user :: tasks where
  "kernel_user = kernel_dir\<lparr>pmem := mem_user, RING_0_MODE := 0\<rparr>"

lemma kernel_user_simps [simp]:
  "con kernel_user = console_boot" "RING_0_MODE kernel_user = 0" "inodes kernel_user = fs_heap"
  "root_inode kernel_user = 0x100" "dirs kernel_user = dirs kernel_dir"
  by (simp_all add: kernel_user_def kernel_dir_def)

lemma kernel_user_page: "rw_page 0x400000 0x21E000 kernel_user"
proof -
  have "machine.truncate kernel_user = machine_on mem_user"
    by (simp add: kernel_user_def kernel_dir_def kernel_small_def vfs.defs fs_small_def vmm.defs vm_small_def machine.defs machine_on_def)
  note m = pt_inv_extension[OF this user_tree(1)]
  have "0x21E000 \<notin> tables kernel_user" using user_tree(4) m(2,3) by auto
  moreover have "pt_tree (pmem kernel_user) (root kernel_user) (set (pool kernel_user))" using m(1) by (simp add: pt_inv_def)
  ultimately show ?thesis
    using user_tree(2,3) m(2,3)
    by (auto simp: rw_page_def indices_400000 page_aligned_def frame_of_def simp del: path.simps)
qed

lemma kernel_user_print: "can_print 0x400100 0x21E100 kernel_user"
  unfolding can_print_def
  by (intro conjI exI[where x = "0x400000"] exI[where x = "0x21E000"] exI[where x = "0x100"]) (use kernel_user_page in simp_all)

definition program_small :: program where
  "program_small = user.extend user_small \<lparr>lits = (\<lambda>_. 0), slot = 0x400100, pbuf = 0x400200, junk = 0\<rparr>"

lemma slot_small [simp]: "slot program_small = 0x400100"
  by (simp add: program_small_def user.defs)

end
