(* ===== verification/Shell_Spec.thy ===== *)
theory Shell_Spec
  imports Shell Programs_Spec
begin

text \<open>
  What the shell does with the user's screen and command lines.
\<close>

section \<open>Output of the shell\<close>

interpretation sp: text_loop "shputs_text u" "slot u" plain "shputs_loop u" for u
proof
  show "shputs_text u [] s = ureturn 0 s" for s by simp
  show "shputs_text u (ch # str) s = shputs_text u str (shown d plain ch s)"
    if "can_print (slot u) d s" "ascii ch" for d s ch str
    using print_char(1)[OF that, of u] by simp
  show "shputs_loop u a s = Some (ureturn 0 s)" if "uload8 a s = Inr (0, s)" for a s
    using that by (subst shputs_loop.simps) simp
  show "shputs_loop u a s = shputs_loop u (a + 1) (shown d plain ch s)"
    if "uload8 a s = Inr (of_char ch, s)" "can_print (slot u) d s" "ascii ch" for a s ch d
    using that(1) print_char(1)[OF that(2,3), of u] byte_ascii[OF that(3)] by (subst shputs_loop.simps) simp
qed

interpretation sc: text_loop "shputscolor_text u" "slot u" coloured "shputscolor_loop u" for u
proof
  show "shputscolor_text u [] s = ureturn 0 s" for s by simp
  show "shputscolor_text u (ch # str) s = shputscolor_text u str (shown d coloured ch s)"
    if "can_print (slot u) d s" "ascii ch" for d s ch str
    using print_char(2)[OF that, of u] by simp
  show "shputscolor_loop u a s = Some (ureturn 0 s)" if "uload8 a s = Inr (0, s)" for a s
    using that by (subst shputscolor_loop.simps) simp
  show "shputscolor_loop u a s = shputscolor_loop u (a + 1) (shown d coloured ch s)"
    if "uload8 a s = Inr (of_char ch, s)" "can_print (slot u) d s" "ascii ch" for a s ch d
    using that(1) print_char(2)[OF that(2,3), of u] byte_ascii[OF that(3)] by (subst shputscolor_loop.simps) simp
qed

text \<open>C24. Output of the shell, from the string in the memory of the process to the screen: for a text of ASCII characters
  in a page of the process, apart from the parameter of \<open>putchar\<close>, \<open>shputs\<close> makes one system call for each
  character, ends, returns 0 and changes nothing but the screen and the four bytes of that parameter;
  \<open>shputscolor\<close> does the same in colour. A text without newlines that fits before the end of the
  last text line then stands in consecutive cells from the old cursor on, and the cursor is behind it.\<close>

theorem shputs_prints:
  fixes s :: "'a kernel"
  assumes "can_print (slot u) d s" and "text_at d p str s" and "\<forall>ch \<in> set str. ascii ch"
  shows "\<exists>s' s''. shputs u p s = Inr (Inr 0, s') \<and> printed d (show_text str (con s)) s s' \<and>
     shputscolor u p s = Inr (Inr 0, s'') \<and> printed d (fold coloured str (con s)) s s'' \<and>
     (CHR 0x0A \<notin> set str \<and> data_written (con s) + length str \<le> 80 * 24 \<longrightarrow>
        video (con s') = video (con s) + 2 * of_nat (length str) \<and>
        (\<forall>i < length str. vram (con s') (video (con s) + 2 * of_nat i) = of_char (str ! i)))"
proof -
  obtain s' where s': "shputs_text u str s = Inr (Inr 0, s')" "printed d (show_text str (con s)) s s'"
    by (rule sp.put_prints[OF assms(1,3)])
  obtain s'' where s'': "shputscolor_text u str s = Inr (Inr 0, s'')" "printed d (fold coloured str (con s)) s s''"
    by (rule sc.put_prints[OF assms(1,3)])
  have "shputs u p s = Inr (Inr 0, s')" "shputscolor u p s = Inr (Inr 0, s'')"
    using sp.loop_put[OF assms(2,1,3)] sc.loop_put[OF assms(2,1,3)] s'(1) s''(1)
    by (simp_all add: shputs_def shputscolor_def)
  moreover have "con s' = show_text str (con s)" by (rule printed_con[OF s'(2)])
  moreover have "ch \<noteq> NUL" if "ch \<in> set str" for ch using assms(3) that by (auto simp: ascii_def)
  ultimately show ?thesis using s'(2) s''(2) show_text_cells[of "con s" str] by auto
qed

definition shell_small :: shell where
  "shell_small = program.extend program_small \<lparr>argv = 0x400600, status = 0x400700, cmdbuf = 0x400800\<rparr>"

lemma slot_shell [simp]: "slot shell_small = 0x400100"
  by (simp add: shell_small_def program_small_def program.defs user.defs)

section \<open>The command cd\<close>

lemma chdir_call:
  "chdir u q s = rbind (k_chdir ((uregs u)\<lparr>rax := 80, rdi := q\<rparr>) (s\<lparr>RING_0_MODE := 1\<rparr>))
     (\<lambda>(out, s). case out of Ret v \<Rightarrow> Inr (Inr (to_int32 v), s\<lparr>RING_0_MODE := 0\<rparr>) | _ \<Rightarrow> Inr (Inl out, s))"
  by (cases "k_chdir ((uregs u)\<lparr>rax := 80, rdi := q\<rparr>) (s\<lparr>RING_0_MODE := 1\<rparr>)")
    (auto simp: chdir_def ucall_def int80_def Let_def dispatch_def syscall_init_def ureturn_def split: outcome.splits)

text \<open>The process in slot \<open>a\<close> changes to a directory below its working directory \<open>d\<close>.\<close>

definition enter_dir :: "nat \<Rightarrow> string \<Rightarrow> 'a kernel \<Rightarrow> 'a kernel" where
  "enter_dir a pth s =
     (if directory_at pth s = None then s
      else s\<lparr>all_pro := (all_pro s)(a := (all_pro s a)\<lparr>currentDir := Some pth\<rparr>)\<rparr>)"

lemma chdir_below:
  fixes s :: "'a kernel"
  assumes "RING_0_MODE s = 0" and "active s = Some a" and "a < PROC_SIZE" and "currentDir (all_pro s a) = Some d" and "cstring d"
    and "fs_wf (inodes s) hi" and "root_inode s \<in> dom (inodes s)" and "holds_string s q nm" and "q \<noteq> 0"
    and "cget nm 0 \<notin> {CHR ''/'', CHR ''.''}" and "length d + length nm + 1 < 100"
  shows "\<exists>v k. chdir u q s = Inr (Inr v, enter_dir a (d @ nm @ ''/'') s\<lparr>kern_VA := k\<rparr>)"
proof -
  let ?r = "(uregs u)\<lparr>rax := 80, rdi := q\<rparr>" and ?s = "s\<lparr>RING_0_MODE := 1\<rparr>" and ?p = "d @ nm @ ''/''"
  have nm: "read_cstr q ?s = Inr (nm, ?s)" "cstring nm" using read_cstr_holds[of ?s q nm] assms(8) by (simp_all add: holds_string_def)
  have "cstring ?p" using nm(2) assms(5) by (simp add: cstring_def)
  then obtain k where k: "is_dir ?p ?s = Inr (directory_at ?p ?s \<noteq> None, ?s\<lparr>kern_VA := k\<rparr>)"
    using is_dir_spec[of ?s hi ?p] assms(6,7) by auto
  have dir: "directory_at ?p ?s = directory_at ?p s" by (simp add: directory_at_def cong: option.case_cong)
  have a: "act t = Inr a" if "active t = Some a" for t :: "'a kernel" using act_Some[OF that assms(3)] .
  let ?t = "enter_dir a ?p s\<lparr>kern_VA := k\<rparr>"
  have z: "?t\<lparr>RING_0_MODE := 0\<rparr> = ?t" by (rule ring_same) (simp add: assms(1) enter_dir_def)
  have "\<exists>v. k_chdir ?r ?s = Inr (Ret v, ?t\<lparr>RING_0_MODE := 1\<rparr>)"
    using assms(2-4,9-11) nm(1) k dir
    by (auto simp: k_chdir_def a deref_def Let_def buf100_def store_cwd_def upd_pcb_def enter_dir_def)
  then obtain v where "k_chdir ?r ?s = Inr (Ret v, ?t\<lparr>RING_0_MODE := 1\<rparr>)" by blast
  then have "chdir u q s = Inr (Inr (to_int32 v), ?t\<lparr>RING_0_MODE := 0\<rparr>)" by (simp add: chdir_call)
  then show ?thesis using z by auto
qed


text \<open>The line \<open>cd bin\<close> and its words in the page of the program.\<close>

definition cd_bytes :: "(nat \<times> u8) list" where
  "cd_bytes = zip [0x500..<0x507] (map of_char (''cd bin'' @ [NUL])) @
     zip [0x600..<0x610] [0, 7, 0x40, 0, 0, 0, 0, 0, 0x10, 7, 0x40, 0, 0, 0, 0, 0] @
     zip [0x700..<0x703] (map of_char (''cd'' @ [NUL])) @ zip [0x710..<0x714] (map of_char (''bin'' @ [NUL]))"

lemma cd_bytes_list:
  "cd_bytes = [(0x500, of_char CHR ''c''), (0x501, of_char CHR ''d''), (0x502, of_char CHR '' ''), (0x503, of_char CHR ''b''),
     (0x504, of_char CHR ''i''), (0x505, of_char CHR ''n''), (0x506, 0), (0x600, 0), (0x601, 7), (0x602, 0x40), (0x603, 0),
     (0x604, 0), (0x605, 0), (0x606, 0), (0x607, 0), (0x608, 0x10), (0x609, 7), (0x60A, 0x40), (0x60B, 0), (0x60C, 0),
     (0x60D, 0), (0x60E, 0), (0x60F, 0), (0x700, of_char CHR ''c''), (0x701, of_char CHR ''d''), (0x702, 0),
     (0x710, of_char CHR ''b''), (0x711, of_char CHR ''i''), (0x712, of_char CHR ''n''), (0x713, 0)]"
  by (simp add: cd_bytes_def upt_rec)

definition kernel_cd :: tasks where
  "kernel_cd = kernel_user\<lparr>pmem := fold (\<lambda>(e, v) m. m(0x21E000 + of_nat e := v)) cd_bytes (pmem kernel_user)\<rparr>"

lemma kernel_cd_simps [simp]:
  "RING_0_MODE kernel_cd = 0" "inodes kernel_cd = fs_heap" "root_inode kernel_cd = 0x100" "active kernel_cd = Some 0"
  "all_pro kernel_cd = pcb_small"
  by (simp_all add: kernel_cd_def kernel_user_def kernel_dir_def)

lemma kernel_cd_page: "rw_page 0x400000 0x21E000 kernel_cd"
  using rw_page_upds[OF kernel_user_page kernel_user_page, of cd_bytes] by (simp add: kernel_cd_def cd_bytes_list)

lemma kernel_cd_memory:
  "holds_string kernel_cd 0x400500 ''cd bin''" "holds_ptr kernel_cd 0x400600 0x400700" "holds_string kernel_cd 0x400700 ''cd''"
  "holds_ptr kernel_cd 0x400608 0x400710" "holds_string kernel_cd 0x400710 ''bin''"
proof -
  note m = kernel_cd_def cd_bytes_list cstring_def
  note s = holds_stringI[OF kernel_cd_page] and p = holds_ptrI[OF kernel_cd_page]
  show "holds_string kernel_cd 0x400500 ''cd bin''"
  proof (rule s[of _ "0x500"])
    fix k assume "k \<le> length ''cd bin''"
    then have "k \<in> {0, 1, 2, 3, 4, 5, 6}" by auto
    then show "pmem kernel_cd (0x21E000 + of_nat (0x500 + k)) = of_char (cget ''cd bin'' k)"
      by (elim insertE) (simp_all add: m cget_def)
  qed (simp_all add: m)
  show "holds_string kernel_cd 0x400700 ''cd''"
  proof (rule s[of _ "0x700"])
    fix k assume "k \<le> length ''cd''"
    then have "k \<in> {0, 1, 2}" by auto
    then show "pmem kernel_cd (0x21E000 + of_nat (0x700 + k)) = of_char (cget ''cd'' k)"
      by (elim insertE) (simp_all add: m cget_def)
  qed (simp_all add: m)
  show "holds_string kernel_cd 0x400710 ''bin''"
  proof (rule s[of _ "0x710"])
    fix k assume "k \<le> length ''bin''"
    then have "k \<in> {0, 1, 2, 3}" by auto
    then show "pmem kernel_cd (0x21E000 + of_nat (0x710 + k)) = of_char (cget ''bin'' k)"
      by (elim insertE) (simp_all add: m cget_def)
  qed (simp_all add: m)
  show "holds_ptr kernel_cd 0x400600 0x400700" "holds_ptr kernel_cd 0x400608 0x400710"
    by (rule p[of _ "0x600"] p[of _ "0x608"]; simp add: m load64_def upt_rec)+
qed


text \<open>The word \<open>bin\<close> in the same page is printed.\<close>

lemma kernel_cd_print:
  "can_print 0x400100 0x21E100 kernel_cd" "text_at 0x21E100 0x400710 ''bin'' kernel_cd" "con kernel_cd = console_boot"
proof -
  show "can_print 0x400100 0x21E100 kernel_cd"
    unfolding can_print_def
    by (intro conjI exI[where x = "0x400000"] exI[where x = "0x21E000"] exI[where x = "0x100"]) (simp_all add: kernel_cd_page)
  have "pmem kernel_cd (0x21E000 + of_nat (0x710 + k)) = of_char (cget ''bin'' k) \<and>
      0x21E000 + of_nat (0x710 + k) \<notin> {0x21E100, 0x21E100 + 1, 0x21E100 + 2, 0x21E100 + 3 :: u64}" if "k \<le> length ''bin''" for k
  proof -
    have "k \<in> {0, 1, 2, 3}" using that by auto
    then show ?thesis by (elim insertE) (simp_all add: kernel_cd_def cd_bytes_list cget_def)
  qed
  then show "text_at 0x21E100 0x400710 ''bin'' kernel_cd"
    unfolding text_at_def
    by (intro exI[where x = "0x400000"] exI[where x = "0x21E000"] exI[where x = "0x710"]) (simp add: kernel_cd_page)
  show "con kernel_cd = console_boot" by (simp add: kernel_cd_def)
qed

theorem shputs_prints_witness:
  "\<exists>s'. shputs shell_small 0x400710 kernel_cd = Inr (Inr 0, s') \<and>
     printed 0x21E100 (show_text ''bin'' console_boot) kernel_cd s' \<and>
     video (con s') = 0xB8000 + 2 * of_nat 3 \<and> vram (con s') 0xB8000 = of_char CHR ''b''"
proof -
  have "\<exists>s' s''. shputs shell_small 0x400710 kernel_cd = Inr (Inr 0, s') \<and>
     printed 0x21E100 (show_text ''bin'' (con kernel_cd)) kernel_cd s' \<and>
     shputscolor shell_small 0x400710 kernel_cd = Inr (Inr 0, s'') \<and>
     printed 0x21E100 (fold coloured ''bin'' (con kernel_cd)) kernel_cd s'' \<and>
     (CHR 0x0A \<notin> set ''bin'' \<and> data_written (con kernel_cd) + length ''bin'' \<le> 80 * 24 \<longrightarrow>
        video (con s') = video (con kernel_cd) + 2 * of_nat (length ''bin'') \<and>
        (\<forall>i < length ''bin''. vram (con s') (video (con kernel_cd) + 2 * of_nat i) = of_char (''bin'' ! i)))"
    by (rule shputs_prints) (use kernel_cd_print in \<open>simp_all add: ascii_def schar_def\<close>)
  then obtain s' where s': "shputs shell_small 0x400710 kernel_cd = Inr (Inr 0, s')"
      "printed 0x21E100 (show_text ''bin'' console_boot) kernel_cd s'"
      "video (con s') = 0xB8000 + 2 * of_nat 3" "\<forall>i < 3. vram (con s') (0xB8000 + 2 * of_nat i) = of_char (''bin'' ! i)"
    by (auto simp: kernel_cd_print(3) console_boot_def)
  then show ?thesis using s'(4)[rule_format, of 0] by auto
qed

section \<open>Lines\<close>

lemma count_blank: "length (filter (\<lambda>c. c = x) xs) < length xs \<longleftrightarrow> (\<exists>c \<in> set xs. c \<noteq> x)"
proof
  show "\<exists>c \<in> set xs. c \<noteq> x" if "length (filter (\<lambda>c. c = x) xs) < length xs"
    using that filter_True[of xs "\<lambda>c. c = x"] by fastforce
  show "length (filter (\<lambda>c. c = x) xs) < length xs" if "\<exists>c \<in> set xs. c \<noteq> x"
    using that length_filter_less[of _ xs "\<lambda>c. c = x"] by blast
qed

text \<open>
  A comment line of a script: its characters are not stored, so that its end writes to the byte before the
  array. The first line of every script is such a line.
\<close>

lemma script_comment_line:
  "script_char exec u CHR ''#'' [] False s = ureturn ([], True) s"
  "c \<noteq> CHR 0x0A \<Longrightarrow> script_char exec u c [] True s = ureturn ([], True) s"
  "script_char exec u CHR 0x0A [] True s = Inl OutOfBounds"
  by (simp_all add: script_char_def)

text \<open>A line is valid exactly when it is empty, or it does not begin with a newline and has a character that
  is not a blank.\<close>

theorem ValidString_lines:
  assumes "cstring ln" and "length ln < 2 ^ 63"
  shows "ValidString ln \<longleftrightarrow> ln = [] \<or> hd ln \<noteq> CHR 0x0A \<and> (\<exists>c \<in> set ln. c \<noteq> CHR '' '')"
proof (cases ln)
  case Nil
  then show ?thesis by (simp add: ValidString_def)
next
  case (Cons c cs)
  let ?b = "length (filter (\<lambda>c. c = CHR '' '') ln)"
  have b: "?b \<le> length ln" by simp
  have l: "unat (of_nat (length ln) :: u64) = length ln" by (rule unat_of_nat_small) (use assms(2) in simp)
  have "(1 :: u64) \<le> of_nat (length ln)" unfolding word_le_nat_alt l by (simp add: Cons)
  then have "unat (of_nat (length ln) - 1 :: u64) = length ln - 1" by (simp only: unat_sub l unat_1)
  moreover have "unat (of_nat ?b :: u64) = ?b" by (rule unat_of_nat_small) (use le_less_trans[OF b assms(2)] in simp)
  moreover have "?b \<le> length ln - 1 \<longleftrightarrow> ?b < length ln" unfolding Cons by (simp add: less_Suc_eq_le)
  ultimately have "(of_nat ?b :: u64) \<le> of_nat (length ln) - 1 \<longleftrightarrow> ?b < length ln" by (simp only: word_le_nat_alt)
  then show ?thesis using Cons count_blank[of "CHR '' ''" ln] strlen_cstring[OF assms(1)] by (simp add: ValidString_def)
qed

theorem ValidString_lines_witness:
  "ValidString ''ls'' \<longleftrightarrow> ''ls'' = [] \<or> hd ''ls'' \<noteq> CHR 0x0A \<and> (\<exists>c \<in> set ''ls''. c \<noteq> CHR '' '')"
  by (rule ValidString_lines) (simp_all add: cstring_def)

end
