(* ===== verification/Shell_Jobs.thy ===== *)
theory Shell_Jobs
  imports Shell
begin

text \<open>
  The parts of the shell for background processes and pipes: the list of background
  processes, the parser of a command with a pipe, and the functions that start a program
  by \<open>execvp\<close>. The running shell does not reach them; \<open>ExecuteBinary\<close> returns at once.
\<close>

section \<open>Background processes\<close>

record BackgroundChild =
  bpid :: int
  bnext :: u64
  bprev :: u64

text \<open>\<open>nodes\<close> is the part of the heap that holds the nodes.\<close>

record jobs =
  BgChildLL :: u64
  nodes :: "u64 \<Rightarrow> BackgroundChild option"

definition jobs_boot :: jobs where
  "jobs_boot = \<lparr>BgChildLL = 0, nodes = Map.empty\<rparr>"

definition getHead :: "jobs \<Rightarrow> u64" where
  "getHead j = BgChildLL j"

abbreviation upd_node :: "u64 \<Rightarrow> (BackgroundChild \<Rightarrow> BackgroundChild) \<Rightarrow> jobs \<Rightarrow> jobs" where
  "upd_node p f j \<equiv> j\<lparr>nodes := (nodes j)(p := map_option f (nodes j p))\<rparr>"

definition bg_link :: "u64 \<Rightarrow> BackgroundChild \<Rightarrow> BackgroundChild" where
  "bg_link p n = n\<lparr>bnext := p\<rparr>"

interpretation bl: list_node bnext bg_link
  by unfold_locales (simp add: bg_link_def)

text \<open>\<open>a\<close> is the address that \<open>malloc\<close> has returned.\<close>

definition AddNewBackgroundChildProcess :: "u64 \<Rightarrow> u64 \<Rightarrow> jobs \<Rightarrow> jobs res" where
  "AddNewBackgroundChildProcess child a j =
     (let j1 = j\<lparr>nodes := (nodes j)(a \<mapsto> \<lparr>bpid = to_int32 child, bnext = 0, bprev = 0\<rparr>)\<rparr>
      in if BgChildLL j = 0 then Inr (j1\<lparr>BgChildLL := a\<rparr>)
         else rbind (run_loop (last_node bnext (nodes j1) (BgChildLL j1))) (\<lambda>lastNode.
           Inr (upd_node a (\<lambda>n. n\<lparr>bprev := lastNode\<rparr>) (upd_node lastNode (bg_link a) j1))))"

text \<open>
  The body of the loop for a node with the number that is looked for. The successor of the
  first node gets its own address as its predecessor, since the head has been moved before. The
  neighbours it writes to are there (\<open>neighbours_ok\<close>); otherwise the loop below stops.
\<close>

definition neighbours_ok :: "BackgroundChild \<Rightarrow> jobs \<Rightarrow> bool" where
  "neighbours_ok n j \<longleftrightarrow>
     (bprev n \<noteq> 0 \<longrightarrow> nodes j (bprev n) \<noteq> None) \<and> (bnext n \<noteq> 0 \<longrightarrow> nodes j (bnext n) \<noteq> None)"

definition unlink_child :: "u64 \<Rightarrow> BackgroundChild \<Rightarrow> jobs \<Rightarrow> jobs" where
  "unlink_child temp n j =
     (if bprev n \<noteq> 0 then
        (let j1 = upd_node (bprev n) (bg_link (bnext n)) j
         in if bnext n \<noteq> 0 then upd_node (bnext n) (\<lambda>m. m\<lparr>bprev := bprev n\<rparr>) j1 else j1)
      else
        (let j1 = j\<lparr>BgChildLL := bnext n\<rparr>
         in if bnext n \<noteq> 0 then upd_node (bnext n) (\<lambda>m. m\<lparr>bprev := BgChildLL j1\<rparr>) j1 else j1))"

partial_function (option) bgremove_loop :: "u64 \<Rightarrow> u64 \<Rightarrow> jobs \<Rightarrow> jobs res option" where
  "bgremove_loop child temp j =
     (if temp = 0 then Some (Inr j)
      else case nodes j temp of
        None \<Rightarrow> Some (Inl NullPointer)
      | Some n \<Rightarrow>
          if of_int (bpid n) = child \<and> \<not> neighbours_ok n j then Some (Inl NullPointer)
          else
          (let j = (if of_int (bpid n) = child then unlink_child temp n j else j)
           in case nodes j temp of
                None \<Rightarrow> Some (Inl NullPointer)
              | Some n \<Rightarrow> bgremove_loop child (bnext n) j))"

definition RemoveBackgroundChildProcess :: "u64 \<Rightarrow> jobs \<Rightarrow> jobs res" where
  "RemoveBackgroundChildProcess child j = run_loop (bgremove_loop child (BgChildLL j) j)"

text \<open>\<open>poll\<close> ends with the first process that has died; \<open>WNOHANG\<close> is 1.\<close>

partial_function (option) poll_loop ::
    "'u shell_scheme \<Rightarrow> u64 \<Rightarrow> jobs \<Rightarrow> 'a kernel \<Rightarrow> (jobs, 'a) ures option" where
  "poll_loop u child j s =
     (if child = 0 then Some (ureturn j s)
      else case nodes j child of
        None \<Rightarrow> Some (Inl NullPointer)
      | Some n \<Rightarrow>
          (case waitpid u (slot u) (junk u) (bpid n) 0 1 s of
             Inl e \<Rightarrow> Some (Inl e)
           | Inr (Inl out, s) \<Rightarrow> Some (Inr (Inl out, s))
           | Inr (Inr r, s) \<Rightarrow>
               if r > 0
               then Some (rbind (RemoveBackgroundChildProcess (of_int (bpid n)) j) (\<lambda>j. ureturn j s))
               else poll_loop u (bnext n) j s))"

definition poll :: "'u shell_scheme \<Rightarrow> jobs \<Rightarrow> 'a kernel \<Rightarrow> (jobs, 'a) ures" where
  "poll u j s = run_loop (poll_loop u (getHead j) j s)"

section \<open>Programs by their name\<close>

text \<open>
  The code behind \<open>fork\<close> in \<open>__Execute\<close> and \<open>__ExecuteVE\<close>, which differ in the function \<open>ex\<close> that is
  called by the child. \<open>myArgs\<close> has room for four pointers, the terminating one included.
\<close>

definition fork_exec :: "('u shell_scheme \<Rightarrow> u64 \<Rightarrow> 'a kernel \<Rightarrow> (int, 'a) ures) \<Rightarrow> 'u shell_scheme \<Rightarrow> u64 \<Rightarrow> 'a kernel \<Rightarrow>
    (int, 'a) ures" where
  "fork_exec ex u child s =
     (if child = 0 then ubind (ex u (slot u) s) (\<lambda>_ s. ubind (exit u 0 s) (\<lambda>_. ureturn 0))
      else ubind (waitpid u (slot u) (junk u) (to_int32 child) 0 0 s) (\<lambda>_. ureturn 0))"

definition Execute_vp :: "'u shell_scheme \<Rightarrow> nat \<Rightarrow> 'a kernel \<Rightarrow> (int, 'a) ures" where
  "Execute_vp u vecCount s =
     (if vecCount > 3 then Inl OutOfBounds else ubind (fork u s) (fork_exec execvp u))"

definition Execute_ve :: "'u shell_scheme \<Rightarrow> nat \<Rightarrow> 'a kernel \<Rightarrow> (int, 'a) ures" where
  "Execute_ve u vecCount s =
     (if vecCount > 3 then Inl OutOfBounds else ubind (fork u s) (fork_exec execve u))"

text \<open>In \<open>__ExecuteAsync\<close> the child adds itself, with the number 0, to its own copy of the list.\<close>

definition ExecuteAsync :: "'u shell_scheme \<Rightarrow> jobs \<Rightarrow> 'a kernel \<Rightarrow> (jobs \<times> int, 'a) ures" where
  "ExecuteAsync u j s =
     ubind (fork u s) (\<lambda>childy s.
     ubind (malloc u 24 s) (\<lambda>a s.
     rbind (AddNewBackgroundChildProcess childy a j) (\<lambda>j.
     ubind (if childy = 0 then ubind (execvp u (slot u) s) (\<lambda>_. exit u 0) else ureturn () s) (\<lambda>_ s.
     ubind (poll u j s) (\<lambda>j. ureturn (j, 0))))))"

definition ExecuteBinary :: "'a kernel \<Rightarrow> (int, 'a) ures" where
  "ExecuteBinary s = ureturn 1 s"

section \<open>Pipes\<close>

record command =
  ccmd :: "string option"
  cargs :: "string option list"

text \<open>The vector of words ends with the null pointer.\<close>

definition word_at :: "string list \<Rightarrow> nat \<Rightarrow> string option" where
  "word_at vector i = (if i < length vector then Some (vector ! i) else None)"

definition CheckIfPipeCommand :: "string list \<Rightarrow> bool" where
  "CheckIfPipeCommand vector = (\<exists>w \<in> set vector. strncmp w ''|'' 1 = 0)"

definition set_arg :: "nat \<Rightarrow> string option \<Rightarrow> command \<Rightarrow> command res" where
  "set_arg i w c = (if i < length (cargs c) then Inr (c\<lparr>cargs := (cargs c)[i := w]\<rparr>) else Inl OutOfBounds)"

text \<open>The first loop compares a word before it tests the index.\<close>

function parse_first :: "string list \<Rightarrow> nat \<Rightarrow> command \<Rightarrow> (nat \<times> command) res" where
  "parse_first vector pos cmd1 =
     (if pos < length vector then
        (if strncmp (vector ! pos) ''|'' 1 \<noteq> 0
         then rbind (set_arg pos (Some (vector ! pos)) cmd1) (parse_first vector (pos + 1))
         else Inr (pos, cmd1))
      else Inl NullPointer)"
  by pat_completeness auto
termination by (relation "measure (\<lambda>(vector, pos, _). length vector - pos)") auto

declare parse_first.simps [simp del]

definition ParsePipeCommand :: "command \<Rightarrow> command \<Rightarrow> string list \<Rightarrow> (command \<times> command) res" where
  "ParsePipeCommand cmd1 cmd2 vector =
     rbind (set_arg 0 (word_at vector 0) (cmd1\<lparr>ccmd := word_at vector 0\<rparr>)) (\<lambda>cmd1.
     rbind (parse_first vector 1 cmd1) (\<lambda>(pos, cmd1).
     rbind (set_arg pos None cmd1) (\<lambda>cmd1.
       if pos \<ge> length vector then Inr (cmd1, cmd2)
       else
         (let pos = pos + 1; rest = drop pos vector
          in rbind (rfold (\<lambda>i. set_arg i (Some (rest ! i))) [0..<length rest] (cmd2\<lparr>ccmd := word_at vector pos\<rparr>)) (\<lambda>cmd2.
             rbind (set_arg (length rest) None cmd2) (\<lambda>cmd2. Inr (cmd1, cmd2)))))))"

section \<open>Directory listing\<close>

text \<open>\<open>MyLS\<close>, which the shell has replaced by the program \<open>ls\<close>.\<close>

definition MyLS :: "'u program_scheme \<Rightarrow> u64 \<Rightarrow> 'a kernel \<Rightarrow> (int, 'a) ures" where
  "MyLS u pth s =
     ubind (opendir u pth s) (\<lambda>dir s.
       if dir = 0 then ureturn (-1) s
       else
         ubind (run_loop (dir_loop (\<lambda>nm. printf u (slot u) (pbuf u) (''%s'' @ [CHR 0x0A]) [VStr nm]) u dir s)) (\<lambda>_ s.
         ubind (closedir u dir s) (\<lambda>_. ureturn 1)))"

section \<open>The environment\<close>

text \<open>The functions of the environment print a message and return.\<close>

definition getAllEnvironmentVaiables :: "'u program_scheme \<Rightarrow> 'a kernel \<Rightarrow> (u64, 'a) ures" where
  "getAllEnvironmentVaiables u s =
     ubind (puts_literal u (slot u) (''Need to implement getAllEnvironmentVaiables'' @ [CHR 0x0A]) s) (\<lambda>_. ureturn 0)"

definition setenv :: "'u program_scheme \<Rightarrow> 'a kernel \<Rightarrow> (int, 'a) ures" where
  "setenv u s = ubind (puts_literal u (slot u) (''Need to implement setenv'' @ [CHR 0x0A]) s) (\<lambda>_. ureturn 0)"

definition getenv :: "'u program_scheme \<Rightarrow> 'a kernel \<Rightarrow> (u64, 'a) ures" where
  "getenv u s = ubind (puts_literal u (slot u) (''Need to implement getenv'' @ [CHR 0x0A]) s) (\<lambda>_. ureturn 0)"

definition bootsetenv :: "'u program_scheme \<Rightarrow> 'a kernel \<Rightarrow> (int, 'a) ures" where
  "bootsetenv u s = ubind (puts_literal u (slot u) (''Need to implement bootsetenv'' @ [CHR 0x0A]) s) (\<lambda>_. ureturn (-1))"

definition getenvArgs :: "'u program_scheme \<Rightarrow> 'a kernel \<Rightarrow> (u64, 'a) ures" where
  "getenvArgs u s = ubind (puts_literal u (slot u) (''Need to implement getenvArgs'' @ [CHR 0x0A]) s) (\<lambda>_. ureturn 0)"

definition ExportEnvVar :: "'u program_scheme \<Rightarrow> 'a kernel \<Rightarrow> (int, 'a) ures" where
  "ExportEnvVar u s = ubind (puts_literal u (slot u) (''Need to implement ExportEnvVar'' @ [CHR 0x0A]) s) (\<lambda>_. ureturn (-1))"

end
