(* ===== verification/Shell_Jobs_Spec.thy ===== *)
theory Shell_Jobs_Spec
  imports Shell_Jobs
begin

text \<open>
  The list of background processes against an abstract list of process numbers, and the parser
  of a command with a pipe.
\<close>

section \<open>The list of background processes\<close>

text \<open>
  The nodes \<open>xs\<close> from \<open>p\<close> on are linked in both directions; \<open>q\<close> is the predecessor of the first and \<open>r\<close> the
  successor of the last.
\<close>

fun seg :: "(u64 \<Rightarrow> BackgroundChild option) \<Rightarrow> u64 \<Rightarrow> u64 \<Rightarrow> u64 list \<Rightarrow> u64 \<Rightarrow> bool" where
  "seg h q p [] r \<longleftrightarrow> p = r"
| "seg h q p (a # as) r \<longleftrightarrow> p = a \<and> a \<noteq> 0 \<and>
     (case h a of None \<Rightarrow> False | Some n \<Rightarrow> bprev n = q \<and> seg h a (bnext n) as r)"

text \<open>
  The predecessor of the first node is the null pointer, or the node itself when \<open>own\<close> is set, as it
  is after a removal at the head.
\<close>

definition bg_nodes :: "bool \<Rightarrow> u64 list \<Rightarrow> jobs \<Rightarrow> bool" where
  "bg_nodes own xs j \<longleftrightarrow> seg (nodes j) (if own then BgChildLL j else 0) (BgChildLL j) xs 0 \<and> distinct xs \<and>
     (own \<longrightarrow> xs \<noteq> [])"

definition bg_pids :: "u64 list \<Rightarrow> jobs \<Rightarrow> int list" where
  "bg_pids xs j = map (\<lambda>a. bpid (the (nodes j a))) xs"

text \<open>The abstract list: whether the first entry is stuck, and the process numbers.\<close>

type_synonym bg = "bool \<times> int list"

definition bg_abs :: "jobs \<Rightarrow> bg \<Rightarrow> bool" where
  "bg_abs j x \<longleftrightarrow> (\<exists>xs. bg_nodes (fst x) xs j \<and> bg_pids xs j = snd x)"

fun bg_add :: "u64 \<Rightarrow> bg \<Rightarrow> bg" where
  "bg_add child (own, ps) = (own, ps @ [to_int32 child])"

text \<open>A removal takes out every entry with the number, except a first entry that is stuck; the successor of a first entry that is taken out is stuck from then on.\<close>

fun bg_remove :: "u64 \<Rightarrow> bg \<Rightarrow> bg" where
  "bg_remove child (own, []) = (own, [])"
| "bg_remove child (own, p # ps) =
     (if of_int p \<noteq> child \<or> own then (own, p # filter (\<lambda>q. of_int q \<noteq> child) ps)
      else (ps \<noteq> [], take 1 ps @ filter (\<lambda>q. of_int q \<noteq> child) (drop 1 ps)))"

lemma seg_cong: "(\<And>a. a \<in> set xs \<Longrightarrow> h' a = h a) \<Longrightarrow> seg h' q p xs r = seg h q p xs r"
  by (induction xs arbitrary: p q) (auto split: option.splits)

lemma seg_upd: "a \<notin> set xs \<Longrightarrow> seg (h(a := v)) q p xs r = seg h q p xs r"
  by (rule seg_cong) auto

lemma seg_append: "seg h q p (xs @ ys) r \<longleftrightarrow> (\<exists>m. seg h q p xs m \<and> seg h (last (q # xs)) m ys r)"
  by (induction xs arbitrary: p q) (auto split: option.splits)

lemma seg_in: "seg h q p xs r \<Longrightarrow> a \<in> set xs \<Longrightarrow> a \<noteq> 0 \<and> h a \<noteq> None"
  by (induction xs arbitrary: p q) (auto split: option.splits)

lemma seg_chain: "seg h q p xs 0 \<Longrightarrow> chain bnext h p xs"
  by (induction xs arbitrary: p q) (auto split: option.splits)

lemma seg_set_next:
  assumes "seg h q p xs r" and "xs \<noteq> []" and "distinct xs"
  shows "seg (h(last xs := map_option (bg_link w) (h (last xs)))) q p xs w"
proof -
  obtain ys l where xs: "xs = ys @ [l]" using assms(2) by (cases xs rule: rev_cases) auto
  have "seg h q p ys l" "h l \<noteq> None" "l \<noteq> 0" "bprev (the (h l)) = last (q # ys)"
    using assms(1) xs by (auto simp: seg_append split: option.splits)
  moreover have "l \<notin> set ys" using assms(3) xs by simp
  ultimately show ?thesis using xs by (auto simp: seg_append bg_link_def seg_upd)
qed

lemma seg_set_prev:
  assumes "seg h q p (a # xs) r" and "a \<notin> set xs"
  shows "seg (h(a := map_option (\<lambda>m. m\<lparr>bprev := q'\<rparr>) (h a))) q' p (a # xs) r"
proof -
  obtain n where n: "p = a" "a \<noteq> 0" "h a = Some n" "seg h a (bnext n) xs r" using assms(1) by (auto split: option.splits)
  then show ?thesis using assms(2) by (simp add: seg_upd)
qed

text \<open>The operations change links only.\<close>

definition same_pids :: "jobs \<Rightarrow> jobs \<Rightarrow> bool" where
  "same_pids j j' \<longleftrightarrow> (\<forall>a. map_option bpid (nodes j' a) = map_option bpid (nodes j a))"

lemma same_pids_refl [simp]: "same_pids j j"
  by (simp add: same_pids_def)

lemma same_pids_trans: "same_pids i j \<Longrightarrow> same_pids j k \<Longrightarrow> same_pids i k"
  by (simp add: same_pids_def)

lemma same_pids_upd:
  assumes "\<And>n. bpid (f n) = bpid n"
  shows "same_pids j (upd_node a f j)"
  using assms by (auto simp: same_pids_def option.map_comp comp_def)

section \<open>Removal\<close>

abbreviation hits :: "u64 \<Rightarrow> jobs \<Rightarrow> u64 \<Rightarrow> bool" where
  "hits child j a \<equiv> of_int (bpid (the (nodes j a))) = child"

lemma hits_same: "same_pids j j' \<Longrightarrow> nodes j a \<noteq> None \<Longrightarrow> hits child j' a = hits child j a"
proof -
  assume "same_pids j j'" "nodes j a \<noteq> None"
  then have "map_option bpid (nodes j' a) = map_option bpid (nodes j a)" "nodes j a \<noteq> None" by (auto simp: same_pids_def)
  then show ?thesis by auto
qed

lemma unlink_pids: "same_pids j (unlink_child v n j)"
  by (auto simp: unlink_child_def Let_def same_pids_def bg_link_def option.map_comp comp_def)

lemma seg_neighbours:
  "seg h q p xs r \<Longrightarrow> a \<in> set xs \<Longrightarrow> h a = Some n \<Longrightarrow> bprev n \<in> insert q (set xs) \<and> bnext n \<in> insert r (set xs)"
proof (induction xs arbitrary: p q)
  case (Cons x xs)
  then obtain m where m: "h x = Some m" "bprev m = q" "seg h x (bnext m) xs r" by (auto split: option.splits)
  have "bnext m \<in> insert r (set xs)" using m(3) by (cases xs) auto
  then show ?case using Cons.IH[OF m(3)] Cons.prems(2,3) m by (cases "a = x") auto
qed simp

lemma bg_neighbours:
  assumes "bg_nodes own xs j" and "a \<in> set xs" and "nodes j a = Some n"
  shows "neighbours_ok n j"
proof -
  have s: "seg (nodes j) (if own then BgChildLL j else 0) (BgChildLL j) xs 0" using assms(1) by (simp add: bg_nodes_def)
  have "BgChildLL j \<in> set xs" using s assms(2) by (cases xs) auto
  then have "bprev n \<in> insert 0 (set xs)" "bnext n \<in> insert 0 (set xs)"
    using seg_neighbours[OF s assms(2,3)] by (auto split: if_splits)
  then show ?thesis using seg_in[OF s] unfolding neighbours_ok_def by blast
qed

text \<open>Taking a node out behind others.\<close>

lemma unlink_behind:
  assumes "bg_nodes own (us @ v # vs) j" and "us \<noteq> []" and "nodes j v = Some n"
  shows "bg_nodes own (us @ vs) (unlink_child v n j)" and "nodes (unlink_child v n j) v = Some n"
proof -
  let ?q = "if own then BgChildLL j else 0" and ?h = "nodes j" and ?l = "last us"
  have s: "seg ?h ?q (BgChildLL j) us v" "seg ?h ?l v (v # vs) 0" and d: "distinct (us @ v # vs)"
    using assms(1,2) by (auto simp: bg_nodes_def seg_append)
  have n: "bprev n = ?l" "seg ?h v (bnext n) vs 0" "v \<noteq> 0" using s(2) assms(3) by auto
  have l: "?l \<in> set us" "?l \<noteq> 0" using seg_in[OF s(1)] assms(2) by auto
  define h1 where "h1 = ?h(?l := map_option (bg_link (bnext n)) (?h ?l))"
  have s1: "seg h1 ?q (BgChildLL j) us (bnext n)" unfolding h1_def by (rule seg_set_next[OF s(1) assms(2)]) (use d in simp)
  have s2: "seg h1 v (bnext n) vs 0" unfolding h1_def using n(2) d l(1) by (subst seg_upd) auto
  have v1: "h1 v = Some n" using assms(3) d l by (auto simp: h1_def)
  show "bg_nodes own (us @ vs) (unlink_child v n j)" "nodes (unlink_child v n j) v = Some n"
  proof -
    show "nodes (unlink_child v n j) v = Some n"
    proof (cases vs)
      case Nil
      then show ?thesis using n l v1 by (simp add: unlink_child_def Let_def h1_def)
    next
      case (Cons w ws)
      then have "bnext n = w" "w \<noteq> v" "w \<noteq> 0" using n(2) d by auto
      then show ?thesis using n l v1 by (simp add: unlink_child_def Let_def h1_def)
    qed
    show "bg_nodes own (us @ vs) (unlink_child v n j)"
    proof (cases vs)
      case Nil
      then show ?thesis using s1 n l d assms(2) by (simp add: bg_nodes_def unlink_child_def Let_def h1_def split: if_splits)
    next
      case (Cons w ws)
      then have w: "bnext n = w" "w \<noteq> 0" "w \<notin> set us" "w \<notin> set ws" using n(2) d by (auto split: option.splits)
      define h2 where "h2 = h1(w := map_option (\<lambda>m. m\<lparr>bprev := ?l\<rparr>) (h1 w))"
      have "seg h2 ?l w (w # ws) 0" unfolding h2_def by (rule seg_set_prev[of _ v]) (use s2 Cons w in auto)
      moreover have "seg h2 ?q (BgChildLL j) us w" unfolding h2_def using s1 w by (subst seg_upd) auto
      ultimately have "seg h2 ?q (BgChildLL j) (us @ vs) 0" using Cons assms(2) by (auto simp: seg_append)
      moreover have "unlink_child v n j = j\<lparr>nodes := h2\<rparr>" using n l w by (simp add: unlink_child_def Let_def h1_def h2_def)
      ultimately show ?thesis using d assms(2) by (simp add: bg_nodes_def split: if_splits)
    qed
  qed
qed

text \<open>The loop from a node that has others before it.\<close>

lemma remove_behind:
  assumes "bg_nodes own (us @ vs) j" and "us \<noteq> []"
  shows "\<exists>j'. bgremove_loop child (hd (vs @ [0])) j = Some (Inr j') \<and> same_pids j j' \<and>
    bg_nodes own (us @ filter (\<lambda>a. \<not> hits child j a) vs) j'"
  using assms
proof (induction vs arbitrary: us j)
  case Nil
  then show ?case by (intro exI[of _ j]) (simp add: bgremove_loop.simps)
next
  case (Cons v vs)
  have s: "seg (nodes j) (last us) v (v # vs) 0" using Cons.prems by (auto simp: bg_nodes_def seg_append)
  have sv: "\<forall>a \<in> set (v # vs). nodes j a \<noteq> None" using seg_in[OF s] by blast
  obtain n where n: "nodes j v = Some n" "v \<noteq> 0" "seg (nodes j) v (bnext n) vs 0" using s by (auto split: option.splits)
  have nx: "bnext n = hd (vs @ [0])" using n(3) by (cases vs) auto
  define j1 where "j1 = (if of_int (bpid n) = child then unlink_child v n j else j)"
  define us1 where "us1 = (if of_int (bpid n) = child then us else us @ [v])"
  have b: "bg_nodes own (us1 @ vs) j1" "same_pids j j1" "nodes j1 v = Some n" "us1 \<noteq> []"
    using unlink_behind[OF Cons.prems n(1)] unlink_pids Cons.prems n(1) by (simp_all add: j1_def us1_def)
  obtain j' where j': "bgremove_loop child (hd (vs @ [0])) j1 = Some (Inr j')" "same_pids j1 j'"
      "bg_nodes own (us1 @ filter (\<lambda>a. \<not> hits child j1 a) vs) j'"
    using Cons.IH[OF b(1,4)] by auto
  have f: "filter (\<lambda>a. \<not> hits child j1 a) vs = filter (\<lambda>a. \<not> hits child j a) vs"
    by (rule filter_cong[OF refl]) (use hits_same[OF b(2)] sv in auto)
  have "bgremove_loop child v j = Some (Inr j')"
    using j'(1) n b(3) nx bg_neighbours[OF Cons.prems(1) _ n(1)] by (subst bgremove_loop.simps) (simp add: Let_def j1_def)
  moreover have "bg_nodes own (us @ filter (\<lambda>a. \<not> hits child j a) (v # vs)) j'"
    using j'(3) n(1) unfolding f by (auto simp: us1_def split: if_splits)
  ultimately show ?case using same_pids_trans[OF b(2) j'(2)] by auto
qed

text \<open>The loop from a first node that is kept: it has another number, or it is stuck.\<close>

lemma unlink_stuck:
  assumes "bg_nodes True (v # vs) j" and "nodes j v = Some n"
  shows "unlink_child v n j = j"
proof -
  have n: "bprev n = v" "v \<noteq> 0" "seg (nodes j) v (bnext n) vs 0" "BgChildLL j = v" using assms by (auto simp: bg_nodes_def)
  have v: "(nodes j)(v := map_option (bg_link (bnext n)) (nodes j v)) = nodes j" using assms(2) by (auto simp: bg_link_def)
  have "(nodes j)(bnext n := map_option (\<lambda>m. m\<lparr>bprev := v\<rparr>) (nodes j (bnext n))) = nodes j" if "bnext n \<noteq> 0"
    using n(3) that by (cases vs) (auto split: option.splits)
  then show ?thesis using n v by (simp add: unlink_child_def Let_def)
qed

lemma remove_kept_head:
  assumes "bg_nodes own (v # vs) j" and "own \<or> \<not> hits child j v"
  shows "\<exists>j'. bgremove_loop child v j = Some (Inr j') \<and> same_pids j j' \<and>
    bg_nodes own (v # filter (\<lambda>a. \<not> hits child j a) vs) j'"
proof -
  obtain n where n: "nodes j v = Some n" "v \<noteq> 0" "seg (nodes j) v (bnext n) vs 0"
    using assms(1) by (auto simp: bg_nodes_def split: option.splits)
  have nx: "bnext n = hd (vs @ [0])" using n(3) by (cases vs) auto
  have "(if of_int (bpid n) = child then unlink_child v n j else j) = j"
    using assms n(1) unlink_stuck[of v vs j n] by auto
  moreover obtain j' where j': "bgremove_loop child (hd (vs @ [0])) j = Some (Inr j')" "same_pids j j'"
      "bg_nodes own ([v] @ filter (\<lambda>a. \<not> hits child j a) vs) j'"
    using remove_behind[where child = child, of own "[v]" vs j] assms(1) by auto
  ultimately have "bgremove_loop child v j = Some (Inr j')"
    using n nx bg_neighbours[OF assms(1) _ n(1)] by (subst bgremove_loop.simps) (simp add: Let_def)
  then show ?thesis using j' by auto
qed

text \<open>Taking out the first node.\<close>

lemma unlink_head:
  assumes "bg_nodes False (v # vs) j" and "nodes j v = Some n"
  shows "bg_nodes (vs \<noteq> []) vs (unlink_child v n j)" and "nodes (unlink_child v n j) v = Some n" and "BgChildLL (unlink_child v n j) = hd (vs @ [0])"
proof -
  have n: "bprev n = 0" "seg (nodes j) v (bnext n) vs 0" "v \<notin> set vs" "distinct vs"
    using assms by (auto simp: bg_nodes_def)
  have "bg_nodes (vs \<noteq> []) vs (unlink_child v n j) \<and> nodes (unlink_child v n j) v = Some n \<and>
      BgChildLL (unlink_child v n j) = hd (vs @ [0])"
  proof (cases vs)
    case Nil
    then show ?thesis using n assms(2) by (simp add: unlink_child_def Let_def bg_nodes_def)
  next
    case (Cons w ws)
    then have w: "bnext n = w" "w \<noteq> 0" "w \<notin> set ws" "w \<noteq> v" using n by (auto split: option.splits)
    let ?h = "(nodes j)(w := map_option (\<lambda>m. m\<lparr>bprev := w\<rparr>) (nodes j w))"
    have "seg ?h w w (w # ws) 0" by (rule seg_set_prev[of _ v]) (use n(2) Cons w in auto)
    moreover have "unlink_child v n j = j\<lparr>BgChildLL := w, nodes := ?h\<rparr>" using n(1) w by (simp add: unlink_child_def Let_def)
    ultimately show ?thesis using Cons w n assms(2) by (simp add: bg_nodes_def)
  qed
  then show "bg_nodes (vs \<noteq> []) vs (unlink_child v n j)" "nodes (unlink_child v n j) v = Some n"
      "BgChildLL (unlink_child v n j) = hd (vs @ [0])" by auto
qed

lemma bg_pids_same: "same_pids j j' \<Longrightarrow> bg_nodes own xs j \<Longrightarrow> set ys \<subseteq> set xs \<Longrightarrow> bg_pids ys j' = bg_pids ys j"
proof -
  assume a: "same_pids j j'" "bg_nodes own xs j" "set ys \<subseteq> set xs"
  have "bpid (the (nodes j' y)) = bpid (the (nodes j y))" if "y \<in> set ys" for y
  proof -
    have "nodes j y \<noteq> None" using a(2,3) that seg_in by (fastforce simp: bg_nodes_def)
    moreover have "map_option bpid (nodes j' y) = map_option bpid (nodes j y)" using a(1) by (simp add: same_pids_def)
    ultimately show ?thesis by auto
  qed
  then show ?thesis by (simp add: bg_pids_def)
qed

lemma bg_pids_simps [simp]: "bg_pids [] j = []" "bg_pids (v # xs) j = bpid (the (nodes j v)) # bg_pids xs j"
  by (simp_all add: bg_pids_def)

lemma bg_pids_filter: "bg_pids (filter (\<lambda>a. \<not> hits child j a) xs) j = filter (\<lambda>q. of_int q \<noteq> child) (bg_pids xs j)"
  by (simp add: bg_pids_def filter_map comp_def)

lemma remove_free_head:
  assumes "bg_nodes False (v # vs) j" and "hits child j v"
  obtains j' ys where "bgremove_loop child v j = Some (Inr j')" and "same_pids j j'" and "bg_nodes (vs \<noteq> []) ys j'"
    and "bg_pids ys j' = take 1 (bg_pids vs j) @ filter (\<lambda>q. of_int q \<noteq> child) (drop 1 (bg_pids vs j))"
proof -
  obtain n where n: "nodes j v = Some n" "v \<noteq> 0" using assms(1) by (auto simp: bg_nodes_def split: option.splits)
  define j1 where "j1 = unlink_child v n j"
  have u: "bg_nodes (vs \<noteq> []) vs j1" "same_pids j j1" "nodes j1 v = Some n" "BgChildLL j1 = hd (vs @ [0])"
    using unlink_head[of v vs j n] unlink_pids assms(1) n by (simp_all add: j1_def)
  have nx: "bnext n = hd (vs @ [0])" using assms(1) n by (cases vs) (auto simp: bg_nodes_def)
  have step: "bgremove_loop child v j = bgremove_loop child (hd (vs @ [0])) j1"
    using n assms(2) u(3) nx bg_neighbours[OF assms(1) _ n(1)] by (subst bgremove_loop.simps) (simp add: Let_def j1_def)
  show thesis
  proof (cases vs)
    case Nil
    then show thesis using that[of j1 "[]"] step u by (simp add: bgremove_loop.simps)
  next
    case (Cons w ws)
    let ?F = "filter (\<lambda>a. \<not> hits child j1 a) ws"
    obtain j' where j': "bgremove_loop child w j1 = Some (Inr j')" "same_pids j1 j'" "bg_nodes True (w # ?F) j'"
      using remove_kept_head[where child = child, of True w ws j1] u(1) Cons by auto
    have "bg_pids (w # ?F) j' = bg_pids (w # ?F) j1" by (rule bg_pids_same[OF j'(2) u(1)]) (use Cons in auto)
    moreover have "bg_pids (w # ws) j1 = bg_pids (w # ws) j" by (rule bg_pids_same[OF u(2) assms(1)]) (use Cons in auto)
    ultimately show thesis
      using that[of j' "w # ?F"] j' same_pids_trans[OF u(2) j'(2)] step Cons by (simp add: bg_pids_filter)
  qed
qed

lemma same_pids_dom: "same_pids j j' \<Longrightarrow> dom (nodes j') = dom (nodes j)"
  unfolding same_pids_def dom_def by (metis option.map_disc_iff)

lemma remove_refines:
  assumes "bg_abs j x"
  shows "\<exists>j'. RemoveBackgroundChildProcess child j = Inr j' \<and> bg_abs j' (bg_remove child x) \<and> dom (nodes j') = dom (nodes j)"
proof -
  obtain own ps where x: "x = (own, ps)" by (cases x)
  obtain xs where xs: "bg_nodes own xs j" "bg_pids xs j = ps" using assms x by (auto simp: bg_abs_def)
  show ?thesis
  proof (cases xs)
    case Nil
    then have "BgChildLL j = 0" "ps = []" using xs by (simp_all add: bg_nodes_def)
    then show ?thesis
      using assms x by (intro exI[of _ j]) (simp add: RemoveBackgroundChildProcess_def bgremove_loop.simps)
  next
    case (Cons v vs)
    then have h: "BgChildLL j = v" "v \<noteq> 0" using xs(1) by (auto simp: bg_nodes_def)
    have ps: "ps = bpid (the (nodes j v)) # bg_pids vs j" using xs(2) Cons by simp
    show ?thesis
    proof (cases "own \<or> \<not> hits child j v")
      case True
      let ?F = "filter (\<lambda>a. \<not> hits child j a) vs"
      obtain j' where j': "bgremove_loop child v j = Some (Inr j')" "same_pids j j'" "bg_nodes own (v # ?F) j'"
        using True remove_kept_head[where child = child, of own v vs j] xs(1) Cons by auto
      have "bg_pids (v # ?F) j' = bg_pids (v # ?F) j" by (rule bg_pids_same[OF j'(2) xs(1)]) (use Cons in auto)
      then have "bg_abs j' (bg_remove child x)" using j'(3) True x ps by (auto simp: bg_abs_def bg_pids_filter)
      then show ?thesis using j' h same_pids_dom[OF j'(2)] by (simp add: RemoveBackgroundChildProcess_def)
    next
      case False
      then obtain j' ys where j': "bgremove_loop child v j = Some (Inr j')" "same_pids j j'" "bg_nodes (vs \<noteq> []) ys j'"
          "bg_pids ys j' = take 1 (bg_pids vs j) @ filter (\<lambda>q. of_int q \<noteq> child) (drop 1 (bg_pids vs j))"
        using remove_free_head[where child = child, of v vs j] xs(1) Cons by auto
      have "bg_pids vs j = [] \<longleftrightarrow> vs = []" by (simp add: bg_pids_def)
      then have "bg_abs j' (bg_remove child x)" using j'(3,4) False x ps by (auto simp: bg_abs_def)
      then show ?thesis using j' h same_pids_dom[OF j'(2)] by (simp add: RemoveBackgroundChildProcess_def)
    qed
  qed
qed

section \<open>Addition\<close>

lemma add_refines:
  assumes "bg_abs j x" and "a \<noteq> 0" and "a \<notin> dom (nodes j)"
  shows "\<exists>j'. AddNewBackgroundChildProcess child a j = Inr j' \<and> bg_abs j' (bg_add child x) \<and>
    dom (nodes j') = insert a (dom (nodes j))"
proof -
  obtain own ps where x: "x = (own, ps)" by (cases x)
  obtain xs where xs: "bg_nodes own xs j" "bg_pids xs j = ps" using assms(1) x by (auto simp: bg_abs_def)
  let ?q = "if own then BgChildLL j else 0"
  have s: "seg (nodes j) ?q (BgChildLL j) xs 0" and d: "distinct xs" using xs(1) by (auto simp: bg_nodes_def)
  have a: "a \<notin> set xs" using seg_in[OF s] assms(3) by blast
  define new where "new = \<lparr>bpid = to_int32 child, bnext = 0, bprev = 0\<rparr>"
  define h1 where "h1 = (nodes j)(a \<mapsto> new)"
  have s1: "seg h1 ?q (BgChildLL j) xs 0" using s a by (simp add: h1_def seg_upd)
  show ?thesis
  proof (cases "xs = []")
    case True
    then have e: "BgChildLL j = 0" "\<not> own" "ps = []" using xs s by (auto simp: bg_nodes_def)
    let ?j = "j\<lparr>nodes := h1, BgChildLL := a\<rparr>"
    have "AddNewBackgroundChildProcess child a j = Inr ?j"
      using e by (simp add: AddNewBackgroundChildProcess_def Let_def h1_def new_def)
    moreover have "bg_nodes False [a] ?j" "bg_pids [a] ?j = [to_int32 child]"
      using assms(2) by (simp_all add: bg_nodes_def h1_def new_def)
    ultimately show ?thesis using e x by (auto simp: bg_abs_def h1_def intro!: exI[of _ "[a]"])
  next
    case False
    let ?l = "last xs"
    have l: "?l \<noteq> a" "?l \<in> set xs" using a False by auto
    have b0: "BgChildLL j \<noteq> 0" using s False seg_in[OF s, of "hd xs"] by (cases xs) auto
    have "last_node bnext h1 (BgChildLL j) = Some (Inr ?l)" by (rule last_node_chain[OF seg_chain[OF s1] False])
    define h2 where "h2 = h1(?l := map_option (bg_link a) (h1 ?l))"
    have s2: "seg h2 ?q (BgChildLL j) xs a" unfolding h2_def by (rule seg_set_next[OF s1 False d])
    define h3 where "h3 = h2(a := map_option (\<lambda>n. n\<lparr>bprev := ?l\<rparr>) (h2 a))"
    have "h3 a = Some (new\<lparr>bprev := ?l\<rparr>)" using l by (simp add: h3_def h2_def h1_def)
    then have "seg h3 ?q (BgChildLL j) (xs @ [a]) 0"
      using s2 a assms(2) False by (auto simp: seg_append seg_upd h3_def new_def)
    then have "bg_nodes own (xs @ [a]) (j\<lparr>nodes := h3\<rparr>)" using d a by (simp add: bg_nodes_def split: if_splits)
    moreover have "bg_pids (xs @ [a]) (j\<lparr>nodes := h3\<rparr>) = ps @ [to_int32 child]"
    proof -
      have "bpid (the (h3 y)) = bpid (the (nodes j y))" if "y \<in> set xs" for y
        using that a seg_in[OF s that] by (auto simp: h3_def h2_def h1_def bg_link_def)
      then show ?thesis using xs(2) \<open>h3 a = _\<close> by (auto simp: bg_pids_def new_def)
    qed
    moreover have "AddNewBackgroundChildProcess child a j = Inr (j\<lparr>nodes := h3\<rparr>)"
      using b0 \<open>last_node _ _ _ = _\<close> l
      by (simp add: AddNewBackgroundChildProcess_def Let_def h3_def h2_def h1_def new_def)
    moreover have "dom h3 = insert a (dom (nodes j))"
      using seg_in[OF s l(2)] by (auto simp: h3_def h2_def h1_def dom_def)
    ultimately show ?thesis using x by (auto simp: bg_abs_def)
  qed
qed

section \<open>Sequences of operations\<close>

datatype bg_op = AddChild u64 u64 | RemoveChild u64

fun bg_run :: "bg_op list \<Rightarrow> jobs \<Rightarrow> jobs res" where
  "bg_run [] j = Inr j"
| "bg_run (AddChild child a # ops) j = rbind (AddNewBackgroundChildProcess child a j) (bg_run ops)"
| "bg_run (RemoveChild child # ops) j = rbind (RemoveBackgroundChildProcess child j) (bg_run ops)"

fun bg_effect :: "bg_op \<Rightarrow> bg \<Rightarrow> bg" where
  "bg_effect (AddChild child a) x = bg_add child x"
| "bg_effect (RemoveChild child) x = bg_remove child x"

fun new_nodes :: "bg_op list \<Rightarrow> u64 list" where
  "new_nodes [] = []"
| "new_nodes (AddChild child a # ops) = a # new_nodes ops"
| "new_nodes (RemoveChild child # ops) = new_nodes ops"

lemma bg_run_refines:
  assumes "bg_abs j x" and "distinct (new_nodes ops)" and "\<forall>a \<in> set (new_nodes ops). a \<noteq> 0 \<and> a \<notin> dom (nodes j)"
  shows "\<exists>j'. bg_run ops j = Inr j' \<and> bg_abs j' (fold bg_effect ops x)"
  using assms
proof (induction ops arbitrary: j x)
  case (Cons op ops)
  show ?case
  proof (cases op)
    case (AddChild child a)
    then obtain j1 where "AddNewBackgroundChildProcess child a j = Inr j1" "bg_abs j1 (bg_add child x)"
        "dom (nodes j1) = insert a (dom (nodes j))"
      using add_refines[OF Cons.prems(1), of a child] Cons.prems(3) by auto
    then show ?thesis using Cons.IH[of j1 "bg_add child x"] Cons.prems AddChild by auto
  next
    case (RemoveChild child)
    then obtain j1 where "RemoveBackgroundChildProcess child j = Inr j1" "bg_abs j1 (bg_remove child x)"
        "dom (nodes j1) = dom (nodes j)"
      using remove_refines[OF Cons.prems(1), where child = child] by auto
    then show ?thesis using Cons.IH[of j1 "bg_remove child x"] Cons.prems RemoveChild by auto
  qed
qed simp

text \<open>C19. The linked list of background processes refines a list of numbers: after any sequence of additions, each
  with a node that is new, and removals, starting from the empty list, the links are intact in
  both directions and the numbers from the head on are those of the abstract list. There,
  an addition appends, and a removal takes out all entries with the number, except for
  the first entry once a first entry has been taken out before: that entry has become its own
  predecessor and is never removed.\<close>

theorem bg_list_refines:
  assumes "distinct (new_nodes ops)" and "0 \<notin> set (new_nodes ops)"
  shows "\<exists>j. bg_run ops jobs_boot = Inr j \<and> bg_abs j (fold bg_effect ops (False, []))"
proof (rule bg_run_refines[OF _ assms(1)])
  show "bg_abs jobs_boot (False, [])" unfolding bg_abs_def by (intro exI[of _ "[]"]) (simp add: bg_nodes_def jobs_boot_def)
  show "\<forall>a \<in> set (new_nodes ops). a \<noteq> 0 \<and> a \<notin> dom (nodes jobs_boot)" using assms(2) by (auto simp: jobs_boot_def)
qed

text \<open>Two processes are added and removed; the second one stays.\<close>

theorem bg_list_refines_witness:
  "\<exists>j. bg_run [AddChild 7 0x100, AddChild 8 0x200, RemoveChild 7, RemoveChild 8] jobs_boot = Inr j \<and> bg_abs j (True, [8])"
  using bg_list_refines[of "[AddChild 7 0x100, AddChild 8 0x200, RemoveChild 7, RemoveChild 8]"]
  by (simp add: to_int32_def)

section \<open>Commands with a pipe\<close>

abbreviation bar :: "string \<Rightarrow> bool" where
  "bar w \<equiv> strncmp w ''|'' 1 = 0"

text \<open>The array \<open>args\<close> begins with the words and the null pointer.\<close>

definition has_args :: "string list \<Rightarrow> command \<Rightarrow> bool" where
  "has_args ws c \<longleftrightarrow> length (cargs c) = 4 \<and> take (length ws + 1) (cargs c) = map Some ws @ [None]"

lemma take_update: "n < length xs \<Longrightarrow> take n xs = ys \<Longrightarrow> take (Suc n) (xs[n := v]) = ys @ [v]"
  by (simp add: take_Suc_conv_app_nth)

text \<open>The first loop, up to the word that is a bar.\<close>

lemma parse_first_words:
  assumes "\<forall>w \<in> set ws. \<not> bar w" and "bar b" and "length (cargs c) = 4" and "length us + length ws \<le> 4"
    and "take (length us) (cargs c) = map Some us"
  shows "\<exists>c'. parse_first (us @ ws @ b # vs) (length us) c = Inr (length us + length ws, c') \<and> ccmd c' = ccmd c \<and>
    length (cargs c') = 4 \<and> take (length us + length ws) (cargs c') = map Some (us @ ws)"
  using assms
proof (induction ws arbitrary: us c)
  case Nil
  then show ?case by (subst parse_first.simps) simp
next
  case (Cons w ws)
  let ?c = "c\<lparr>cargs := (cargs c)[length us := Some w]\<rparr>"
  have "take (length (us @ [w])) (cargs ?c) = map Some (us @ [w])"
    using take_update[of "length us" "cargs c" "map Some us" "Some w"] Cons.prems(3-5) by simp
  then obtain c' where c': "parse_first ((us @ [w]) @ ws @ b # vs) (length (us @ [w])) ?c = Inr (length (us @ [w]) + length ws, c')"
      "ccmd c' = ccmd ?c" "length (cargs c') = 4" "take (length (us @ [w]) + length ws) (cargs c') = map Some ((us @ [w]) @ ws)"
    using Cons.IH[of ?c "us @ [w]"] Cons.prems by auto
  have "parse_first (us @ (w # ws) @ b # vs) (length us) c = parse_first ((us @ [w]) @ ws @ b # vs) (length (us @ [w])) ?c"
    using Cons.prems by (subst parse_first.simps) (simp add: set_arg_def)
  then show ?case using c' by auto
qed

text \<open>The second loop copies words into the array.\<close>

lemma copy_args:
  assumes "length (cargs c) = 4" and "length ws \<le> 4"
  shows "\<exists>c'. rfold (\<lambda>i. set_arg i (Some (ws ! i))) [0..<length ws] c = Inr c' \<and> ccmd c' = ccmd c \<and>
    length (cargs c') = 4 \<and> take (length ws) (cargs c') = map Some ws"
proof -
  have "\<exists>c'. rfold (\<lambda>i. set_arg i (Some (ws ! i))) [0..<n] c = Inr c' \<and> ccmd c' = ccmd c \<and>
    length (cargs c') = 4 \<and> take n (cargs c') = map Some (take n ws)" if "n \<le> length ws" for n
    using that
  proof (induction n)
    case (Suc n)
    then obtain c' where c': "rfold (\<lambda>i. set_arg i (Some (ws ! i))) [0..<n] c = Inr c'" "ccmd c' = ccmd c"
        "length (cargs c') = 4" "take n (cargs c') = map Some (take n ws)" by auto
    have "set_arg n (Some (ws ! n)) c' = Inr (c'\<lparr>cargs := (cargs c')[n := Some (ws ! n)]\<rparr>)"
      using c'(3) Suc.prems assms(2) by (simp add: set_arg_def)
    then show ?case
      using c' Suc.prems assms(2) take_update[of n "cargs c'" "map Some (take n ws)" "Some (ws ! n)"]
      by (simp add: take_Suc_conv_app_nth)
  qed (use assms in simp)
  from this[of "length ws"] show ?thesis by simp
qed

text \<open>A command line with a pipe is split at its first bar: the words before it, of which there are at most three,
  become the command and the arguments of the first program, and the words behind it, at most three, those of
  the second, each list closed by a null pointer.\<close>

theorem ParsePipeCommand_splits:
  assumes "\<forall>w \<in> set ws. \<not> bar w" and "bar b" and "length ws \<le> 2" and "length vs \<le> 3"
    and "length (cargs c1) = 4" and "length (cargs c2) = 4"
  shows "CheckIfPipeCommand (w # ws @ b # vs) \<and>
     (\<exists>d1 d2. ParsePipeCommand c1 c2 (w # ws @ b # vs) = Inr (d1, d2) \<and> ccmd d1 = Some w \<and> has_args (w # ws) d1 \<and>
        ccmd d2 = (if vs = [] then None else Some (hd vs)) \<and> has_args vs d2)"
proof -
  let ?v = "w # ws @ b # vs"
  define e1 where "e1 = c1\<lparr>ccmd := Some w, cargs := (cargs c1)[0 := Some w]\<rparr>"
  have "set_arg 0 (word_at ?v 0) (c1\<lparr>ccmd := word_at ?v 0\<rparr>) = Inr e1"
    using assms(5) by (simp add: set_arg_def word_at_def e1_def)
  moreover have "take 1 (cargs e1) = map Some [w]" using assms(5) by (cases "cargs c1") (auto simp: e1_def)
  then obtain e where e: "parse_first ?v 1 e1 = Inr (1 + length ws, e)" "ccmd e = Some w" "length (cargs e) = 4"
      "take (1 + length ws) (cargs e) = map Some (w # ws)"
    using parse_first_words[of ws b e1 "[w]" vs] assms(1-3,5) by (auto simp: e1_def)
  define d1 where "d1 = e\<lparr>cargs := (cargs e)[1 + length ws := None]\<rparr>"
  have d1: "set_arg (1 + length ws) None e = Inr d1" "ccmd d1 = Some w" "has_args (w # ws) d1"
    using e assms(3) take_update[of "1 + length ws" "cargs e" "map Some (w # ws)" None]
    by (simp_all add: set_arg_def d1_def has_args_def)
  obtain f where f: "rfold (\<lambda>i. set_arg i (Some (vs ! i))) [0..<length vs] (c2\<lparr>ccmd := word_at ?v (2 + length ws)\<rparr>) = Inr f"
      "ccmd f = word_at ?v (2 + length ws)" "length (cargs f) = 4" "take (length vs) (cargs f) = map Some vs"
    using copy_args[of "c2\<lparr>ccmd := word_at ?v (2 + length ws)\<rparr>" vs] assms(4,6) by auto
  define d2 where "d2 = f\<lparr>cargs := (cargs f)[length vs := None]\<rparr>"
  have "word_at ?v (2 + length ws) = (if vs = [] then None else Some (hd vs))"
    by (cases vs) (simp_all add: word_at_def nth_append)
  then have d2: "set_arg (length vs) None f = Inr d2" "ccmd d2 = (if vs = [] then None else Some (hd vs))" "has_args vs d2"
    using f assms(4) take_update[of "length vs" "cargs f" "map Some vs" None]
    by (simp_all add: set_arg_def d2_def has_args_def)
  have "drop (1 + length ws + 1) ?v = vs" by simp
  ultimately have "ParsePipeCommand c1 c2 ?v = Inr (d1, d2)"
    using e(1) d1(1) f(1) d2(1) by (simp add: ParsePipeCommand_def Let_def)
  then show ?thesis using assms(2) d1 d2 by (auto simp: CheckIfPipeCommand_def)
qed

definition command_empty :: command where
  "command_empty = \<lparr>ccmd = None, cargs = replicate 4 None\<rparr>"

theorem ParsePipeCommand_splits_witness:
  "CheckIfPipeCommand (''ls'' # [''-l''] @ ''|'' # [''cat'']) \<and>
     (\<exists>d1 d2. ParsePipeCommand command_empty command_empty (''ls'' # [''-l''] @ ''|'' # [''cat'']) = Inr (d1, d2) \<and>
        ccmd d1 = Some ''ls'' \<and> has_args (''ls'' # [''-l'']) d1 \<and>
        ccmd d2 = (if [''cat''] = [] then None else Some (hd [''cat''])) \<and> has_args [''cat''] d2)"
  by (rule ParsePipeCommand_splits) (simp_all add: command_empty_def strncmp_def)

end
