(* ===== verification/Tools.thy ===== *)
theory Tools
  imports Programs
begin

text \<open>
  The programs \<open>bin/ls\<close>, \<open>bin/cat\<close>, \<open>bin/echo\<close>, \<open>bin/kill\<close>, \<open>bin/ps\<close> and \<open>bin/helloworld\<close>: the function \<open>main\<close> of
  each, on its argument count and vector.
\<close>

section \<open>Files\<close>

definition ls_main :: "'u program_scheme \<Rightarrow> int \<Rightarrow> u64 \<Rightarrow> 'a kernel \<Rightarrow> (int, 'a) ures" where
  "ls_main u argc argv s =
     rbind (arg_ptr argv 1 s) (\<lambda>(queryPath, s).
     ubind (opendir u queryPath s) (\<lambda>pDir s.
       if pDir = 0 then
         ubind (puts_literal u (slot u) (''Cannot open directory '' @ [CHR 0x0A]) s) (\<lambda>_. ureturn 1)
       else
         ubind (puts_literal u (slot u) [CHR 0x0A] s) (\<lambda>_ s.
         ubind (run_loop (dir_loop (\<lambda>nm s. ubind (puts_literal u (slot u) nm s) (\<lambda>_.
                  puts_literal u (slot u) [CHR 0x0A])) u pDir s)) (\<lambda>_ s.
         ubind (closedir u pDir s) (\<lambda>_. ureturn 1)))))"

text \<open>The loop over the characters that were read.\<close>

fun cat_loop :: "'u program_scheme \<Rightarrow> u64 \<Rightarrow> nat \<Rightarrow> nat \<Rightarrow> 'a kernel \<Rightarrow> (unit, 'a) ures" where
  "cat_loop u buff i 0 s = ureturn () s"
| "cat_loop u buff i (Suc k) s =
     rbind (uload8 (buff + of_nat i) s) (\<lambda>(b, s).
     ubind (printf u (slot u) (pbuf u) ''%c'' [VInt (sint b)] s) (\<lambda>_. cat_loop u buff (i + 1) k))"

definition cat_main :: "'u program_scheme \<Rightarrow> int \<Rightarrow> u64 \<Rightarrow> 'a kernel \<Rightarrow> (int, 'a) ures" where
  "cat_main u argc argv s =
     rbind (arg_ptr argv 1 s) (\<lambda>(pth, s).
     ubind (fopen u (junk u) pth ''r'' s) (\<lambda>fp s.
       if fp = 0 then ubind (puts_literal u (slot u) (''file doesn'' @ [CHR 0x27] @ ''t exist'') s) (\<lambda>_. ureturn (-1))
       else
         ubind (malloc u 4096 s) (\<lambda>buff s.
         rbind (uload32 (fp + 28) s) (\<lambda>(fdes, s).
         ubind (read u (junk u) fdes buff 4096 s) (\<lambda>read_count s.
         ubind (puts_literal u (slot u) [CHR 0x0A] s) (\<lambda>_ s.
         ubind (cat_loop u buff 0 (nat read_count) s) (\<lambda>_ s.
         ubind (free u buff s) (\<lambda>_ s.
         ubind (free u fp s) (\<lambda>_. ureturn 0)))))))))"

definition echo_main :: "'u program_scheme \<Rightarrow> int \<Rightarrow> u64 \<Rightarrow> 'a kernel \<Rightarrow> (int, 'a) ures" where
  "echo_main u argc argv s =
     rbind (arg_ptr argv 1 s) (\<lambda>(p, s). ubind (puts u (slot u) p s) (\<lambda>_. ureturn 0))"

section \<open>Processes\<close>

text \<open>The characters are not checked to be digits, and the arithmetic wraps.\<close>

definition string_to_int :: "string \<Rightarrow> u64" where
  "string_to_int str = foldl (\<lambda>num c. 10 * num + of_int (schar c - schar CHR ''0'')) 0 str"

definition kill_one :: "'u program_scheme \<Rightarrow> u64 \<Rightarrow> nat \<Rightarrow> 'a kernel \<Rightarrow> (unit, 'a) ures" where
  "kill_one u args i s =
     rbind (arg_str args i s) (\<lambda>(str, s).
       (let target = string_to_int str
        in if target = 1 then
             ubind (printf u (slot u) (pbuf u) (''Kill pid %d: permission denied'' @ [CHR 0x0A]) [VInt (to_int32 target)] s)
               (\<lambda>_. ureturn ())
           else ubind (ucall u (\<lambda>r. r\<lparr>rax := 53, rdi := target\<rparr>) s) (\<lambda>_. ureturn ())))"

fun kill_loop :: "'u program_scheme \<Rightarrow> u64 \<Rightarrow> nat \<Rightarrow> nat \<Rightarrow> 'a kernel \<Rightarrow> (unit, 'a) ures" where
  "kill_loop u args i 0 s = ureturn () s"
| "kill_loop u args i (Suc k) s = ubind (kill_one u args i s) (\<lambda>_. kill_loop u args (i + 1) k)"

definition kill_main :: "'u program_scheme \<Rightarrow> int \<Rightarrow> u64 \<Rightarrow> 'a kernel \<Rightarrow> (int, 'a) ures" where
  "kill_main u argc args s =
     rbind (arg_str args 1 s) (\<lambda>(a, s).
       (let i = (if strcmp a ''-9'' = 0 then 2 else 1)
        in ubind (kill_loop u args i (nat (argc - int i)) s) (\<lambda>_. ureturn 0)))"

text \<open>An entry of the process list has 1056 bytes: four numbers and the name.\<close>

definition ps_line :: "u64 \<Rightarrow> u64 \<Rightarrow> u64 \<Rightarrow> u64 \<Rightarrow> string \<Rightarrow> vararg list" where
  "ps_line vpid vppid vstate vwait nm =
     [VInt (to_int32 vpid), VInt (to_int32 vppid),
      VStr (if vwait = 1 \<or> vwait = 2 then ''WAITING'' else if vstate = 2 then ''ZOMBIE'' else ''ACTIVE''), VStr nm]"

fun ps_loop :: "'u program_scheme \<Rightarrow> u64 \<Rightarrow> nat \<Rightarrow> 'a kernel \<Rightarrow> (unit, 'a) ures" where
  "ps_loop u p 0 s = ureturn () s"
| "ps_loop u p (Suc k) s =
     rbind (uload64 p s) (\<lambda>(vpid, s). rbind (uload64 (p + 8) s) (\<lambda>(vppid, s).
     rbind (uload64 (p + 16) s) (\<lambda>(vstate, s). rbind (uload64 (p + 24) s) (\<lambda>(vwait, s).
     rbind (ustr (p + 32) s) (\<lambda>(nm, s).
     ubind (printf u (slot u) (pbuf u) (''%d    %d      %s       %s'' @ [CHR 0x0A]) (ps_line vpid vppid vstate vwait nm) s)
       (\<lambda>_. ps_loop u (p + 1056) k))))))"

definition ps_main :: "'u program_scheme \<Rightarrow> int \<Rightarrow> u64 \<Rightarrow> 'a kernel \<Rightarrow> (int, 'a) ures" where
  "ps_main u argc args s =
     ubind (ucall u (\<lambda>r. r\<lparr>rax := 54\<rparr>) s) (\<lambda>v s.
       (let num = to_int32 v
        in ubind (malloc u (1056 * of_int num) s) (\<lambda>plist s.
           ubind (ucall u (\<lambda>r. r\<lparr>rax := 55, rdi := plist\<rparr>) s) (\<lambda>_ s.
           ubind (printf u (slot u) (pbuf u) (''pid    ppid      state       name'' @ [CHR 0x0A]) [] s) (\<lambda>_ s.
           ubind (printf u (slot u) (pbuf u) (''----------------------------------'' @ [CHR 0x0A]) [] s) (\<lambda>_ s.
           ubind (ps_loop u plist (nat num) s) (\<lambda>_. ureturn 0)))))))"

section \<open>The example program\<close>

fun hello_loop :: "'u program_scheme \<Rightarrow> u64 \<Rightarrow> nat \<Rightarrow> nat \<Rightarrow> 'a kernel \<Rightarrow> (unit, 'a) ures" where
  "hello_loop u argv i 0 s = ureturn () s"
| "hello_loop u argv i (Suc k) s =
     rbind (arg_str argv i s) (\<lambda>(a, s).
     ubind (printf u (slot u) (pbuf u) (''first args: %s'' @ [CHR 0x0A]) [VStr a] s) (\<lambda>_. hello_loop u argv (i + 1) k))"

definition hello_main :: "'u program_scheme \<Rightarrow> int \<Rightarrow> u64 \<Rightarrow> 'a kernel \<Rightarrow> (int, 'a) ures" where
  "hello_main u argc argv s =
     ubind (printf u (slot u) (pbuf u) (''helllo world!!!!!!exec successfull'' @ [CHR 0x0A]) [] s) (\<lambda>_ s.
     ubind (printf u (slot u) (pbuf u) (''no of arguements: %d'' @ [CHR 0x0A]) [VInt argc] s) (\<lambda>_ s.
     ubind (hello_loop u argv 0 (nat argc) s) (\<lambda>_ s.
     rbind (arg_ptr argv 2 s) (\<lambda>(p, s).
     rbind (uload8 p s) (\<lambda>(c, s).
     ubind (if c = of_char CHR ''2'' then printf u (slot u) (pbuf u) (''hola!!'' @ [CHR 0x0A]) [] s else ureturn 0 s)
       (\<lambda>_. ureturn 0))))))"

end
