(* ===== verification/Tools_Spec.thy ===== *)
theory Tools_Spec
  imports Tools Programs_Spec
begin

text \<open>
  What the tools do: \<open>ls\<close> shows the names of a directory, and \<open>kill\<close> reads the process numbers that
  \<open>ps\<close> prints.
\<close>

section \<open>Reading a directory in user mode\<close>

lemma dir_open_fields [simp]:
  "dir_open q a n i (s\<lparr>pmem := m\<rparr>) = dir_open q a n i s" "dir_open q a n i (s\<lparr>con := c\<rparr>) = dir_open q a n i s"
  "dir_open q a n i (s\<lparr>RING_0_MODE := r\<rparr>) = dir_open q a n i s"
  by (simp_all add: dir_open_def)

lemma can_print_fields [simp]:
  "can_print p a (s\<lparr>kern_VA := k\<rparr>) = can_print p a s" "can_print p a (s\<lparr>dirs := h\<rparr>) = can_print p a s"
  "can_print p a (s\<lparr>dir_recycle_list := l\<rparr>) = can_print p a s"
  by (simp_all add: can_print_def rw_page_def)

lemma can_print_user: "can_print p a s \<Longrightarrow> RING_0_MODE s = 0"
  by (simp add: can_print_def)

lemma readdir_call:
  "readdir u q s = rbind (k_readdir ((uregs u)\<lparr>rax := 63, rdi := q\<rparr>) (s\<lparr>RING_0_MODE := 1\<rparr>))
     (\<lambda>(out, s). case out of Ret v \<Rightarrow> Inr (Inr v, s\<lparr>RING_0_MODE := 0\<rparr>) | _ \<Rightarrow> Inr (Inl out, s))"
  by (cases "k_readdir ((uregs u)\<lparr>rax := 63, rdi := q\<rparr>) (s\<lparr>RING_0_MODE := 1\<rparr>)")
    (auto simp: readdir_def ucall_def int80_def Let_def dispatch_def syscall_init_def split: outcome.splits)

lemma readdir_entry:
  fixes s :: "'a kernel"
  assumes "dir_open q a n i s" and "RING_0_MODE s = 0" and "i < length (family n)"
  obtains k d where "readdir u q s = Inr (Inr (q + 264), s\<lparr>kern_VA := k, dirs := (dirs s)(q \<mapsto> d)\<rparr>)"
    and "dir_open q a n (i + 1) (s\<lparr>kern_VA := k, dirs := (dirs s)(q \<mapsto> d)\<rparr>)"
    and "d_name d = entry_name (inodes s) (family n ! i)"
proof -
  let ?r = "(uregs u)\<lparr>rax := 63, rdi := q\<rparr>" and ?s = "s\<lparr>RING_0_MODE := 1\<rparr>"
  have o: "dir_open (rdi ?r) a n i ?s" using assms(1) by simp
  have "length (family n) \<le> 10" using assms(1) by (auto simp: dir_open_def fs_wf_def)
  then have i: "i < 2 ^ 64 - 1" using assms(3) by simp
  obtain k d where k: "k_readdir ?r ?s = Inr (Ret (q + 264), ?s\<lparr>kern_VA := k, dirs := (dirs s)(q \<mapsto> d)\<rparr>)"
      "dir_open q a n (i + 1) (?s\<lparr>kern_VA := k, dirs := (dirs s)(q \<mapsto> d)\<rparr>)"
      "d_name d = entry_name (inodes s) (family n ! i)"
    by (rule k_readdir_entry[OF o i assms(3)]) simp
  let ?t = "s\<lparr>kern_VA := k, dirs := (dirs s)(q \<mapsto> d)\<rparr>"
  have "?t\<lparr>RING_0_MODE := 0\<rparr> = ?t" by (rule ring_same) (simp add: assms(2))
  then have "readdir u q s = Inr (Inr (q + 264), ?t)" using k(1) by (simp add: readdir_call)
  moreover have "dir_open q a n (i + 1) ?t" using k(2) by (simp add: dir_open_def)
  ultimately show thesis using that k(3) by blast
qed

lemma readdir_end:
  fixes s :: "'a kernel"
  assumes "dir_open q a n i s" and "RING_0_MODE s = 0" and "i = length (family n)"
  obtains k where "readdir u q s = Inr (Inr 0, s\<lparr>kern_VA := k\<rparr>)"
proof -
  let ?r = "(uregs u)\<lparr>rax := 63, rdi := q\<rparr>" and ?s = "s\<lparr>RING_0_MODE := 1\<rparr>"
  have "length (family n) \<le> 10" using assms(1) by (auto simp: dir_open_def fs_wf_def)
  then have "i < 2 ^ 64 - 1" using assms(3) by simp
  then obtain k where k: "k_readdir ?r ?s = Inr (Ret 0, ?s\<lparr>kern_VA := k\<rparr>)"
    using k_readdir_step[of ?r a n i ?s] assms by auto
  have "(s\<lparr>kern_VA := k\<rparr>)\<lparr>RING_0_MODE := 0\<rparr> = s\<lparr>kern_VA := k\<rparr>" by (rule ring_same) (simp add: assms(2))
  then show thesis using that[of k] k by (simp add: readdir_call)
qed

section \<open>The loop of ls\<close>

text \<open>The text for a list of names, and the body of the loop.\<close>

definition listing :: "string list \<Rightarrow> string" where
  "listing names = concat (map (\<lambda>nm. nm @ [CHR 0x0A]) names)"

abbreviation ls_body :: "'u program_scheme \<Rightarrow> string \<Rightarrow> 'a kernel \<Rightarrow> (int, 'a) ures" where
  "ls_body u nm s \<equiv> ubind (puts_literal u (slot u) nm s) (\<lambda>_. puts_literal u (slot u) [CHR 0x0A])"

lemma ascii_newline: "\<forall>ch \<in> set [CHR 0x0A]. ascii ch"
  by (simp add: ascii_def schar_def)

lemma ls_body_prints:
  fixes s :: "'a kernel"
  assumes "can_print (slot u) a s" and "\<forall>ch \<in> set nm. ascii ch"
  obtains s' where "ls_body u nm s = Inr (Inr 0, s')" and "can_print (slot u) a s'"
    and "printed a (show_text (nm @ [CHR 0x0A]) (con s)) s s'"
proof -
  obtain s1 where s1: "puts_literal u (slot u) nm s = Inr (Inr 0, s1)" "can_print (slot u) a s1"
      "printed a (show_text nm (con s)) s s1" by (rule pl.put_prints[OF assms])
  obtain s2 where s2: "puts_literal u (slot u) [CHR 0x0A] s1 = Inr (Inr 0, s2)" "can_print (slot u) a s2"
      "printed a (show_text [CHR 0x0A] (con s1)) s1 s2"
    by (rule pl.put_prints[OF s1(2) ascii_newline])
  show thesis
    using that[of s2] s1 s2 printed_trans[OF s1(3) s2(3)] printed_con[OF s1(3)] by (simp del: puts_literal.simps)
qed

lemma dir_loop_lists:
  fixes s :: "'a kernel"
  assumes "dir_open q a n i s" and "i \<le> length (family n)" and "can_print (slot u) p s"
    and "\<forall>c \<in> set (family n). \<forall>ch \<in> set (entry_name (inodes s) c). ascii ch"
  obtains s' where "dir_loop (ls_body u) u q s = Some (Inr (Inr (), s'))"
    and "con s' = show_text (listing (map (entry_name (inodes s)) (drop i (family n)))) (con s)"
    and "can_print (slot u) p s'" and "dirs s' q \<noteq> None" and "inodes s' = inodes s"
  using assms
proof (induction "length (family n) - i" arbitrary: i s thesis)
  case 0
  obtain k where "readdir u q s = Inr (Inr 0, s\<lparr>kern_VA := k\<rparr>)"
    by (rule readdir_end[OF 0(3) can_print_user[OF 0(5)]]) (use 0 in simp_all)
  moreover have "dirs s q \<noteq> None" using 0(3) by (auto simp: dir_open_def)
  ultimately show ?case
    using 0 by (intro "0"(2)[of "s\<lparr>kern_VA := k\<rparr>"]) (simp_all add: dir_loop.simps ureturn_def listing_def)
next
  case (Suc m)
  then have i: "i < length (family n)" by simp
  obtain k d where kd: "readdir u q s = Inr (Inr (q + 264), s\<lparr>kern_VA := k, dirs := (dirs s)(q \<mapsto> d)\<rparr>)"
      "dir_open q a n (i + 1) (s\<lparr>kern_VA := k, dirs := (dirs s)(q \<mapsto> d)\<rparr>)"
      "d_name d = entry_name (inodes s) (family n ! i)"
    by (rule readdir_entry[OF Suc.prems(2) can_print_user[OF Suc.prems(4)] i])
  let ?t = "s\<lparr>kern_VA := k, dirs := (dirs s)(q \<mapsto> d)\<rparr>"
  have pr: "can_print (slot u) p ?t" using Suc.prems(4) by simp
  have as: "\<forall>ch \<in> set (d_name d). ascii ch" using bspec[OF Suc.prems(5) nth_mem[OF i]] kd(3) by simp
  obtain s1 where s1: "ls_body u (d_name d) ?t = Inr (Inr 0, s1)" "can_print (slot u) p s1"
      "printed p (show_text (d_name d @ [CHR 0x0A]) (con ?t)) ?t s1"
    by (rule ls_body_prints[OF pr as])
  obtain mm where mm: "s1 = ?t\<lparr>pmem := mm, con := show_text (d_name d @ [CHR 0x0A]) (con s)\<rparr>"
    using s1(3) by (auto simp: printed_def)
  have o: "dir_open q a n (i + 1) s1" using kd(2) mm by simp
  obtain s' where s': "dir_loop (ls_body u) u q s1 = Some (Inr (Inr (), s'))"
      "con s' = show_text (listing (map (entry_name (inodes s1)) (drop (i + 1) (family n)))) (con s1)"
      "can_print (slot u) p s'" "dirs s' q \<noteq> None" "inodes s' = inodes s1"
    by (rule Suc.hyps(1)[OF _ _ o _ s1(2)]) (use Suc.hyps(2) Suc.prems(5) mm in auto)
  have "q + 264 \<noteq> 0" using Suc.prems(2) by (simp add: dir_open_def)
  then have "dir_loop (ls_body u) u q s = Some (Inr (Inr (), s'))"
    using kd(1) s1(1) s'(1) by (subst dir_loop.simps) (simp add: dirent_name_def deref_def ureturn_def del: puts_literal.simps)
  moreover have "con s' = show_text (listing (map (entry_name (inodes s)) (drop i (family n)))) (con s)"
    using s'(2) mm kd(3) i by (simp add: listing_def Cons_nth_drop_Suc[symmetric])
  ultimately show ?case using Suc.prems(1)[of s'] s'(3-5) mm by simp
qed

section \<open>Opening a directory in user mode\<close>

text \<open>
  The kernel can open a directory: the file system is well formed, and the heap does not
  wrap around. The recycle list of directory objects is empty, as \<open>k_closedir\<close> leaves it.
\<close>

definition can_open :: "'a kernel \<Rightarrow> bool" where
  "can_open s \<longleftrightarrow> (\<exists>hi. fs_wf (inodes s) hi) \<and> root_inode s \<in> dom (inodes s) \<and> dir_recycle_list s = 0 \<and>
     unat (kern_VA s) + 1024 < 2 ^ 64"

lemma k_opendir_spec:
  fixes s :: "'a kernel"
  assumes "can_open s" and "read_cstr (rdi r) s = Inr (pth, s)" and "cstring pth" and "length pth \<le> 255"
  obtains k d where "k_opendir r s = Inr (Ret (if directory_at pth s = None then 0 else kern_VA s + 1),
      s\<lparr>kern_VA := k, dirs := (dirs s)(kern_VA s + 1 \<mapsto> d)\<rparr>)"
    and "\<And>a n. directory_at pth s = Some (a, n) \<Longrightarrow>
      dir_open (kern_VA s + 1) a n 1 (s\<lparr>kern_VA := k, dirs := (dirs s)(kern_VA s + 1 \<mapsto> d)\<rparr>)"
proof -
  let ?q = "kern_VA s + 1"
  obtain hi where hi: "fs_wf (inodes s) hi" "root_inode s \<in> dom (inodes s)" "dir_recycle_list s = 0"
      "unat (kern_VA s) + 1024 < 2 ^ 64"
    using assms(1) by (auto simp: can_open_def)
  have "unat ?q = unat (kern_VA s) + 1" "unat (?q + 264) = unat (kern_VA s) + 265"
    using hi(4) unat_add_small[of "kern_VA s" 1] unat_add_small[of "kern_VA s" 265] by (simp_all add: add.assoc)
  then have q: "?q \<noteq> 0" "?q + 264 \<noteq> 0" by (metis add_is_0 unat_0 zero_neq_numeral zero_neq_one)+
  define e where "e = \<lparr>dpath = [], currInode = -1, d_name = [], nextdir = 0 :: u64\<rparr>"
  let ?s1 = "s\<lparr>kern_VA := kern_VA s + 528, dirs := (dirs s)(?q \<mapsto> e)\<rparr>"
  have g: "getnewdir s = Inr (?q, ?s1)"
    using hi(3) by (simp add: getnewdir_def getdir_from_recylebin_def kmalloc_Inr e_def)
  let ?l = "lookup (inodes s) (root_inode s) (tokens CHR ''/'' pth)"
  obtain k where k: "GetInode pth ?s1 = Inr ((case ?l of None \<Rightarrow> 0 | Some a \<Rightarrow> a), ?s1\<lparr>kern_VA := k\<rparr>)"
    using GetInode_lookup[of ?s1 hi pth] hi(1,2) assms(3) by auto
  show thesis
  proof (cases "directory_at pth s")
    case None
    have "k_opendir r s = Inr (Ret 0, s\<lparr>kern_VA := k, dirs := (dirs s)(?q \<mapsto> e)\<rparr>)"
    proof (cases ?l)
      case None
      then show ?thesis using assms(2) g k by (simp add: k_opendir_def)
    next
      case (Some a)
      then obtain n where "inodes s a = Some n" using lookup_dom[OF hi(1,2)] by blast
      moreover have "a \<noteq> 0" using calculation hi(1) by (auto simp: fs_wf_def)
      ultimately show ?thesis
        using assms(2) g k Some None by (cases "itype n") (simp_all add: k_opendir_def deref_def directory_at_def)
    qed
    then show thesis using that[where k = k and d = e] None by simp
  next
    case (Some an)
    obtain a n where an: "an = (a, n)" by (cases an)
    then have a: "?l = Some a" "inodes s a = Some n" "itype n = DIR"
      using Some by (auto simp: directory_at_def split: option.splits if_splits)
    then have "a \<noteq> 0" using hi(1) by (auto simp: fs_wf_def)
    let ?d = "e\<lparr>dpath := pth, currInode := 1\<rparr>"
    have "k_opendir r s = Inr (Ret ?q, s\<lparr>kern_VA := k, dirs := (dirs s)(?q \<mapsto> ?d)\<rparr>)"
      using assms(2,4) g k a \<open>a \<noteq> 0\<close> by (simp add: k_opendir_def deref_def)
    moreover have "dir_open ?q a n 1 (s\<lparr>kern_VA := k, dirs := (dirs s)(?q \<mapsto> ?d)\<rparr>)"
      using a q hi(1,2) assms(3) by (auto simp: dir_open_def)
    ultimately show thesis using that[where k = k and d = ?d] Some an by simp
  qed
qed

lemma opendir_call:
  "opendir u q s = rbind (k_opendir ((uregs u)\<lparr>rax := 62, rdi := q\<rparr>) (s\<lparr>RING_0_MODE := 1\<rparr>))
     (\<lambda>(out, s). case out of Ret v \<Rightarrow> Inr (Inr v, s\<lparr>RING_0_MODE := 0\<rparr>) | _ \<Rightarrow> Inr (Inl out, s))"
  by (cases "k_opendir ((uregs u)\<lparr>rax := 62, rdi := q\<rparr>) (s\<lparr>RING_0_MODE := 1\<rparr>)")
    (auto simp: opendir_def ucall_def int80_def Let_def dispatch_def syscall_init_def split: outcome.splits)

lemma opendir_spec:
  fixes s :: "'a kernel"
  assumes "can_open s" and "RING_0_MODE s = 0" and "holds_string s q pth" and "length pth \<le> 255"
  obtains k d where "opendir u q s = Inr (Inr (if directory_at pth s = None then 0 else kern_VA s + 1),
      s\<lparr>kern_VA := k, dirs := (dirs s)(kern_VA s + 1 \<mapsto> d)\<rparr>)"
    and "\<And>a n. directory_at pth s = Some (a, n) \<Longrightarrow>
      dir_open (kern_VA s + 1) a n 1 (s\<lparr>kern_VA := k, dirs := (dirs s)(kern_VA s + 1 \<mapsto> d)\<rparr>)"
proof -
  let ?r = "(uregs u)\<lparr>rax := 62, rdi := q\<rparr>" and ?s = "s\<lparr>RING_0_MODE := 1\<rparr>"
  have c: "can_open ?s" "cstring pth" "read_cstr (rdi ?r) ?s = Inr (pth, ?s)" "directory_at pth ?s = directory_at pth s"
    using assms(1,3) read_cstr_holds[of ?s q pth]
    by (simp_all add: can_open_def holds_string_def directory_at_def cong: option.case_cong)
  have kv: "kern_VA ?s = kern_VA s" "dirs ?s = dirs s" by simp_all
  obtain k d where k: "k_opendir ?r ?s = Inr (Ret (if directory_at pth s = None then 0 else kern_VA s + 1),
      ?s\<lparr>kern_VA := k, dirs := (dirs s)(kern_VA s + 1 \<mapsto> d)\<rparr>)"
    "\<And>a n. directory_at pth s = Some (a, n) \<Longrightarrow>
      dir_open (kern_VA s + 1) a n 1 (?s\<lparr>kern_VA := k, dirs := (dirs s)(kern_VA s + 1 \<mapsto> d)\<rparr>)"
    by (rule k_opendir_spec[OF c(1,3,2) assms(4), unfolded c(4) kv]) blast
  let ?t = "s\<lparr>kern_VA := k, dirs := (dirs s)(kern_VA s + 1 \<mapsto> d)\<rparr>"
  have "?t\<lparr>RING_0_MODE := 0\<rparr> = ?t" by (rule ring_same) (simp add: assms(2))
  then show thesis
    using that[where k = k and d = d] k by (simp add: opendir_call dir_open_def)
qed

text \<open>C2. \<open>ls\<close> from its argument to the screen: when its first argument is the path of a directory, \<open>ls\<close> shows,
  after a newline, the names of the entries of that directory, in the order of the
  directory and each on its own line, and then closes the directory; otherwise it shows
  a message and returns.\<close>

theorem ls_lists:
  fixes s :: "'a kernel"
  assumes "can_open s" and "can_print (slot u) p s"
    and "holds_ptr s (argv + 8) q" and "holds_string s q pth" and "length pth \<le> 255"
    and "\<forall>c m. inodes s c = Some m \<longrightarrow> (\<forall>ch \<in> set (inodeName m). ascii ch)"
  shows "\<exists>s'. case directory_at pth s of
      None \<Rightarrow> ls_main u argc argv s = Inr (Inr 1, s') \<and>
        con s' = show_text (''Cannot open directory '' @ [CHR 0x0A]) (con s)
    | Some (a, n) \<Rightarrow> ls_main u argc argv s = ubind (closedir u (kern_VA s + 1) s') (\<lambda>_. ureturn 1) \<and>
        con s' = show_text ([CHR 0x0A] @ listing (map (entry_name (inodes s)) (tl (family n)))) (con s) \<and>
        inodes s' = inodes s \<and> dirs s' (kern_VA s + 1) \<noteq> None"
proof -
  let ?q = "kern_VA s + 1"
  have a: "arg_ptr argv 1 s = Inr (q, s)" using uload64_holds[OF assms(3)] by (simp add: arg_ptr_def)
  obtain k d where k: "opendir u q s = Inr (Inr (if directory_at pth s = None then 0 else ?q),
      s\<lparr>kern_VA := k, dirs := (dirs s)(?q \<mapsto> d)\<rparr>)"
    "\<And>a n. directory_at pth s = Some (a, n) \<Longrightarrow> dir_open ?q a n 1 (s\<lparr>kern_VA := k, dirs := (dirs s)(?q \<mapsto> d)\<rparr>)"
    by (rule opendir_spec[OF assms(1) can_print_user[OF assms(2)] assms(4,5), where u = u]) blast
  let ?t = "s\<lparr>kern_VA := k, dirs := (dirs s)(?q \<mapsto> d)\<rparr>"
  have pr: "can_print (slot u) p ?t" using assms(2) by simp
  show ?thesis
  proof (cases "directory_at pth s")
    case None
    have m: "\<forall>ch \<in> set (''Cannot open directory '' @ [CHR 0x0A]). ascii ch" by (simp add: ascii_def schar_def)
    obtain s' where s': "puts_literal u (slot u) (''Cannot open directory '' @ [CHR 0x0A]) ?t = Inr (Inr 0, s')"
        "printed p (show_text (''Cannot open directory '' @ [CHR 0x0A]) (con ?t)) ?t s'"
      by (rule pl.put_prints[OF pr m])
    then show ?thesis
      using None a k(1) printed_con[OF s'(2)]
      by (intro exI[of _ s']) (simp add: ls_main_def ureturn_def del: puts_literal.simps fold_simps append.simps)
  next
    case (Some an)
    obtain i n where an: "an = (i, n)" by (cases an)
    have o: "dir_open ?q i n 1 ?t" using k(2) Some an by simp
    have f: "family n \<noteq> []" using o by (auto simp: dir_open_def fs_wf_def)
    have q: "?q \<noteq> 0" using o by (simp add: dir_open_def)
    obtain s1 where s1: "puts_literal u (slot u) [CHR 0x0A] ?t = Inr (Inr 0, s1)" "can_print (slot u) p s1"
        "printed p (show_text [CHR 0x0A] (con ?t)) ?t s1"
      by (rule pl.put_prints[OF pr ascii_newline])
    obtain mm where mm: "s1 = ?t\<lparr>pmem := mm, con := show_text [CHR 0x0A] (con s)\<rparr>" using s1(3) by (auto simp: printed_def)
    have o1: "dir_open ?q i n 1 s1" using o mm by simp
    have as: "\<forall>c \<in> set (family n). \<forall>ch \<in> set (entry_name (inodes s1) c). ascii ch"
    proof
      fix c assume "c \<in> set (family n)"
      then obtain m where "inodes s1 c = Some m" using o1 by (fastforce simp: dir_open_def fs_wf_def)
      then show "\<forall>ch \<in> set (entry_name (inodes s1) c). ascii ch" using assms(6) mm by (simp add: entry_name_def)
    qed
    obtain s' where s': "dir_loop (ls_body u) u ?q s1 = Some (Inr (Inr (), s'))"
        "con s' = show_text (listing (map (entry_name (inodes s1)) (drop 1 (family n)))) (con s1)"
        "can_print (slot u) p s'" "dirs s' ?q \<noteq> None" "inodes s' = inodes s1"
      by (rule dir_loop_lists[OF o1 _ s1(2) as]) (use f in \<open>auto simp: Suc_le_eq\<close>)
    have "ls_main u argc argv s = ubind (closedir u ?q s') (\<lambda>_. ureturn 1)"
      using a k(1) Some q s1(1) s'(1) by (simp add: ls_main_def del: puts_literal.simps)
    then show ?thesis using Some an s' mm f by (intro exI[of _ s']) (simp add: drop_Suc)
  qed
qed

text \<open>The arguments of \<open>ls /\<close> in the page of the program: the vector at \<open>0x400600\<close>, the path at \<open>0x400700\<close>.\<close>

definition ls_args :: "(nat \<times> u8) list" where
  "ls_args = [(0x608, 0), (0x609, 7), (0x60A, 0x40), (0x60B, 0), (0x60C, 0), (0x60D, 0), (0x60E, 0), (0x60F, 0),
     (0x700, of_char CHR ''/''), (0x701, 0)]"

definition kernel_ls :: tasks where
  "kernel_ls = kernel_user\<lparr>dirs := Map.empty,
     pmem := fold (\<lambda>(e, v) m. m(0x21E000 + of_nat e := v)) ls_args (pmem kernel_user)\<rparr>"

lemma kernel_ls_page: "rw_page 0x400000 0x21E000 kernel_ls"
proof -
  have "rw_page 0x400000 0x21E000 (kernel_user\<lparr>dirs := Map.empty\<rparr>)" using kernel_user_page by (simp add: rw_page_def)
  from rw_page_upds[OF this this, of ls_args] show ?thesis by (simp add: kernel_ls_def ls_args_def)
qed

lemma kernel_ls_simps [simp]:
  "con kernel_ls = console_boot" "RING_0_MODE kernel_ls = 0" "inodes kernel_ls = fs_heap" "root_inode kernel_ls = 0x100"
  "kern_VA kernel_ls = 0x1000" "dir_recycle_list kernel_ls = 0"
  by (simp_all add: kernel_ls_def kernel_user_def kernel_dir_def kernel_small_def vfs.defs fs_small_def vmm.defs vm_small_def machine.defs)

lemma kernel_ls_memory:
  "holds_ptr kernel_ls 0x400608 0x400700" "holds_string kernel_ls 0x400700 ''/''" "can_print 0x400100 0x21E100 kernel_ls"
proof -
  note p = kernel_ls_page
  have "load64 (pmem kernel_ls) (0x21E000 + of_nat 0x608) = 0x400700"
    by (simp add: load64_def upt_rec kernel_ls_def ls_args_def)
  then show "holds_ptr kernel_ls 0x400608 0x400700" by (intro holds_ptrI[OF p, of _ "0x608"]) simp_all
  have "pmem kernel_ls (0x21E000 + of_nat (0x700 + k)) = of_char (cget ''/'' k)" if "k \<le> 1" for k
    using that by (cases k) (simp_all add: kernel_ls_def ls_args_def)
  then show "holds_string kernel_ls 0x400700 ''/''" by (intro holds_stringI[OF p, of _ "0x700"]) (simp_all add: cstring_def)
  show "can_print 0x400100 0x21E100 kernel_ls" unfolding can_print_def
    by (intro exI[where x = "0x400000"] exI[where x = "0x21E000"] exI[where x = "0x100"] conjI) (use p in simp_all)
qed

lemma root_directory: "directory_at ''/'' kernel_ls = Some (0x100, the (fs_heap 0x100))"
  by (simp add: directory_at_def tokens.simps fs_heap_def)

theorem ls_lists_witness:
  "\<exists>s'. ls_main program_small 2 0x400600 kernel_ls = ubind (closedir program_small 0x1001 s') (\<lambda>_. ureturn 1) \<and>
     con s' = show_text ([CHR 0x0A] @ ''bin'' @ [CHR 0x0A]) console_boot"
proof -
  have "\<exists>s'. case directory_at ''/'' kernel_ls of
      None \<Rightarrow> ls_main program_small 2 0x400600 kernel_ls = Inr (Inr 1, s') \<and>
        con s' = show_text (''Cannot open directory '' @ [CHR 0x0A]) (con kernel_ls)
    | Some (a, n) \<Rightarrow> ls_main program_small 2 0x400600 kernel_ls = ubind (closedir program_small (kern_VA kernel_ls + 1) s') (\<lambda>_. ureturn 1) \<and>
        con s' = show_text ([CHR 0x0A] @ listing (map (entry_name (inodes kernel_ls)) (tl (family n)))) (con kernel_ls) \<and>
        inodes s' = inodes kernel_ls \<and> dirs s' (kern_VA kernel_ls + 1) \<noteq> None"
  proof (rule ls_lists)
    show "can_open kernel_ls" using fs_wf_heap by (auto simp: can_open_def)
    show "\<forall>c m. inodes kernel_ls c = Some m \<longrightarrow> (\<forall>ch \<in> set (inodeName m). ascii ch)"
      by (auto simp: fs_heap_def ascii_def schar_def split: if_splits)
    show "holds_ptr kernel_ls (0x400600 + 8) 0x400700" using kernel_ls_memory(1) by simp
  qed (use kernel_ls_memory in simp_all)
  moreover have "listing (map (entry_name fs_heap) (tl (family (the (fs_heap 0x100))))) = ''bin'' @ [CHR 0x0A]"
    by (simp add: fs_heap_def entry_name_def listing_def)
  ultimately show ?thesis unfolding root_directory by auto
qed

section \<open>The program echo\<close>

text \<open>C40. \<open>echo\<close> from its argument to the screen: the pointer in the second entry of the argument vector is followed, the
  text behind it is shown character by character, and the program returns 0; nothing but the screen
  and the four bytes of the parameter of \<open>putchar\<close> is changed.\<close>

theorem echo_prints:
  fixes s :: "'a kernel"
  assumes "can_print (slot u) d s" and "holds_ptr s (args + 8) q" and "text_at d q str s" and "\<forall>ch \<in> set str. ascii ch"
  shows "\<exists>s'. echo_main u argc args s = Inr (Inr 0, s') \<and> printed d (show_text str (con s)) s s'"
proof -
  obtain s' where s': "puts_literal u (slot u) str s = Inr (Inr 0, s')" "printed d (show_text str (con s)) s s'"
    by (rule pl.put_prints[OF assms(1,4)])
  have "puts u (slot u) q s = Inr (Inr 0, s')"
    using pl.loop_put[OF assms(3,1,4), of u] s'(1) by (simp add: puts_def)
  moreover have "arg_ptr args 1 s = Inr (q, s)" using uload64_holds[OF assms(2)] by (simp add: arg_ptr_def)
  ultimately show ?thesis using s'(2) by (simp add: echo_main_def ureturn_def)
qed

theorem echo_prints_witness:
  "\<exists>s'. echo_main program_small 2 0x400600 kernel_ls = Inr (Inr 0, s') \<and>
     printed 0x21E100 (show_text ''/'' (con kernel_ls)) kernel_ls s'"
proof (rule echo_prints)
  have "pmem kernel_ls (0x21E000 + of_nat (0x700 + k)) = of_char (cget ''/'' k) \<and>
      0x21E000 + of_nat (0x700 + k) \<notin> {0x21E100, 0x21E100 + 1, 0x21E100 + 2, 0x21E100 + 3 :: u64}" if "k \<le> length ''/''" for k
    using that by (cases k) (simp_all add: kernel_ls_def ls_args_def)
  then show "text_at 0x21E100 0x400700 ''/'' kernel_ls"
    unfolding text_at_def
    by (intro exI[where x = "0x400000"] exI[where x = "0x21E000"] exI[where x = "0x700"]) (simp add: kernel_ls_page)
  show "holds_ptr kernel_ls (0x400600 + 8) 0x400700" using kernel_ls_memory(1) by simp
qed (use kernel_ls_memory in \<open>simp_all add: ascii_def schar_def\<close>)

section \<open>Process numbers\<close>

lemma string_to_int_decimal: "string_to_int str = of_int (decimal str)"
proof -
  have "foldl (\<lambda>num c. 10 * num + of_int (schar c - schar CHR ''0'')) (of_int v) str =
      (of_int (foldl (\<lambda>v ch. 10 * v + (schar ch - schar CHR ''0'')) v str) :: u64)" for v
  proof (induction str arbitrary: v)
    case (Cons c str)
    show ?case using Cons[of "10 * v + (schar c - schar CHR ''0'')"] by simp
  qed simp
  from this[of 0] show ?thesis by (simp add: string_to_int_def decimal_def)
qed

abbreviation ps_format :: string where
  "ps_format \<equiv> ''%d    %d      %s       %s'' @ [CHR 0x0A]"

text \<open>C32. \<open>kill\<close> understands what \<open>ps\<close> prints: the first word of the line for a process, up to the first blank, is
  read by \<open>kill\<close> as the number of that process.\<close>

theorem ps_kill_roundtrip:
  assumes "0 < v" and "unat v < 2 ^ 31"
  shows "\<exists>line. printf_text ps_format (ps_line v vppid vstate vwait nm) = Inr line \<and>
     string_to_int (takeWhile (\<lambda>c. c \<noteq> CHR '' '') line) = v"
proof -
  let ?n = "to_int32 v"
  have n: "?n = int (unat v)" by (rule to_int32_small[OF assms(2)])
  have "0 < ?n" using assms(1) n by (simp add: word_less_def)
  let ?ds = "printfflushint ?n"
  have ds: "?ds = rev (rev_digits ?n)" by (simp add: printfflushint_def reverse_in_place_rev)
  have d: "decimal ?ds = ?n" "set ?ds \<subseteq> set ''0123456789''" using rev_digits_spec[of ?n] \<open>0 < ?n\<close> ds by simp_all
  obtain rest where rest: "printf_text ps_format (ps_line v vppid vstate vwait nm) = Inr (?ds @ CHR '' '' # rest)"
    by (simp add: ps_line_def)
  have "takeWhile (\<lambda>c. c \<noteq> CHR '' '') (?ds @ CHR '' '' # rest) = ?ds"
    using d(2) by (subst takeWhile_append2) auto
  moreover have "string_to_int ?ds = v" using d(1) n by (simp add: string_to_int_decimal)
  ultimately show ?thesis using rest by (intro exI[of _ "?ds @ CHR '' '' # rest"]) simp
qed

theorem ps_kill_roundtrip_witness:
  "\<exists>line. printf_text ps_format (ps_line 12 1 1 0 ''bin/sbush'') = Inr line \<and>
     string_to_int (takeWhile (\<lambda>c. c \<noteq> CHR '' '') line) = 12"
  by (rule ps_kill_roundtrip) simp_all

end
