(* ===== verification/Devices.thy ===== *)
theory Devices
  imports Kernel_Prelude
begin

text \<open>
  The tables and devices that are set up at boot: the interrupt descriptor table
  (\<open>sys/idt.c\<close>), the task state descriptor (\<open>sys/gdt.c\<close>), the interrupt controllers
  (\<open>sys/pic.c\<close>) and the timer (\<open>sys/pit.c\<close>). Port output is the list of pairs of a port and
  a byte, in the order of the writes.
\<close>

section \<open>Interrupt gates\<close>

record IDTDescr =
  offset_1 :: "16 word"
  selector :: "16 word"
  ist :: u8
  type_attr :: u8
  offset_2 :: "16 word"
  offset_3 :: u32
  zero :: u32

definition gate :: "u64 \<Rightarrow> u8 \<Rightarrow> IDTDescr" where
  "gate handler attr =
     \<lparr>offset_1 = ucast (handler AND 0xFFFF), selector = 8, ist = 0, type_attr = attr,
      offset_2 = ucast (drop_bit 16 handler AND 0xFFFF), offset_3 = ucast (drop_bit 32 handler AND 0xFFFFFFFF),
      zero = 0\<rparr>"

text \<open>The entry points, which are assembler labels.\<close>

record handlers =
  zero_excep :: u64
  page_fault2 :: u64
  page_fault :: u64
  timer_fptr :: u64
  key_fptr :: u64
  syscall_fptr :: u64

definition init_idt :: "handlers \<Rightarrow> (nat \<Rightarrow> IDTDescr) \<Rightarrow> nat \<Rightarrow> IDTDescr" where
  "init_idt h IDT = IDT(0 := gate (zero_excep h) 0x8E, 13 := gate (page_fault2 h) 0x8E,
     14 := gate (page_fault h) 0x8E, 32 := gate (timer_fptr h) 0x8E, 33 := gate (key_fptr h) 0x8E,
     0x80 := gate (syscall_fptr h) 0xEE)"

text \<open>The address that the processor assembles from a gate.\<close>

definition gate_target :: "IDTDescr \<Rightarrow> u64" where
  "gate_target g = ucast (offset_1 g) OR push_bit 16 (ucast (offset_2 g)) OR push_bit 32 (ucast (offset_3 g))"

text \<open>The lowest privilege that may use a gate with the instruction \<open>int\<close>.\<close>

definition gate_dpl :: "IDTDescr \<Rightarrow> u8" where
  "gate_dpl g = drop_bit 5 (type_attr g) AND 3"

definition gate_present :: "IDTDescr \<Rightarrow> bool" where
  "gate_present g \<longleftrightarrow> bit (type_attr g) 7"

section \<open>The task state segment\<close>

record sys_segment_descriptor =
  sd_lolimit :: "16 word"
  sd_lobase :: "24 word"
  sd_type :: "5 word"
  sd_dpl :: "2 word"
  sd_p :: "1 word"
  sd_hilimit :: "4 word"
  sd_gran :: "1 word"
  sd_hibase :: "40 word"

text \<open>\<open>sizeof(struct tss_t)\<close> is 104.\<close>

definition init_gdt :: "u64 \<Rightarrow> sys_segment_descriptor" where
  "init_gdt tss = \<lparr>sd_lolimit = 104 - 1, sd_lobase = ucast tss, sd_type = 9, sd_dpl = 0, sd_p = 1,
     sd_hilimit = 0, sd_gran = 0, sd_hibase = ucast (drop_bit 24 tss)\<rparr>"

definition segment_base :: "sys_segment_descriptor \<Rightarrow> u64" where
  "segment_base sd = ucast (sd_lobase sd) OR push_bit 24 (ucast (sd_hibase sd))"

section \<open>The interrupt controllers\<close>

abbreviation PIC1_COMMAND :: nat where "PIC1_COMMAND \<equiv> 0x20"
abbreviation PIC1_DATA :: nat where "PIC1_DATA \<equiv> 0x21"
abbreviation PIC2_COMMAND :: nat where "PIC2_COMMAND \<equiv> 0xA0"
abbreviation PIC2_DATA :: nat where "PIC2_DATA \<equiv> 0xA1"

text \<open>\<open>a1\<close> and \<open>a2\<close> are the masks that the controllers return; \<open>io_wait\<close> is not in the list.\<close>

definition PIC_remap :: "u8 \<Rightarrow> u8 \<Rightarrow> u8 \<Rightarrow> u8 \<Rightarrow> (nat \<times> u8) list" where
  "PIC_remap offset1 offset2 a1 a2 =
     [(PIC1_COMMAND, 0x11), (PIC2_COMMAND, 0x11), (PIC1_DATA, offset1), (PIC2_DATA, offset2),
      (PIC1_DATA, 4), (PIC2_DATA, 2), (PIC1_DATA, 1), (PIC2_DATA, 1), (PIC1_DATA, a1), (PIC2_DATA, a2)]"

text \<open>The shift of an \<open>int\<close> by 32 or more is undefined; the line numbers are below 16.\<close>

definition irq_port :: "nat \<Rightarrow> nat \<times> nat" where
  "irq_port IRQline = (if IRQline < 8 then (PIC1_DATA, IRQline) else (PIC2_DATA, IRQline - 8))"

definition IRQ_set_mask :: "nat \<Rightarrow> (nat \<Rightarrow> u8) \<Rightarrow> nat \<Rightarrow> u8" where
  "IRQ_set_mask IRQline ports =
     (case irq_port IRQline of (p, l) \<Rightarrow> ports(p := ports p OR push_bit l 1))"

definition IRQ_clear_mask :: "nat \<Rightarrow> (nat \<Rightarrow> u8) \<Rightarrow> nat \<Rightarrow> u8" where
  "IRQ_clear_mask IRQline ports =
     (case irq_port IRQline of (p, l) \<Rightarrow> ports(p := ports p AND NOT (push_bit l 1)))"

section \<open>The timer\<close>

definition init_pit :: "(nat \<times> u8) list" where
  "init_pit = [(0x43, 0x34), (0x40, ucast (59659 :: u32)), (0x40, ucast (drop_bit 8 (59659 :: u32)))]"

section \<open>Properties\<close>

lemma three_parts:
  fixes h :: u64
  shows "ucast (ucast (h AND mask 16) :: 16 word) OR push_bit 16 (ucast (ucast (drop_bit 16 h AND mask 16) :: 16 word)) OR
    push_bit 32 (ucast (ucast (drop_bit 32 h AND mask 32) :: u32)) = h" (is "?l = h")
proof (rule bit_word_eqI)
  fix n :: nat
  assume "n < LENGTH(64)"
  then show "bit ?l n = bit h n"
    by (cases "n < 16"; cases "n < 32") (auto simp: bit_simps)
qed

lemma gate_target_gate: "gate_target (gate h attr) = h"
proof -
  have m: "(0xFFFF :: u64) = mask 16" "(0xFFFFFFFF :: u64) = mask 32" by (simp_all add: mask_eq_exp_minus_1)
  show ?thesis unfolding gate_target_def gate_def m IDTDescr.simps by (rule three_parts)
qed

text \<open>Every gate of the interrupt descriptor table leads to its handler: the processor
  assembles the handler's address from the three parts. Only the gate of the system call
  may be used from user mode, and all of them are present.\<close>

theorem init_idt_gates:
  "\<forall>(n, h, user) \<in> {(0, zero_excep hs, False), (13, page_fault2 hs, False), (14, page_fault hs, False),
      (32, timer_fptr hs, False), (33, key_fptr hs, False), (0x80, syscall_fptr hs, True)}.
     gate_target (init_idt hs IDT n) = h \<and> gate_present (init_idt hs IDT n) \<and>
     gate_dpl (init_idt hs IDT n) = (if user then 3 else 0)"
  by (simp add: init_idt_def gate_target_gate)
    (simp add: gate_def gate_present_def gate_dpl_def)

theorem init_idt_gates_witness:
  "gate_target (init_idt \<lparr>zero_excep = 0x1000, page_fault2 = 0x2000, page_fault = 0x3000,
       timer_fptr = 0x4000, key_fptr = 0x5000, syscall_fptr = 0xFFFFFFFF80206000\<rparr> (\<lambda>_. gate 0 0) 0x80) =
       0xFFFFFFFF80206000 \<and>
   gate_dpl (init_idt \<lparr>zero_excep = 0x1000, page_fault2 = 0x2000, page_fault = 0x3000,
       timer_fptr = 0x4000, key_fptr = 0x5000, syscall_fptr = 0xFFFFFFFF80206000\<rparr> (\<lambda>_. gate 0 0) 0x80) = 3"
  using init_idt_gates[of "\<lparr>zero_excep = 0x1000, page_fault2 = 0x2000, page_fault = 0x3000,
       timer_fptr = 0x4000, key_fptr = 0x5000, syscall_fptr = 0xFFFFFFFF80206000\<rparr>" "\<lambda>_. gate 0 0"]
  by simp

text \<open>Masking an interrupt line and unmasking it again gives the mask without that line; the
  line reads as masked in between, and the other lines of both controllers keep their state.\<close>

theorem IRQ_mask_roundtrip:
  assumes "l < 16" and "k < 16"
  shows "(let (p, b) = irq_port k in bit (IRQ_set_mask l ports p) b \<longleftrightarrow> k = l \<or> bit (ports p) b) \<and>
    (let (p, b) = irq_port k in
       bit (IRQ_clear_mask l (IRQ_set_mask l ports) p) b \<longleftrightarrow> k \<noteq> l \<and> bit (ports p) b)"
  using assms
  by (auto simp: irq_port_def IRQ_set_mask_def IRQ_clear_mask_def bit_simps)

theorem IRQ_mask_roundtrip_witness:
  "(let (p, b) = irq_port 1 in bit (IRQ_set_mask 1 (\<lambda>_. 0) p) b \<longleftrightarrow> (1 :: nat) = 1 \<or> bit (0 :: u8) b) \<and>
    (let (p, b) = irq_port 1 in
       bit (IRQ_clear_mask 1 (IRQ_set_mask 1 (\<lambda>_. 0)) p) b \<longleftrightarrow> (1 :: nat) \<noteq> 1 \<and> bit (0 :: u8) b)"
  using IRQ_mask_roundtrip[of 1 1 "\<lambda>_. 0"] by simp

text \<open>The descriptor of the task state segment holds the segment's address.\<close>

theorem init_gdt_base: "segment_base (init_gdt tss) = tss"
  by (rule bit_word_eqI) (auto simp: segment_base_def init_gdt_def bit_simps)

end
