(* ===== verification/Boot.thy ===== *)
theory Boot
  imports Tasks Devices
begin

text \<open>
  The boot code \<open>sys/main.c\<close>: the list of records that the boot loader leaves in memory, the memory map in it,
  and the order in which the parts of the kernel are initialised. The loader's data are the
  bytes \<open>ld\<close>; the code does not write to them.
\<close>

section \<open>The data of the boot loader\<close>

definition load32 :: "(u64 \<Rightarrow> u8) \<Rightarrow> u64 \<Rightarrow> u32" where
  "load32 m a = ucast (load64 m a)"

text \<open>
  The loop \<open>while(modulep[0] != 0x9001) modulep += modulep[1]+2\<close>: the second word of a record is taken
  as a number of words, and the sum is one of 32 bits.
\<close>

partial_function (option) find_module :: "(u64 \<Rightarrow> u8) \<Rightarrow> u64 \<Rightarrow> u64 option" where
  "find_module ld modulep =
     (if load32 ld modulep \<noteq> 0x9001
      then find_module ld (modulep + 4 * ucast (load32 ld (modulep + 4) + 2))
      else Some modulep)"

record smap_t =
  base :: u64
  length_of :: u64
  type_of :: u32

text \<open>An entry of the memory map has 20 bytes.\<close>

definition load_smap :: "(u64 \<Rightarrow> u8) \<Rightarrow> u64 \<Rightarrow> smap_t" where
  "load_smap ld a = \<lparr>base = load64 ld a, length_of = load64 ld (a + 8), type_of = load32 ld (a + 16)\<rparr>"

text \<open>The body of the loop over the memory map.\<close>

definition use_region :: "u64 \<Rightarrow> smap_t \<Rightarrow> 'a kernel \<Rightarrow> 'a kernel res" where
  "use_region physfree r s =
     (if type_of r = 1 \<and> length_of r \<noteq> 0 then
        rbind (say (''Available Physical Memory [%p-%p %p]'' @ [CHR 0x0A])
                 [VU64 (base r), VU64 (base r + length_of r), VU64 (length_of r)] s)
          (\<lambda>s. run_loop (freelist (base r) (length_of r) physfree s))
      else Inr s)"

partial_function (option) smap_loop :: "(u64 \<Rightarrow> u8) \<Rightarrow> u64 \<Rightarrow> u64 \<Rightarrow> u64 \<Rightarrow> 'a kernel \<Rightarrow> 'a kernel res option" where
  "smap_loop ld physfree smap smap_end s =
     (if smap < smap_end then
        (case use_region physfree (load_smap ld smap) s of
           Inl e \<Rightarrow> Some (Inl e)
         | Inr s \<Rightarrow> smap_loop ld physfree (smap + 20) smap_end s)
      else Some (Inr s))"

definition smap_regions :: "(u64 \<Rightarrow> u8) \<Rightarrow> u64 \<Rightarrow> u64 \<Rightarrow> 'a kernel \<Rightarrow> 'a kernel res" where
  "smap_regions ld modulep physfree s =
     (case find_module ld modulep of
        None \<Rightarrow> Inl Unterminated
      | Some m \<Rightarrow> run_loop (smap_loop ld physfree (m + 8) (m + ucast (load32 ld (m + 4)) + 8) s))"

section \<open>Initialisation\<close>

text \<open>
  \<open>start\<close>. The result is where the first process begins, as \<open>init_proc\<close> has it; \<open>garbage\<close> is the
  uninitialised type of the root directory. The table of system calls is constant.
\<close>

definition start :: "(u64 \<Rightarrow> u8) \<Rightarrow> inodeType \<Rightarrow> u64 \<Rightarrow> u64 \<Rightarrow> u64 \<Rightarrow> u64 \<Rightarrow> 'a kernel \<Rightarrow> ((u64 \<times> u64) \<times> 'a kernel) res" where
  "start ld garbage kernmem modulep physbase physfree s =
     rbind (smap_regions ld modulep physfree s) (\<lambda>s.
     rbind (say (''physfree %p'' @ [CHR 0x0A]) [VU64 physfree] s) (\<lambda>s.
     rbind (say (''tarfs in [%p:%p]'' @ [CHR 0x0A])
              [VU64 (tarfs_start s), VU64 (tarfs_start s + of_nat (length (tarfs_img s)))] s) (\<lambda>s.
     rbind (map_kernpt kernmem physbase physfree (physfree + 4096 * 10) s) (\<lambda>s.
     rbind (init_tarfs (tarfs_img s) (tarfs_start s) garbage s) init_proc))))"

text \<open>The colour bytes of the whole screen.\<close>

definition boot_screen :: "console \<Rightarrow> console" where
  "boot_screen c = c\<lparr>vram := fold (\<lambda>k m. m(0xB8001 + 2 * of_nat k := 7)) [0..<80 * 25] (vram c)\<rparr>"

text \<open>What \<open>boot\<close> leaves in the tables and devices.\<close>

record platform =
  idt :: "nat \<Rightarrow> IDTDescr"
  tss_descriptor :: sys_segment_descriptor
  port_writes :: "(nat \<times> u8) list"

definition boot_devices :: "handlers \<Rightarrow> u64 \<Rightarrow> u8 \<Rightarrow> u8 \<Rightarrow> (nat \<Rightarrow> IDTDescr) \<Rightarrow> platform" where
  "boot_devices h tss a1 a2 IDT =
     \<lparr>idt = init_idt h IDT, tss_descriptor = init_gdt tss, port_writes = PIC_remap 0x20 0x28 a1 a2 @ init_pit\<rparr>"

text \<open>
  \<open>boot\<close>: \<open>loader3\<close> and \<open>loader4\<close> are the words 3 and 4 of the loader's stack. The code behind the call of \<open>start\<close>,
  which does not return, is left out.
\<close>

definition boot ::
    "(u64 \<Rightarrow> u8) \<Rightarrow> inodeType \<Rightarrow> u64 \<Rightarrow> u64 \<Rightarrow> u32 \<Rightarrow> u32 \<Rightarrow> 'a kernel \<Rightarrow> ((u64 \<times> u64) \<times> 'a kernel) res" where
  "boot ld garbage kernmem physbase loader3 loader4 s =
     start ld garbage kernmem (ucast loader3 + kernmem - physbase) physbase (ucast loader4)
       (s\<lparr>con := init_terminal (boot_screen (con s))\<rparr>)"

end
