(* ===== verification/Boot_Spec.thy ===== *)
theory Boot_Spec
  imports Boot Tasks_Spec
begin

text \<open>
  What the boot code makes of the boot loader's memory map: the two loops of \<open>start\<close> end and offer the
  regions of the map to the allocator, one after the other.
\<close>

section \<open>The memory map\<close>

text \<open>
  \<open>modules_at ld a ms m\<close>: from address \<open>a\<close>, the records \<open>ms\<close> (type and second word) of other types
  lead to address \<open>m\<close>.
\<close>

fun modules_at :: "(u64 \<Rightarrow> u8) \<Rightarrow> u64 \<Rightarrow> (u32 \<times> u32) list \<Rightarrow> u64 \<Rightarrow> bool" where
  "modules_at ld a [] m \<longleftrightarrow> a = m"
| "modules_at ld a ((ty, w) # ms) m \<longleftrightarrow> ty \<noteq> 0x9001 \<and> load32 ld a = ty \<and> load32 ld (a + 4) = w \<and>
     modules_at ld (a + 4 * ucast (w + 2)) ms m"

text \<open>The regions \<open>rs\<close> follow each other from address \<open>a\<close>.\<close>

fun regions_at :: "(u64 \<Rightarrow> u8) \<Rightarrow> u64 \<Rightarrow> smap_t list \<Rightarrow> bool" where
  "regions_at ld a [] \<longleftrightarrow> True"
| "regions_at ld a (r # rs) \<longleftrightarrow> load_smap ld a = r \<and> regions_at ld (a + 20) rs"

text \<open>The record of the memory map at address \<open>m\<close>.\<close>

definition smap_at :: "(u64 \<Rightarrow> u8) \<Rightarrow> u64 \<Rightarrow> smap_t list \<Rightarrow> bool" where
  "smap_at ld m rs \<longleftrightarrow> load32 ld m = 0x9001 \<and> unat (load32 ld (m + 4)) = 20 * length rs \<and>
     unat m + 8 + 20 * length rs < 2 ^ 64 \<and> regions_at ld (m + 8) rs"

definition usable :: "smap_t \<Rightarrow> bool" where
  "usable r \<longleftrightarrow> type_of r = 1 \<and> length_of r \<noteq> 0"

lemma find_module_skips:
  "modules_at ld a ms m \<Longrightarrow> load32 ld m = 0x9001 \<Longrightarrow> find_module ld a = Some m"
proof (induction ms arbitrary: a)
  case Nil
  then show ?case by (subst find_module.simps) simp
next
  case (Cons x ms)
  then show ?case by (cases x) (subst find_module.simps, simp)
qed

text \<open>The loop over the map is a fold over its regions.\<close>

lemma smap_loop_fold:
  fixes s :: "'a kernel"
  shows "regions_at ld a rs \<Longrightarrow> unat a + 20 * length rs < 2 ^ 64 \<Longrightarrow> unat e = unat a + 20 * length rs \<Longrightarrow>
   smap_loop ld physfree a e s = Some (rfold (use_region physfree) rs s)"
proof (induction rs arbitrary: a s)
  case Nil
  then show ?case by (subst smap_loop.simps) (simp add: word_less_nat_alt)
next
  case (Cons r rs)
  have "unat (a + 20) = unat a + 20" using Cons.prems(2) by (subst unat_add_small) auto
  then have "smap_loop ld physfree (a + 20) e t = Some (rfold (use_region physfree) rs t)" for t :: "'a kernel"
    using Cons.prems by (intro Cons.IH) auto
  moreover have "a < e" using Cons.prems(3) by (simp add: word_less_nat_alt)
  ultimately show ?case
    using Cons.prems(1) by (subst smap_loop.simps) (auto split: sum.splits)
qed

lemma smap_regions_fold:
  assumes "modules_at ld modulep ms m" and "smap_at ld m rs"
  shows "smap_regions ld modulep physfree s = rfold (use_region physfree) rs s"
proof -
  let ?n = "ucast (load32 ld (m + 4)) :: u64"
  note a = assms(2)[unfolded smap_at_def]
  have u8: "unat (m + 8) = unat m + 8" using a by (subst unat_add_small) auto
  have un: "unat ?n = 20 * length rs" using a by (simp add: unsigned_ucast_eq take_bit_nat_eq_self)
  have "unat (m + ?n) = unat m + 20 * length rs" using a un by (subst unat_add_small) auto
  then have "unat (m + ?n + 8) = unat (m + 8) + 20 * length rs"
    using a unfolding u8 by (subst unat_add_small) auto
  then have "smap_loop ld physfree (m + 8) (m + ?n + 8) s = Some (rfold (use_region physfree) rs s)"
    using a u8 by (intro smap_loop_fold) auto
  then show ?thesis
    using find_module_skips[OF assms(1)] a by (simp add: smap_regions_def)
qed

section \<open>The pool of pages\<close>

lemma rfold_Nil: "rfold f [] = Inr"
  by (simp add: fun_eq_iff)

lemma use_region_unusable: "\<not> usable r \<Longrightarrow> use_region physfree r s = Inr s"
  by (auto simp: usable_def use_region_def)

lemma rfold_usable: "rfold (use_region physfree) rs s = rfold (use_region physfree) (filter usable rs) s"
  by (induction rs arbitrary: s) (auto simp: use_region_unusable rbind_def split: sum.splits)

lemma say_region: "\<exists>c. say (''Available Physical Memory [%p-%p %p]'' @ [CHR 0x0A]) [VU64 a, VU64 b, VU64 c'] s = Inr (s\<lparr>con := c\<rparr>)"
  by (simp add: say_def) (rule exI, rule refl)

lemma use_region_usable:
  assumes "usable r"
  obtains c where "use_region physfree r s = run_loop (freelist (base r) (length_of r) physfree (s\<lparr>con := c\<rparr>))"
  using assms say_region[of "base r" "base r + length_of r" "length_of r" s]
  by (auto simp: usable_def use_region_def)

text \<open>C14. Boot: whatever records the boot loader puts before the memory map, and whatever regions the map holds besides
  one usable region, the two loops of \<open>start\<close> end, and the allocator has the pages of that region behind
  the kernel: with \<open>n\<close> pages above the limit \<open>physfree + 1 MB\<close>, the pool holds \<open>n - 1\<close> different
  pages (block 0 is lost), all page aligned, above the limit and inside the region.\<close>

theorem boot_memory:
  fixes s :: "'a kernel"
  assumes "modules_at ld modulep ms m" and "smap_at ld m rs" and "filter usable rs = [r]"
    and "base r \<noteq> 0" and "unat (base r) + unat (length_of r) + 4096 \<le> 2 ^ 64"
    and "(unat (base r) + 4095) div 4096 * 4096 \<le> lim" and "lim < unat (base r) + unat (length_of r)"
    and "lim = unat (physfree + 1024 * 1024)" and "F = lim div 4096 * 4096 + 4096"
    and "n = (unat (base r) + unat (length_of r) - F + 4095) div 4096"
    and "2 \<le> n" and "n \<le> 50000" and "F + 50000 * 4096 < 2 ^ 52"
    and "pmm.truncate s = pmm_boot"
  shows "\<exists>t. smap_regions ld modulep physfree s = Inr t \<and>
    free_blocks t = [1..int n - 1] \<and> pmm_inv t \<and> length (pool t) = n - 1 \<and>
    (\<forall>p \<in> set (pool t). lim < unat p \<and> unat p < unat (base r) + unat (length_of r) \<and> 4096 dvd unat p)"
proof -
  have "usable r" using assms(3) by (metis list.set_intros(1) mem_Collect_eq set_filter Int_iff inter_set_filter)
  then obtain c where c: "use_region physfree r s = run_loop (freelist (base r) (length_of r) physfree (s\<lparr>con := c\<rparr>))"
    by (rule use_region_usable)
  have "pmm.truncate (s\<lparr>con := c\<rparr>) = pmm_boot" using assms(14) by (simp add: pmm.defs)
  note freelist_fresh[OF assms(4-13) this]
  moreover have "smap_regions ld modulep physfree s = run_loop (freelist (base r) (length_of r) physfree (s\<lparr>con := c\<rparr>))"
    using c by (simp add: smap_regions_fold[OF assms(1,2)] rfold_usable[of _ rs] assms(3) rfold_Nil)
  ultimately show ?thesis by auto
qed

text \<open>
  A loader's data: a record of another type with two more words, then a map with a reserved region and 126 MB
  from address 1 MB.
\<close>

definition loader_bytes :: "u8 list" where
  "loader_bytes = [1, 0, 0, 0, 2, 0, 0, 0, 0, 0, 0, 0, 0, 0, 0, 0] @
     [1, 0x90, 0, 0, 40, 0, 0, 0] @
     [0, 0xFC, 9, 0, 0, 0, 0, 0, 0, 4, 0, 0, 0, 0, 0, 0, 2, 0, 0, 0] @
     [0, 0, 0x10, 0, 0, 0, 0, 0, 0, 0, 0xEE, 7, 0, 0, 0, 0, 1, 0, 0, 0]"

definition loader_data :: "u64 \<Rightarrow> u8" where
  "loader_data a = (if unat a - 0x1000 < length loader_bytes then loader_bytes ! (unat a - 0x1000) else 0)"

lemma loader_records:
  "modules_at loader_data 0x1000 [(1, 2)] 0x1010"
  "smap_at loader_data 0x1010 [\<lparr>base = 0x9FC00, length_of = 0x400, type_of = 2\<rparr>,
      \<lparr>base = 0x100000, length_of = 0x7EE0000, type_of = 1\<rparr>]"
  by (simp_all add: smap_at_def load_smap_def load32_def load64_def upt_rec loader_data_def loader_bytes_def)

definition kernel_off :: tasks where
  "kernel_off = pmm.extend pmm_boot (pmm.more kernel_small)"

theorem boot_memory_witness:
  "\<exists>t. smap_regions loader_data 0x1000 0x400000 kernel_off = Inr t \<and>
    free_blocks t = [1..int 31455 - 1] \<and> pmm_inv t \<and> length (pool t) = 31455 - 1 \<and>
    (\<forall>p \<in> set (pool t). 0x500000 < unat p \<and>
       unat p < unat (base \<lparr>base = 0x100000, length_of = 0x7EE0000, type_of = 1\<rparr>) +
         unat (length_of \<lparr>base = 0x100000, length_of = 0x7EE0000, type_of = 1\<rparr>) \<and> 4096 dvd unat p)"
  by (rule boot_memory[OF loader_records, of _ "0x500000" "0x400000" "0x501000" "31455"])
    (simp_all add: usable_def kernel_off_def pmm.defs pmm_boot_def)

end
