(* ===== verification/Input_Spec.thy ===== *)
theory Input_Spec
  imports Programs_Spec
begin

text \<open>
  Input of user programs, from the keys to the memory of the process: the interrupts of the keys fill the line of the
  terminal, the key Enter wakes the reader, and the system call copies the line to the program.
\<close>

section \<open>A line of keys\<close>

text \<open>The keys without shift and control, and their characters.\<close>

definition key_char :: "u8 \<Rightarrow> char" where
  "key_char k = ScanCodeMap (getScancode k)"

definition plain_key :: "u8 \<Rightarrow> bool" where
  "plain_key k \<longleftrightarrow> CheckIfSpecialKey (getScancode k) = 0"

text \<open>The line editor: the line that a sequence of keys makes of a line.\<close>

fun typed :: "u8 list \<Rightarrow> string \<Rightarrow> string" where
  "typed [] l = l"
| "typed (k # ks) l = typed ks (if key_char k = CHR ''#'' then l
     else if key_char k = CHR ''-'' then butlast l else l @ [key_char k])"

lemma getchar_plain: "shiftKey c \<noteq> 1 \<Longrightarrow> plain_key k \<Longrightarrow> getchar k c = (key_char k, c)"
  by (simp add: getchar_def getKeyBoardKey_def plain_key_def key_char_def Let_def)

lemma length_typed: "length (typed ks l) \<le> length l + length ks"
proof (induction ks arbitrary: l)
  case (Cons k ks)
  show ?case
    using Cons.IH[of l] Cons.IH[of "butlast l"] Cons.IH[of "l @ [key_char k]"] by auto
qed simp

lemma set_typed: "set (typed ks l) \<subseteq> set l \<union> key_char ` set ks"
proof (induction ks arbitrary: l)
  case (Cons k ks)
  show ?case
    using Cons.IH[of l] Cons.IH[of "butlast l"] Cons.IH[of "l @ [key_char k]"] in_set_butlastD[of _ l] by auto
qed simp

lemma Enter: "plain_key 0x1C" "key_char 0x1C = CHR 0x0A"
  by (simp_all add: plain_key_def key_char_def getScancode_def CheckIfSpecialKey_def ScanCodeMap_def MakeKeyboardMapping_def)

lemma read_wait_line:
  fixes s :: "'a kernel"
  assumes "line_ok (con s)" and "READMODEON (con s)" and "shiftKey (con s) \<noteq> 1" and "keys s = ks @ 0x1C # rest"
    and "\<forall>k \<in> set ks. plain_key k \<and> key_char k \<noteq> CHR 0x0A" and "length (line (con s)) + length ks \<le> 1022"
  shows "\<exists>c. read_wait s = Some (Inr (s\<lparr>con := c, keys := rest\<rparr>)) \<and> line_ok c \<and> \<not> READMODEON c \<and>
    line c = typed ks (line (con s)) @ [NUL] \<and> shiftKey c \<noteq> 1 \<and> (cursor_ok (con s) \<longrightarrow> cursor_ok c)"
  using assms
proof (induction ks arbitrary: s)
  case Nil
  obtain c where c: "tunnel 0x1C (con s) = Inr c" "line_ok c" "line c = line (con s) @ [NUL]" "\<not> READMODEON c"
      "cursor_ok (con s) \<longrightarrow> cursor_ok c" "shiftKey c = shiftKey (con s)"
    using tunnel_edit[OF Nil.prems(1) getchar_plain[OF Nil.prems(3) Enter(1)]] Nil.prems(2)
    by (auto simp: Enter(2) ignored_def edit_def)
  then have "read_wait s = Some (Inr (s\<lparr>con := c, keys := rest\<rparr>))"
    using Nil.prems(2,4) by (subst read_wait.simps, simp, subst read_wait.simps, simp)
  then show ?case using c Nil.prems(3) by auto
next
  case (Cons k ks)
  let ?l = "line (con s)"
  let ?l' = "if key_char k = CHR ''#'' then ?l else if key_char k = CHR ''-'' then butlast ?l else ?l @ [key_char k]"
  have k: "plain_key k" "key_char k \<noteq> CHR 0x0A" using Cons.prems(5) by auto
  have len: "length ?l < 1022" using Cons.prems(6) by simp
  obtain c where c0: "tunnel k (con s) = Inr c" "line_ok c"
      "line c = (if ignored (key_char k) (con s) then ?l else edit (key_char k) ?l)"
      "READMODEON c = (READMODEON (con s) \<and> (ignored (key_char k) (con s) \<or> key_char k \<noteq> CHR 0x0A \<and> length ?l < 1022))"
      "cursor_ok (con s) \<longrightarrow> cursor_ok c" "shiftKey c = shiftKey (con s)"
    using tunnel_edit[OF Cons.prems(1) getchar_plain[OF Cons.prems(3) k(1)]] by (elim exE conjE) (rule that)
  have c: "tunnel k (con s) = Inr c" "line_ok c" "line c = ?l'" "READMODEON c"
      "cursor_ok (con s) \<longrightarrow> cursor_ok c" "shiftKey c = shiftKey (con s)"
    using c0 Cons.prems(2) k(2) len by (simp_all add: ignored_def edit_def)
  let ?s = "s\<lparr>con := c, keys := ks @ 0x1C # rest\<rparr>"
  have "length (line c) \<le> length ?l + 1" using c(3) by auto
  then have r: "\<exists>d. read_wait ?s = Some (Inr (?s\<lparr>con := d, keys := rest\<rparr>)) \<and> line_ok d \<and> \<not> READMODEON d \<and>
      line d = typed ks (line (con ?s)) @ [NUL] \<and> shiftKey d \<noteq> 1 \<and> (cursor_ok (con ?s) \<longrightarrow> cursor_ok d)"
    by (intro Cons.IH) (use c(2,4,6) Cons.prems(3,5,6) in simp_all)
  have "read_wait s = read_wait ?s"
    using Cons.prems(2,4) c(1) by (simp add: read_wait.simps[of s])
  then show ?case using r c(3,5) by (elim exE conjE) (intro exI conjI impI; simp)
qed

section \<open>Copying the line\<close>

lemma consecutive_upds:
  fixes f :: u64
  assumes "n < 4096"
  shows "fold (\<lambda>(e, v) m. m(f + of_nat e := v)) (map (\<lambda>k. (e + k, g k)) [0..<n]) m x =
    (if unat (x - (f + of_nat e)) < n then g (unat (x - (f + of_nat e))) else m x)"
  using assms
proof (induction n)
  case (Suc n)
  have "unat (of_nat n :: u64) = n" using Suc.prems by (intro unat_of_nat_small) simp
  then have "x - (f + of_nat e) = of_nat n \<longleftrightarrow> unat (x - (f + of_nat e)) = n"
    using word_unat_eq_iff[of "x - (f + of_nat e)" "of_nat n"] by simp
  moreover have "x - (f + of_nat e) = of_nat n \<longleftrightarrow> x = f + of_nat (e + n)"
    by (auto simp: algebra_simps)
  ultimately have "x = f + of_nat (e + n) \<longleftrightarrow> unat (x - (f + of_nat e)) = n" by blast
  then show ?case using Suc by (auto simp: less_Suc_eq)
qed simp

lemma store64_upds:
  "store64 m (f + of_nat e) v = fold (\<lambda>(e, v) m. m(f + of_nat e := v)) (map (\<lambda>k. (e + k, byte_of v k)) [0..<8]) m"
  by (rule ext) (simp only: consecutive_upds store64_def)

lemma rw_page_kstore64:
  fixes s :: "'a kernel"
  assumes "rw_page b f s" and "e + 8 \<le> 4096"
  shows "kstore64 (b + of_nat e) v s = Inr (s\<lparr>pmem := store64 (pmem s) (f + of_nat e) v\<rparr>)"
    and "rw_page b f (s\<lparr>pmem := store64 (pmem s) (f + of_nat e) v\<rparr>)"
proof -
  have t: "translate s (b + of_nat e) = Some (f + of_nat e)" "translate s (b + of_nat e + 7) = Some (f + of_nat (e + 7))"
    using rw_page_translate[OF assms(1), of e] rw_page_translate[OF assms(1), of "e + 7"] assms(2) by (simp_all add: add.assoc)
  have "page_aligned b" using assms(1) by (simp add: rw_page_def)
  then have "unat (b + of_nat e) mod 4096 = e"
    using unat_in_page[of b e] assms(2) by (auto simp: page_aligned_dvd dvd_def)
  then have "within_page (b + of_nat e)"
    using assms(2) by (simp add: within_page_def word_le_nat_alt unsigned_take_bit_eq take_bit_nat_def)
  then show "kstore64 (b + of_nat e) v s = Inr (s\<lparr>pmem := store64 (pmem s) (f + of_nat e) v\<rparr>)"
    using t by (simp add: kstore64_def touch_def vstore64_def)
  show "rw_page b f (s\<lparr>pmem := store64 (pmem s) (f + of_nat e) v\<rparr>)"
    unfolding store64_upds by (rule rw_page_upds[OF assms(1,1)]) (use assms(2) in auto)
qed

lemma store64_outside:
  fixes f :: u64
  assumes "page_aligned f" and "e + n + 8 \<le> 4096"
  shows "i < n \<Longrightarrow> store64 m (f + of_nat (e + n)) v (f + of_nat (e + i)) = m (f + of_nat (e + i))"
    and "\<not> unat (x - (f + of_nat e)) < n + 8 \<Longrightarrow> store64 m (f + of_nat (e + n)) v x = m x"
    and "store64 m (f + of_nat (e + n)) v (f + of_nat (e + n)) = byte_of v 0"
proof -
  show "store64 m (f + of_nat (e + n)) v (f + of_nat (e + i)) = m (f + of_nat (e + i))" if "i < n"
  proof -
    have "\<not> unat (f + of_nat (e + i) - (f + of_nat (e + n))) < 8"
    proof
      assume "unat (f + of_nat (e + i) - (f + of_nat (e + n))) < 8"
      then obtain d where d: "d < 8" "f + of_nat (e + i) = f + of_nat (e + n) + of_nat d" by (rule unat_diff_lessE)
      then have "f + of_nat (e + i) = f + of_nat (e + n + d)" by (simp add: add.assoc)
      then have "e + i = e + n + d"
        using in_page_eq[OF assms(1,1), of "e + i" "e + n + d"] assms(2) d(1) that by simp
      then show False using that by simp
    qed
    then show ?thesis by (simp only: store64_def if_False)
  qed
  show "store64 m (f + of_nat (e + n)) v x = m x" if "\<not> unat (x - (f + of_nat e)) < n + 8"
  proof -
    have "\<not> unat (x - (f + of_nat (e + n))) < 8"
    proof
      assume "unat (x - (f + of_nat (e + n))) < 8"
      then obtain d where d: "d < 8" "x = f + of_nat (e + n) + of_nat d" by (rule unat_diff_lessE)
      then have "x - (f + of_nat e) = of_nat (n + d)" by simp
      moreover have "unat (of_nat (n + d) :: u64) = n + d" using assms(2) d(1) by (intro unat_of_nat_small) simp
      ultimately show False using that d(1) by simp
    qed
    then show ?thesis by (simp only: store64_def if_False)
  qed
  show "store64 m (f + of_nat (e + n)) v (f + of_nat (e + n)) = byte_of v 0" by (simp add: store64_def)
qed

lemma copy_line:
  fixes s :: "'a kernel"
  assumes "rw_page b f s" and "e + n + 7 \<le> 4096" and "\<forall>i < n. 0 \<le> schar (stdin (con s) ! i)"
  shows "\<exists>m. rfold (\<lambda>i s. kstore64 (b + of_nat e + of_nat i) (of_int (schar (stdin (con s) ! i))) s) [0..<n] s =
      Inr (s\<lparr>pmem := m\<rparr>) \<and> rw_page b f (s\<lparr>pmem := m\<rparr>) \<and>
    (\<forall>i < n. m (f + of_nat (e + i)) = of_char (stdin (con s) ! i)) \<and>
    (\<forall>x. \<not> unat (x - (f + of_nat e)) < n + 7 \<longrightarrow> m x = pmem s x)"
  using assms(2,3)
proof (induction n)
  case 0
  then show ?case using assms(1) by (intro exI[of _ "pmem s"]) simp
next
  case (Suc n)
  obtain m where m: "rfold (\<lambda>i s. kstore64 (b + of_nat e + of_nat i) (of_int (schar (stdin (con s) ! i))) s) [0..<n] s =
        Inr (s\<lparr>pmem := m\<rparr>)" "rw_page b f (s\<lparr>pmem := m\<rparr>)"
      "\<forall>i < n. m (f + of_nat (e + i)) = of_char (stdin (con s) ! i)"
      "\<forall>x. \<not> unat (x - (f + of_nat e)) < n + 7 \<longrightarrow> m x = pmem s x"
    using Suc by auto
  let ?ch = "stdin (con s) ! n"
  let ?m = "store64 m (f + of_nat (e + n)) (of_int (schar ?ch))"
  have a: "page_aligned f" by (rule rw_page_walk(2)[OF assms(1)])
  have n8: "e + n + 8 \<le> 4096" using Suc.prems(1) by simp
  note st = rw_page_kstore64[OF m(2) n8, of "of_int (schar ?ch)"]
  have "0 \<le> schar ?ch" "schar ?ch < 256"
    using Suc.prems(2) sint_lt[of "of_char ?ch :: u8"] by (simp_all add: schar_def)
  then have "byte_of (of_int (schar ?ch)) 0 = (of_char ?ch :: u8)" using small_bytes(1) schar_byte by metis
  then have new: "?m (f + of_nat (e + i)) = of_char (stdin (con s) ! i)" if "i < Suc n" for i
    using that m(3) store64_outside(1)[OF a n8, of _ m "of_int (schar ?ch)"]
      store64_outside(3)[OF a n8, of m "of_int (schar ?ch)"] by (cases "i = n") auto
  have old: "?m x = pmem s x" if "\<not> unat (x - (f + of_nat e)) < Suc n + 7" for x
    using that m(4) store64_outside(2)[OF a n8, of x m "of_int (schar ?ch)"] by simp
  show ?case
    using m(1) st new old by (intro exI[of _ ?m]) (simp add: add.assoc)
qed

section \<open>Reading a line\<close>

lemma ScanCodeMap_ascii: "0 \<le> schar (ScanCodeMap k)"
proof -
  have "0 \<le> schar (fold (\<lambda>(k, ch) m. m(k := ch)) l m k)"
    if "\<forall>x \<in> set l. 0 \<le> schar (snd x)" "\<forall>k. 0 \<le> schar (m k)" for l and m :: "int \<Rightarrow> char"
    using that by (induction l arbitrary: m) auto
  moreover have "\<forall>x \<in> set MakeKeyboardMapping. 0 \<le> schar (snd x)"
    by (simp add: MakeKeyboardMapping_def schar_def)
  ultimately show ?thesis by (simp add: ScanCodeMap_def schar_def)
qed

text \<open>The console after a line has been read.\<close>

lemma typed_ascii:
  assumes "\<forall>k \<in> set ks. key_char k \<noteq> NUL" and "i \<le> length (typed ks [])"
  shows "0 \<le> schar ((typed ks [] @ [NUL]) ! i)" and "cstring (typed ks [])"
proof -
  have ch: "0 \<le> schar ch \<and> ch \<noteq> NUL" if "ch \<in> set (typed ks [])" for ch
    using that set_typed[of ks "[]"] assms(1) ScanCodeMap_ascii by (fastforce simp: key_char_def)
  then show "cstring (typed ks [])" by (auto simp: cstring_def)
  show "0 \<le> schar ((typed ks [] @ [NUL]) ! i)"
    using ch[of "typed ks [] ! i"] assms(2) by (cases "i < length (typed ks [])") (auto simp: nth_append schar_def)
qed

lemma terminal_read_line:
  fixes s :: "'a kernel"
  assumes "rw_page b f s" and "e + length (typed ks []) + 8 \<le> 4096"
    and "line_ok (con s)" and "line (con s) = []" and "shiftKey (con s) \<noteq> 1"
    and "keys s = ks @ 0x1C # rest" and "length ks \<le> 1022"
    and "\<forall>k \<in> set ks. plain_key k \<and> key_char k \<notin> {CHR 0x0A, NUL}"
  obtains m c where "terminal_read (b + of_nat e) s =
      Inr (of_nat (length (typed ks []) + 1), s\<lparr>pmem := m, con := c, keys := rest\<rparr>)"
    and "holds_string (s\<lparr>pmem := m\<rparr>) (b + of_nat e) (typed ks [])"
    and "line_ok c" and "line c = []" and "shiftKey c \<noteq> 1"
    and "\<forall>x. \<not> unat (x - (f + of_nat e)) < length (typed ks []) + 8 \<longrightarrow> m x = pmem s x"
proof -
  let ?l = "typed ks []" and ?n = "length (typed ks []) + 1"
  let ?s = "s\<lparr>con := (con s)\<lparr>READMODEON := True\<rparr>\<rparr>"
  have on: "line_ok (con ?s)" "line (con ?s) = []" "shiftKey (con ?s) \<noteq> 1"
    using assms(3-5) line_length[OF assms(3)] by (auto simp: line_ok_def line_def)
  obtain c where c: "read_wait ?s = Some (Inr (?s\<lparr>con := c, keys := rest\<rparr>))" "line_ok c" "line c = ?l @ [NUL]" "shiftKey c \<noteq> 1"
    using read_wait_line[of ?s ks rest] on assms(6-8) by auto
  have len: "stdinlength c = ?n" using line_length[OF c(2)] c(3) by simp
  have nth: "stdin c ! i = (?l @ [NUL]) ! i" if "i < ?n" for i
    using that c(3) len by (metis line_def nth_take)
  let ?t = "?s\<lparr>con := c, keys := rest\<rparr>" and ?c = "c\<lparr>stdin := replicate 1024 CHR '' '', stdinlength := 0\<rparr>"
  have "rw_page b f ?t" using assms(1) by (simp add: rw_page_def)
  moreover have "e + ?n + 7 \<le> 4096" using assms(2) by simp
  moreover have "\<forall>i < ?n. 0 \<le> schar (stdin (con ?t) ! i)" using nth typed_ascii(1)[of ks] assms(8) by auto
  ultimately obtain m where m: "rfold (\<lambda>i s. kstore64 (b + of_nat e + of_nat i) (of_int (schar (stdin (con s) ! i))) s) [0..<?n] ?t =
        Inr (?t\<lparr>pmem := m\<rparr>)" "rw_page b f (?t\<lparr>pmem := m\<rparr>)"
      "\<forall>i < ?n. m (f + of_nat (e + i)) = of_char (stdin (con ?t) ! i)"
      "\<forall>x. \<not> unat (x - (f + of_nat e)) < ?n + 7 \<longrightarrow> m x = pmem ?t x"
    using copy_line[of b f ?t e ?n] by blast
  have "m (f + of_nat (e + k)) = of_char (cget ?l k)" if "k \<le> length ?l" for k
    using that m(3) nth[of k] by (auto simp: cget_def nth_append)
  moreover have "rw_page b f (s\<lparr>pmem := m\<rparr>)" using m(2) by (simp add: rw_page_def)
  ultimately have "holds_string (s\<lparr>pmem := m\<rparr>) (b + of_nat e) ?l"
    using typed_ascii(2)[of ks 0] assms(2,8) by (intro holds_stringI[OF _ refl]) auto
  moreover have "terminal_read (b + of_nat e) s = Inr (of_nat ?n, s\<lparr>pmem := m, con := ?c, keys := rest\<rparr>)"
    unfolding terminal_read_def using c(1) m(1) len by simp
  moreover have "line_ok ?c" "line ?c = []" "shiftKey ?c \<noteq> 1" using c(2,4) by (simp_all add: line_ok_def line_def)
  ultimately show thesis using that m(4) by simp
qed

text \<open>C4. Input of a program, from the keys to its memory: while a program waits in \<open>gets\<close>, the keys up to Enter are
  handled by the keyboard interrupt, one by one; the call then ends, and the buffer of the program holds, as a
  string, the line that the keys make: each key appends its character, the key '-' removes the
  last one, and keys without a character do nothing. The result is the length with the
  terminator. Keys behind Enter are left for the next call, the line of the terminal is empty
  again, and memory outside the buffer and the seven bytes behind it is not changed.\<close>

theorem gets_line:
  fixes s :: "'a kernel"
  assumes "rw_page b f s" and "e + length (typed ks []) + 8 \<le> 4096" and "RING_0_MODE s = 0"
    and "line_ok (con s)" and "line (con s) = []" and "shiftKey (con s) \<noteq> 1"
    and "keys s = ks @ 0x1C # rest" and "length ks \<le> 1022"
    and "\<forall>k \<in> set ks. plain_key k \<and> key_char k \<notin> {CHR 0x0A, NUL}"
  shows "\<exists>m c. gets u (b + of_nat e) s = Inr (Inr (int (length (typed ks [])) + 1), s\<lparr>pmem := m, con := c, keys := rest\<rparr>) \<and>
    holds_string (s\<lparr>pmem := m, con := c, keys := rest\<rparr>) (b + of_nat e) (typed ks []) \<and>
    line_ok c \<and> line c = [] \<and> shiftKey c \<noteq> 1 \<and>
    (\<forall>x. \<not> unat (x - (f + of_nat e)) < length (typed ks []) + 8 \<longrightarrow> m x = pmem s x)"
proof -
  let ?l = "typed ks []" and ?n = "length (typed ks []) + 1" and ?s = "s\<lparr>RING_0_MODE := 1\<rparr>"
  have p: "rw_page b f ?s" and cs: "line_ok (con ?s)" "line (con ?s) = []" "shiftKey (con ?s) \<noteq> 1" "keys ?s = ks @ 0x1C # rest"
    using assms(1,4-7) by simp_all
  obtain m c where r: "terminal_read (b + of_nat e) ?s = Inr (of_nat ?n, ?s\<lparr>pmem := m, con := c, keys := rest\<rparr>)"
      "holds_string (?s\<lparr>pmem := m\<rparr>) (b + of_nat e) ?l" "line_ok c" "line c = []" "shiftKey c \<noteq> 1"
      "\<forall>x. \<not> unat (x - (f + of_nat e)) < length ?l + 8 \<longrightarrow> m x = pmem ?s x"
    by (rule terminal_read_line[OF p assms(2) cs assms(8,9)])
  let ?s' = "s\<lparr>pmem := m, con := c, keys := rest\<rparr>"
  have "unat (of_nat ?n :: u64) = ?n"
    using length_typed[of ks "[]"] assms(8) by (intro unat_of_nat_small) simp
  then have "to_int32 (of_nat ?n) = int ?n"
    using to_int32_small[of "of_nat ?n"] length_typed[of ks "[]"] assms(8) by (simp del: of_nat_add)
  then have "gets u (b + of_nat e) s = Inr (Inr (int (length ?l) + 1), ?s')"
    using assms(3) r(1) by (simp add: gets_def ucall_def int80_def dispatch_def syscall_init_def k_read_def ureturn_def
        word_le_nat_alt)
  moreover have "holds_string ?s' (b + of_nat e) ?l" using r(2) by (simp add: holds_string_def rw_page_def)
  ultimately show ?thesis using r(3-6) by (intro exI[of _ m] exI[of _ c]) simp
qed

text \<open>The keys l, q, '-', s and Enter, with a key behind them.\<close>

lemma key_codes: "key_char 0x26 = CHR ''l''" "key_char 0x10 = CHR ''q''" "key_char 0x0C = CHR ''-''" "key_char 0x1F = CHR ''s''"
  by (simp_all add: key_char_def getScancode_def ScanCodeMap_def MakeKeyboardMapping_def)

lemma keys_ls:
  "\<forall>k \<in> set [0x26, 0x10, 0x0C, 0x1F]. plain_key k \<and> key_char k \<notin> {CHR 0x0A, NUL}"
  "typed [0x26, 0x10, 0x0C, 0x1F] [] = ''ls''"
  by (simp_all add: key_codes plain_key_def getScancode_def CheckIfSpecialKey_def)

theorem gets_line_witness:
  "\<exists>m c. gets program_small (0x400000 + of_nat 0x800) (kernel_user\<lparr>keys := [0x26, 0x10, 0x0C, 0x1F, 0x1C, 0x20]\<rparr>) =
      Inr (Inr 3, kernel_user\<lparr>pmem := m, con := c, keys := [0x20]\<rparr>) \<and>
    holds_string (kernel_user\<lparr>pmem := m, con := c, keys := [0x20]\<rparr>) 0x400800 ''ls'' \<and> line c = []"
proof -
  let ?s = "kernel_user\<lparr>keys := [0x26, 0x10, 0x0C, 0x1F, 0x1C, 0x20]\<rparr>"
  have "\<exists>m c. gets program_small (0x400000 + of_nat 0x800) ?s =
      Inr (Inr (int (length (typed [0x26, 0x10, 0x0C, 0x1F] [])) + 1), ?s\<lparr>pmem := m, con := c, keys := [0x20]\<rparr>) \<and>
    holds_string (?s\<lparr>pmem := m, con := c, keys := [0x20]\<rparr>) (0x400000 + of_nat 0x800) (typed [0x26, 0x10, 0x0C, 0x1F] []) \<and>
    line_ok c \<and> line c = [] \<and> shiftKey c \<noteq> 1 \<and>
    (\<forall>x. \<not> unat (x - (0x21E000 + of_nat 0x800)) < length (typed [0x26, 0x10, 0x0C, 0x1F] []) + 8 \<longrightarrow> m x = pmem ?s x)"
  proof (rule gets_line)
    show "rw_page 0x400000 0x21E000 ?s" using kernel_user_page by (simp add: rw_page_def)
    show "line_ok (con ?s)" using boot_ok(2) by simp
  qed (use keys_ls in \<open>simp_all add: console_boot_def line_def\<close>)
  then show ?thesis unfolding keys_ls(2) by auto
qed

end
