(* ===== verification/File_Read_Spec.thy ===== *)
theory File_Read_Spec
  imports Input_Spec
begin

text \<open>
  Reading files: an open file is a stream of bytes, and each call of \<open>read\<close> takes the next ones and
  puts them, with a terminator, into a buffer of the program.
\<close>

section \<open>Storing a list of bytes\<close>

definition put_bytes :: "u64 \<Rightarrow> u8 list \<Rightarrow> (u64 \<Rightarrow> u8) \<Rightarrow> u64 \<Rightarrow> u8" where
  "put_bytes a bs m x = (if unat (x - a) < length bs then bs ! unat (x - a) else m x)"

lemma put_bytes_Nil [simp]: "put_bytes a [] m = m"
  by (rule ext) (simp add: put_bytes_def)

lemma put_bytes_snoc:
  assumes "length bs < 2 ^ 63"
  shows "put_bytes a (bs @ [v]) m = (put_bytes a bs m)(a + of_nat (length bs) := v)"
proof
  fix x
  have "unat (of_nat (length bs) :: u64) = length bs" using assms by (intro unat_of_nat_small) simp
  then have "x - a = of_nat (length bs) \<longleftrightarrow> unat (x - a) = length bs"
    using word_unat_eq_iff[of "x - a" "of_nat (length bs)"] by simp
  moreover have "x - a = of_nat (length bs) \<longleftrightarrow> x = a + of_nat (length bs)" by (auto simp: algebra_simps)
  ultimately have "x = a + of_nat (length bs) \<longleftrightarrow> unat (x - a) = length bs" by blast
  then show "put_bytes a (bs @ [v]) m x = ((put_bytes a bs m)(a + of_nat (length bs) := v)) x"
    by (auto simp: put_bytes_def nth_append less_Suc_eq)
qed

lemma put_bytes_Cons:
  assumes "length bs < 2 ^ 63 - 1"
  shows "put_bytes a (v # bs) m = put_bytes (a + 1) bs (m(a := v))"
  using assms
proof (induction bs rule: rev_induct)
  case Nil
  show ?case using put_bytes_snoc[of "[]" a v m] by simp
next
  case (snoc w bs)
  have "put_bytes a ((v # bs) @ [w]) m = (put_bytes a (v # bs) m)(a + of_nat (length (v # bs)) := w)"
    by (rule put_bytes_snoc) (use snoc.prems in simp)
  moreover have "put_bytes (a + 1) (bs @ [w]) (m(a := v)) = (put_bytes (a + 1) bs (m(a := v)))(a + 1 + of_nat (length bs) := w)"
    by (rule put_bytes_snoc) (use snoc.prems in simp)
  ultimately show ?case using snoc by (simp add: add.assoc del: fun_upd_apply)
qed

lemma put_bytes_page:
  fixes s :: "'a machine_scheme"
  assumes "rw_page b f s" and "rw_page b' f' s" and "e + length bs \<le> 4096"
  shows "rw_page b f (s\<lparr>pmem := put_bytes (f' + of_nat e) bs (pmem s)\<rparr>)"
  using assms
proof (induction bs arbitrary: s rule: rev_induct)
  case (snoc v bs)
  let ?s = "s\<lparr>pmem := put_bytes (f' + of_nat e) bs (pmem s)\<rparr>" and ?ups = "map (\<lambda>k. (e + k, bs ! k)) [0..<length bs]"
  have "put_bytes (f' + of_nat e) bs (pmem s) = fold (\<lambda>(e, v) m. m(f' + of_nat e := v)) ?ups (pmem s)"
    by (rule ext, subst consecutive_upds) (use snoc.prems(3) in \<open>auto simp: put_bytes_def\<close>)
  then have "rw_page b f ?s" "rw_page b' f' ?s"
    using rw_page_upds[OF snoc.prems(1,2), of ?ups] rw_page_upds[OF snoc.prems(2,2), of ?ups] snoc.prems(3) by auto
  then have "rw_page b f (?s\<lparr>pmem := (pmem ?s)(f' + of_nat (e + length bs) := v)\<rparr>)"
    by (rule rw_page_upd) (use snoc.prems(3) in simp)
  then show ?case using snoc.prems(3) by (simp add: put_bytes_snoc add.assoc del: fun_upd_apply)
qed simp

section \<open>The bytes of a file\<close>

text \<open>The address \<open>a\<close> of the kernel's view of the file shows the bytes \<open>ds\<close>, which lie outside of \<open>D\<close>.\<close>

definition file_bytes :: "u64 \<Rightarrow> u8 list \<Rightarrow> u64 set \<Rightarrow> 'a machine_scheme \<Rightarrow> bool" where
  "file_bytes a ds D s \<longleftrightarrow> (\<forall>k < length ds. p1_index (a + of_nat k) \<noteq> 0x1FE \<and>
     (\<exists>x. translate s (a + of_nat k) = Some x \<and> x \<notin> D \<and> pmem s x = ds ! k))"

text \<open>A store into a page of a program changes no translation.\<close>

lemma translate_upd:
  fixes s :: "'a machine_scheme"
  assumes "rw_page b f s" and "e < 4096" and "p1_index a \<noteq> 0x1FE"
  shows "translate (s\<lparr>pmem := (pmem s)(f + of_nat e := v)\<rparr>) a = translate s a"
proof -
  let ?m = "(pmem s)(f + of_nat e := v)"
  obtain F where F: "pt_tree (pmem s) (root s) F" using assms(1) by (auto simp: rw_page_def)
  have pt: "pte ?m t j = pte (pmem s) t j" if "t \<in> tables s" "unat j < 512" for t j
  proof (rule pte_upd_other[OF rw_page_walk(2)[OF assms(1)] _ that(2) assms(2)])
    show "page_aligned t" using that(1) pt_tree_aligned[OF F] by (auto simp: ptables_def)
    show "t \<noteq> f" using that(1) assms(1) by (auto simp: rw_page_def)
  qed
  have "path ?m (root s) (mmu_indices a) = walk_to s (mmu_indices a)"
    using data_tree(1)[OF F _ idx_ok_indices[OF assms(3)], of ?m] pt by (simp add: indices_split)
  then show ?thesis by (simp add: translate_def del: path.simps)
qed

lemma file_bytes_upd:
  fixes s :: "'a machine_scheme"
  assumes "file_bytes a ds D s" and "rw_page b f s" and "e < 4096" and "f + of_nat e \<in> D"
  shows "file_bytes a ds D (s\<lparr>pmem := (pmem s)(f + of_nat e := v)\<rparr>)"
  unfolding file_bytes_def
proof (intro allI impI)
  fix k assume "k < length ds"
  then obtain x where x: "p1_index (a + of_nat k) \<noteq> 0x1FE" "translate s (a + of_nat k) = Some x" "x \<notin> D" "pmem s x = ds ! k"
    using assms(1) by (auto simp: file_bytes_def)
  then have "x \<noteq> f + of_nat e" using assms(4) by blast
  then show "p1_index (a + of_nat k) \<noteq> 0x1FE \<and>
     (\<exists>x. translate (s\<lparr>pmem := (pmem s)(f + of_nat e := v)\<rparr>) (a + of_nat k) = Some x \<and> x \<notin> D \<and>
        pmem (s\<lparr>pmem := (pmem s)(f + of_nat e := v)\<rparr>) x = ds ! k)"
    using translate_upd[OF assms(2,3) x(1), of v] x by (intro conjI exI[of _ x]) simp_all
qed

lemma file_bytes_put:
  fixes s :: "'a machine_scheme"
  assumes "file_bytes a ds D s" and "rw_page b f s" and "e + length bs \<le> 4096"
    and "\<forall>k < length bs. f + of_nat (e + k) \<in> D"
  shows "file_bytes a ds D (s\<lparr>pmem := put_bytes (f + of_nat e) bs (pmem s)\<rparr>)"
  using assms(3,4)
proof (induction bs rule: rev_induct)
  case Nil
  show ?case using assms(1) by simp
next
  case (snoc v bs)
  let ?s = "s\<lparr>pmem := put_bytes (f + of_nat e) bs (pmem s)\<rparr>"
  have "rw_page b f ?s" by (rule put_bytes_page[OF assms(2,2)]) (use snoc.prems in simp)
  then have "file_bytes a ds D (?s\<lparr>pmem := (pmem ?s)(f + of_nat (e + length bs) := v)\<rparr>)"
    using snoc by (intro file_bytes_upd) auto
  then show ?case using snoc.prems by (simp add: put_bytes_snoc add.assoc del: fun_upd_apply)
qed

lemma file_bytes_drop: "file_bytes a ds D s \<Longrightarrow> n \<le> length ds \<Longrightarrow> file_bytes (a + of_nat n) (drop n ds) D s"
  unfolding file_bytes_def
proof (intro allI impI)
  fix k assume a: "\<forall>k<length ds. p1_index (a + of_nat k) \<noteq> 510 \<and> (\<exists>x. translate s (a + of_nat k) = Some x \<and> x \<notin> D \<and> pmem s x = ds ! k)"
    and "n \<le> length ds" "k < length (drop n ds)"
  then show "p1_index (a + of_nat n + of_nat k) \<noteq> 510 \<and>
      (\<exists>x. translate s (a + of_nat n + of_nat k) = Some x \<and> x \<notin> D \<and> pmem s x = drop n ds ! k)"
    using a[rule_format, of "n + k"] by (simp add: add.assoc)
qed

section \<open>The copy loop\<close>

lemma rw_page_kstore8:
  fixes s :: "'a kernel"
  assumes "rw_page b f s" and "e < 4096"
  shows "kstore8 (b + of_nat e) v s = Inr (s\<lparr>pmem := (pmem s)(f + of_nat e := v)\<rparr>)"
  using rw_page_translate[OF assms] by (simp add: kstore8_def vstore8_def)

lemma read_loop_bytes:
  fixes s :: "'a kernel"
  assumes "rw_page b f s" and "e + min k (length ds) \<le> 4096" and "\<forall>j < min k (length ds). f + of_nat (e + j) \<in> D"
    and "files s p = Some fo" and "inodes s (node fo) = Some nd"
    and "file_bytes i ds D s" and "unat i + length ds = unat (iend nd)"
  shows "read_loop p i n k (b + of_nat e) s = Inr (n + min k (length ds),
    s\<lparr>pmem := put_bytes (f + of_nat e) (take k ds) (pmem s),
      files := (files s)(p \<mapsto> fo\<lparr>currentoffset := currentoffset fo + of_nat (min k (length ds))\<rparr>)\<rparr>)"
  using assms
proof (induction k arbitrary: i n e s fo ds)
  case 0
  have "(files s)(p \<mapsto> fo) = files s" using 0(4) by (rule fun_upd_idem)
  then show ?case by simp
next
  case (Suc k)
  have "(files s)(p \<mapsto> fo) = files s" using Suc.prems(4) by (rule fun_upd_idem)
  show ?case
  proof (cases ds)
    case Nil
    then show ?thesis using Suc.prems(4,5,7) \<open>(files s)(p \<mapsto> fo) = files s\<close> by (simp add: deref_def word_le_nat_alt)
  next
    case (Cons v ds')
    let ?fo = "fo\<lparr>currentoffset := currentoffset fo + 1\<rparr>"
    let ?s = "s\<lparr>pmem := (pmem s)(f + of_nat e := v)\<rparr>"
    let ?t = "?s\<lparr>files := (files s)(p \<mapsto> ?fo)\<rparr>"
    have le: "e < 4096" "e + 1 + min k (length ds') \<le> 4096" using Suc.prems(2) Cons by auto
    have lt: "unat i < unat (iend nd)" using Suc.prems(7) Cons by simp
    have "unat (iend nd) < 2 ^ 64" using unsigned_less[of "iend nd"] by simp
    then have ui: "unat (i + 1) = unat i + 1" using lt unat_add_small[of i 1] by simp
    obtain x where x: "translate s i = Some x" "pmem s x = v" using Suc.prems(6) Cons by (auto simp: file_bytes_def)
    then have ld: "kload8 i s = Inr (v, s)" by (simp add: kload8_def vload8_def)
    have D: "f + of_nat e \<in> D" using Suc.prems(3)[rule_format, of 0] Cons by simp
    have "file_bytes i ds D ?s" by (rule file_bytes_upd[OF Suc.prems(6,1) le(1) D])
    then have fb: "file_bytes (i + 1) ds' D ?t" using file_bytes_drop[of i ds D ?s 1] Cons by (simp add: file_bytes_def translate_def)
    have pg: "rw_page b f ?t" using rw_page_upd[OF Suc.prems(1,1) le(1), of v] by (simp add: rw_page_def)
    have "read_loop p (i + 1) (n + 1) k (b + of_nat (e + 1)) ?t = Inr (n + 1 + min k (length ds'),
      ?t\<lparr>pmem := put_bytes (f + of_nat (e + 1)) (take k ds') (pmem ?t),
        files := (files ?t)(p \<mapsto> ?fo\<lparr>currentoffset := currentoffset ?fo + of_nat (min k (length ds'))\<rparr>)\<rparr>)"
    proof (rule Suc.IH[OF pg le(2) _ _ _ fb])
      show "\<forall>j < min k (length ds'). f + of_nat (e + 1 + j) \<in> D"
      proof (intro allI impI)
        fix j assume "j < min k (length ds')"
        then show "f + of_nat (e + 1 + j) \<in> D" using Suc.prems(3)[rule_format, of "Suc j"] Cons by simp
      qed
    qed (use Suc.prems(5,7) Cons ui in simp_all)
    moreover have "put_bytes (f + of_nat e) (take (Suc k) ds) (pmem s) =
        put_bytes (f + of_nat (e + 1)) (take k ds') ((pmem s)(f + of_nat e := v))"
      using put_bytes_Cons[of "take k ds'" "f + of_nat e" v "pmem s"] Cons le(2) by (simp add: ac_simps)
    ultimately show ?thesis
      using Suc.prems(4,5) Cons lt ld rw_page_kstore8[OF Suc.prems(1) le(1), of v]
      by (simp add: deref_def word_le_nat_alt ac_simps del: fun_upd_apply)
  qed
qed

section \<open>The system call\<close>

text \<open>The descriptor is an \<open>int\<close>; the upper half of the register that carries it is not defined.\<close>

lemma wide_small:
  assumes "i < 2 ^ 31"
  shows "to_int32 (wide hi (int i)) = int i" and "i \<le> unat (wide hi (int i))"
proof -
  have u: "unat (of_nat i :: u64) = i" using assms by (intro unat_of_nat_small) simp
  have b: "n < 32" if "bit i n" for n
  proof (rule ccontr)
    assume "\<not> n < 32"
    moreover have "take_bit 32 i = i" using assms by (simp add: take_bit_nat_eq_self)
    ultimately show False using that by (metis bit_take_bit_iff)
  qed
  have t: "take_bit 32 (wide hi (int i)) = of_nat i"
    by (rule bit_word_eqI) (use b in \<open>auto simp: wide_def bit_simps\<close>)
  have "(ucast (wide hi (int i)) :: u32) = ucast (of_nat i :: u64)"
    by (rule bit_word_eqI) (auto simp: wide_def bit_simps)
  then show "to_int32 (wide hi (int i)) = int i" using to_int32_small[of "of_nat i"] u assms by (simp add: to_int32_def)
  have "unat (take_bit 32 (wide hi (int i))) \<le> unat (wide hi (int i))"
    by (simp add: unsigned_take_bit_eq)
  then show "i \<le> unat (wide hi (int i))" using t u by simp
qed

text \<open>
  The descriptor \<open>i\<close> of the active process is an open file at whose offset the bytes \<open>ds\<close> are still
  to be read; they lie outside of \<open>D\<close>.
\<close>

definition unread :: "nat \<Rightarrow> u8 list \<Rightarrow> u64 set \<Rightarrow> 'a kernel \<Rightarrow> bool" where
  "unread i ds D s \<longleftrightarrow> (\<exists>a fo nd. active s = Some a \<and> a < PROC_SIZE \<and>
     files s (fd (all_pro s a) ! i) = Some fo \<and> inodes s (node fo) = Some nd \<and>
     unat (currentoffset fo) + length ds = unat (iend nd) \<and> file_bytes (currentoffset fo) ds D s)"

lemma k_read_file:
  fixes s :: "'a kernel"
  assumes "rw_page b f s" and "unread i ds {f + of_nat (e + k) |k. k \<le> min cnt (length ds)} s"
    and "2 \<le> i" and "i < MAX_FD" and "e + min cnt (length ds) < 4096"
    and "active s = Some a" and "files s (fd (all_pro s a) ! i) = Some fo" and "unat (currentoffset fo) + cnt < 2 ^ 64"
    and "rdi r = wide hi (int i)" and "rsi r = b + of_nat e" and "rdx r = of_nat cnt"
  shows "k_read r s = Inr (Ret (of_nat (min cnt (length ds))),
    s\<lparr>pmem := put_bytes (f + of_nat e) (take cnt ds @ [0]) (pmem s),
      files := (files s)(fd (all_pro s a) ! i \<mapsto> fo\<lparr>currentoffset := currentoffset fo + of_nat (min cnt (length ds))\<rparr>)\<rparr>)"
proof -
  let ?n = "min cnt (length ds)" and ?p = "fd (all_pro s a) ! i"
  let ?D = "{f + of_nat (e + k) |k. k \<le> ?n}"
  obtain nd where nd: "a < PROC_SIZE" "inodes s (node fo) = Some nd" "unat (currentoffset fo) + length ds = unat (iend nd)"
      "file_bytes (currentoffset fo) ds ?D s"
    using assms(2,6,7) by (auto simp: unread_def)
  let ?t = "s\<lparr>pmem := put_bytes (f + of_nat e) (take cnt ds) (pmem s),
      files := (files s)(?p \<mapsto> fo\<lparr>currentoffset := currentoffset fo + of_nat ?n\<rparr>)\<rparr>"
  have lp: "read_loop ?p (currentoffset fo) 0 cnt (b + of_nat e) s = Inr (?n, ?t)"
  proof -
    have "e + ?n \<le> 4096" "\<forall>j < ?n. f + of_nat (e + j) \<in> ?D" using assms(5) less_imp_le by blast+
    then show ?thesis using read_loop_bytes[OF assms(1) _ _ assms(7) nd(2,4,3), of e cnt 0] by simp
  qed
  have w: "to_int32 (rdi r) = int i" "rdi r \<noteq> 0" "1 < rdi r"
    using wide_small[of i hi] assms(3,4,9) by (auto simp: word_less_nat_alt)
  have c: "unat (of_nat cnt :: u64) = cnt" using assms(8) by (intro unat_of_nat_small) simp
  then have "unat (currentoffset fo + rdx r) - unat (currentoffset fo) = cnt"
    using assms(8,11) unat_add_small[of "currentoffset fo" "rdx r"] by simp
  moreover have "rw_page b f ?t" using put_bytes_page[OF assms(1,1), of e "take cnt ds"] assms(5) by (simp add: rw_page_def min.commute)
  then have "kstore8 (b + of_nat e + of_nat ?n) 0 ?t =
      Inr (?t\<lparr>pmem := (put_bytes (f + of_nat e) (take cnt ds) (pmem s))(f + of_nat e + of_nat ?n := 0)\<rparr>)"
    using rw_page_kstore8[of b f ?t "e + ?n" 0] assms(5) by (simp add: add.assoc del: fun_upd_apply)
  moreover have "put_bytes (f + of_nat e) (take cnt ds @ [0]) (pmem s) =
      (put_bytes (f + of_nat e) (take cnt ds) (pmem s))(f + of_nat e + of_nat ?n := 0)"
    using put_bytes_snoc[of "take cnt ds" "f + of_nat e" 0 "pmem s"] assms(5) by (simp add: min.commute)
  ultimately show ?thesis
    using lp w assms(3,4,6,7,10) nd(1) by (simp add: k_read_def act_Some fd_slot_def deref_def Let_def del: fun_upd_apply)
qed

text \<open>C8. An open file is a stream: \<open>read\<close> on a descriptor from 2 on, called by a program with a buffer
  in one of its pages, returns the smaller of the count and the number of bytes that are left, puts exactly these
  bytes, the next ones of the file, into the buffer, and a zero behind them; all other memory is as before. The
  next call goes on behind them, and of the open files only this one changes. At the end of the
  file the result is 0.\<close>

theorem read_stream:
  fixes s :: "'a kernel"
  assumes "rw_page b f s" and "unread i ds {f + of_nat (e + k) |k. k \<le> min cnt (length ds)} s"
    and "2 \<le> i" and "i < MAX_FD" and "e + min cnt (length ds) < 4096" and "RING_0_MODE s = 0"
    and "active s = Some a" and "files s (fd (all_pro s a) ! i) = Some fo" and "unat (currentoffset fo) + cnt < 2 ^ 64"
  shows "\<exists>s' fl. read u hi (int i) (b + of_nat e) (of_nat cnt) s = Inr (Inr (int (min cnt (length ds))), s') \<and>
    s' = s\<lparr>pmem := put_bytes (f + of_nat e) (take cnt ds @ [0]) (pmem s), files := fl\<rparr> \<and>
    unread i (drop cnt ds) {f + of_nat (e + k) |k. k \<le> min cnt (length ds)} s' \<and>
    (\<forall>p. p \<noteq> fd (all_pro s a) ! i \<longrightarrow> fl p = files s p)"
proof -
  let ?n = "min cnt (length ds)" and ?p = "fd (all_pro s a) ! i" and ?s = "s\<lparr>RING_0_MODE := 1\<rparr>"
  let ?D = "{f + of_nat (e + k) |k. k \<le> ?n}"
  let ?fo = "fo\<lparr>currentoffset := currentoffset fo + of_nat ?n\<rparr>"
  let ?m = "put_bytes (f + of_nat e) (take cnt ds @ [0]) (pmem s)" and ?fl = "(files s)(?p \<mapsto> ?fo)"
  let ?s' = "s\<lparr>pmem := ?m, files := ?fl\<rparr>"
  obtain nd where nd: "a < PROC_SIZE" "inodes s (node fo) = Some nd" "unat (currentoffset fo) + length ds = unat (iend nd)"
      "file_bytes (currentoffset fo) ds ?D s"
    using assms(2,7,8) by (auto simp: unread_def)
  have un: "unread i ds ?D ?s" using assms(2) by (simp add: unread_def file_bytes_def translate_def)
  have k: "k_read r ?s = Inr (Ret (of_nat ?n), ?s\<lparr>pmem := ?m, files := ?fl\<rparr>)"
    if "rdi r = wide hi (int i)" "rsi r = b + of_nat e" "rdx r = of_nat cnt" for r
    using k_read_file[of b f ?s, OF _ un assms(3-5) _ _ assms(9) that] assms(1,7,8) by simp
  have n: "to_int32 (of_nat ?n) = int ?n" by (rule to_int32_of_nat) (use assms(5) in simp)
  have "read u hi (int i) (b + of_nat e) (of_nat cnt) s = Inr (Inr (to_int32 v), t\<lparr>RING_0_MODE := 0\<rparr>)"
    if "\<And>r. rdi r = wide hi (int i) \<Longrightarrow> rsi r = b + of_nat e \<Longrightarrow> rdx r = of_nat cnt \<Longrightarrow> k_read r ?s = Inr (Ret v, t)" for v t
    using that by (simp add: read_def ucall_def int80_def dispatch_def syscall_init_def ureturn_def word_le_nat_alt)
  note rd = this[OF k]
  have "?s\<lparr>pmem := ?m, files := ?fl\<rparr>\<lparr>RING_0_MODE := 0\<rparr> = ?s'"
    using ring_same[of ?s' 0] assms(6) by (simp del: fun_upd_apply)
  then have "read u hi (int i) (b + of_nat e) (of_nat cnt) s = Inr (Inr (int ?n), ?s')"
    by (rule subst) (rule rd[unfolded n])
  moreover have "unread i (drop cnt ds) ?D ?s'"
  proof -
    have "file_bytes (currentoffset fo) ds ?D (s\<lparr>pmem := ?m\<rparr>)"
    proof (rule file_bytes_put[OF nd(4) assms(1)])
      show "\<forall>k < length (take cnt ds @ [0]). f + of_nat (e + k) \<in> ?D" by (auto simp del: of_nat_add simp: min.commute)
    qed (use assms(5) in \<open>simp add: min.commute\<close>)
    then have "file_bytes (currentoffset fo + of_nat ?n) (drop ?n ds) ?D (s\<lparr>pmem := ?m\<rparr>)"
      by (rule file_bytes_drop) simp
    moreover have "drop ?n ds = drop cnt ds" by (auto simp: min_def)
    moreover have "unat (of_nat ?n :: u64) = ?n" using assms(5) by (intro unat_of_nat_small) simp
    then have "unat (currentoffset fo + of_nat ?n) = unat (currentoffset fo) + ?n"
      using unat_add_small[of "currentoffset fo" "of_nat ?n"] assms(9) by simp
    ultimately show ?thesis using nd(1-3) assms(7,8) by (auto simp: unread_def file_bytes_def translate_def)
  qed
  ultimately show ?thesis by (intro exI[of _ ?s'] exI[of _ ?fl]) simp
qed

text \<open>A file with three bytes, of which two are read.\<close>

definition file_small :: "(nat \<times> u8) list" where
  "file_small = [(0x900, 97), (0x901, 98), (0x902, 99)]"

definition kernel_file :: tasks where
  "kernel_file = kernel_user\<lparr>pmem := fold (\<lambda>(e, v) m. m(0x21E000 + of_nat e := v)) file_small (pmem kernel_user),
     all_pro := (\<lambda>_. (pcb_small 0)\<lparr>fd := [0, 0, 0x800]\<rparr>), files := [0x800 \<mapsto> \<lparr>currentoffset = 0x400900, node = 0x300\<rparr>],
     inodes := [0x300 \<mapsto> \<lparr>istart = 0x400900, iend = 0x400903, family = [0x200], itype = FILE, inodeName = ''f''\<rparr>]\<rparr>"

lemma kernel_file_page: "rw_page 0x400000 0x21E000 kernel_file"
  using rw_page_upds[OF kernel_user_page kernel_user_page, of file_small] by (simp add: kernel_file_def rw_page_def file_small_def)

lemma kernel_file_simps:
  "active kernel_file = Some 0" "fd (all_pro kernel_file 0) ! 2 = 0x800" "RING_0_MODE kernel_file = 0"
  "files kernel_file = [0x800 \<mapsto> \<lparr>currentoffset = 0x400900, node = 0x300\<rparr>]"
  "inodes kernel_file 0x300 = Some \<lparr>istart = 0x400900, iend = 0x400903, family = [0x200], itype = FILE, inodeName = ''f''\<rparr>"
  by (simp_all add: kernel_file_def kernel_user_def kernel_dir_def)

lemma kernel_file_bytes: "file_bytes 0x400900 [97, 98, 99] {0x21E000 + of_nat (0xA00 + k) |k. k \<le> 2} kernel_file"
  unfolding file_bytes_def
proof (intro allI impI conjI exI)
  fix k assume "k < length [97 :: u8, 98, 99]"
  then have k: "k \<in> {0, 1, 2}" by auto
  show "translate kernel_file (0x400900 + of_nat k) = Some (0x21E000 + of_nat (0x900 + k))"
    using rw_page_translate[OF kernel_file_page, of "0x900 + k"] k by auto
  show "pmem kernel_file (0x21E000 + of_nat (0x900 + k)) = [97, 98, 99] ! k"
    using k by (auto simp: kernel_file_def file_small_def)
  show "p1_index (0x400900 + of_nat k) \<noteq> 0x1FE" using k by (auto simp: p1_index_def)
  show "(0x21E000 :: u64) + of_nat (0x900 + k) \<notin> {0x21E000 + of_nat (0xA00 + k) |k. k \<le> 2}"
    using k in_page_eq[OF rw_page_walk(2)[OF kernel_file_page] rw_page_walk(2)[OF kernel_file_page], of "0x900 + k"]
    by (force simp del: of_nat_add)
qed

lemma kernel_file_unread: "unread 2 [97, 98, 99] {0x21E000 + of_nat (0xA00 + k) |k. k \<le> 2} kernel_file"
  unfolding unread_def using kernel_file_bytes
  by (intro exI[of _ 0] exI[of _ "\<lparr>currentoffset = 0x400900, node = 0x300\<rparr>"]
      exI[of _ "\<lparr>istart = 0x400900, iend = 0x400903, family = [0x200], itype = FILE, inodeName = ''f''\<rparr>"])
    (simp add: kernel_file_simps del: of_nat_add)

theorem read_stream_witness:
  "\<exists>s' fl. read program_small 7 2 0x400A00 2 kernel_file = Inr (Inr 2, s') \<and>
    s' = kernel_file\<lparr>pmem := put_bytes 0x21EA00 [97, 98, 0] (pmem kernel_file), files := fl\<rparr> \<and>
    unread 2 [99] {0x21E000 + of_nat (0xA00 + k) |k. k \<le> 2} s'"
proof -
  have n: "min 2 (length [97 :: u8, 98, 99]) = 2" by simp
  have "\<exists>s' fl. read program_small 7 (int 2) (0x400000 + of_nat 0xA00) (of_nat 2) kernel_file =
      Inr (Inr (int (min 2 (length [97 :: u8, 98, 99]))), s') \<and>
    s' = kernel_file\<lparr>pmem := put_bytes (0x21E000 + of_nat 0xA00) (take 2 [97, 98, 99] @ [0]) (pmem kernel_file), files := fl\<rparr> \<and>
    unread 2 (drop 2 [97, 98, 99]) {0x21E000 + of_nat (0xA00 + k) |k. k \<le> min 2 (length [97 :: u8, 98, 99])} s' \<and>
    (\<forall>p. p \<noteq> fd (all_pro kernel_file 0) ! 2 \<longrightarrow> fl p = files kernel_file p)"
  proof (rule read_stream[OF kernel_file_page, where fo = "\<lparr>currentoffset = 0x400900, node = 0x300\<rparr>"])
    show "unread 2 [97, 98, 99] {0x21E000 + of_nat (0xA00 + k) |k. k \<le> min 2 (length [97 :: u8, 98, 99])} kernel_file"
      unfolding n by (rule kernel_file_unread)
  qed (simp_all add: kernel_file_simps)
  then show ?thesis unfolding n by (elim exE conjE) (intro exI conjI; simp)
qed

end
