(* ===== verification/Unmap_Spec.thy ===== *)
theory Unmap_Spec
  imports Virt_Mem_Spec
begin

text \<open>
  Giving back memory: what happens to the page tables, the reference counts and the free pages when
  a range of addresses is unmapped.
\<close>

section \<open>Counted pages\<close>

text \<open>The places at which the address space has the frame \<open>f\<close>, as lists of table indices.\<close>

definition mappings :: "'a machine_scheme \<Rightarrow> u64 \<Rightarrow> u64 list set" where
  "mappings s f = {q. idx_ok q \<and> length q = 4 \<and> walk_to s q = Some f}"

text \<open>
  If the page at \<open>a\<close> is present, its frame is a managed block that is no table, and the reference count of the
  block is at least the number of places at which this address space has it.
\<close>

definition counted :: "'a machine_scheme \<Rightarrow> u64 \<Rightarrow> bool" where
  "counted s a \<longleftrightarrow> (\<forall>e. get_phys_addr a s = Inr e \<and> bit e 0 \<longrightarrow>
     (\<exists>b \<in> {1..<50000}. e AND 0xFFFFFFFFFFFFF000 = page_addr s b \<and> page_addr s b \<notin> tables s \<and>
        int (card (mappings s (page_addr s b))) \<le> ref_count (p_list s b)))"

abbreviation leaves :: "u64 list set" where
  "leaves \<equiv> {q. idx_ok q \<and> length q = 4}"

lemma finite_leaves: "finite leaves"
proof (rule finite_subset)
  show "leaves \<subseteq> {q. set q \<subseteq> UNIV \<and> length q = 4}" by auto
qed (rule finite_lists_length_eq, simp)

lemma finite_mappings: "finite (mappings s f)"
  by (rule finite_subset[OF _ finite_leaves]) (auto simp: mappings_def)

text \<open>
  The address space \<open>s'\<close> is \<open>s\<close> without the pages at the places \<open>A\<close>: the others are mapped as before and have the
  same content, every block has lost as many references as it had places in \<open>A\<close>, and the
  blocks that have lost their last one are free.
\<close>

definition unmapped :: "u64 list set \<Rightarrow> 'a machine_scheme \<Rightarrow> 'a machine_scheme \<Rightarrow> bool" where
  "unmapped A s s' \<longleftrightarrow> pt_inv s' \<and> tables s' = tables s \<and> FREEMEMORY s' = FREEMEMORY s \<and> cr3 s' = cr3 s \<and>
     (\<forall>q \<in> leaves. walk_to s' q = (if q \<in> A then None else walk_to s q)) \<and>
     (\<forall>a. p1_index a \<noteq> 0x1FE \<and> mmu_indices a \<notin> A \<longrightarrow> get_phys_addr a s' = get_phys_addr a s \<and>
        ((\<forall>f. walk_to s (mmu_indices a) = Some f \<longrightarrow> f \<notin> tables s) \<longrightarrow> vload8 a s' = vload8 a s)) \<and>
     (\<forall>b \<in> {1..<50000}. ref_count (p_list s' b) =
        ref_count (p_list s b) - int (card {q \<in> A. walk_to s q = Some (page_addr s b)})) \<and>
     set (pool s') = set (pool s) \<union> {page_addr s b |b. b \<in> {1..<50000} \<and> ref_count (p_list s' b) = 0 \<and>
        (\<exists>q \<in> A. walk_to s q = Some (page_addr s b))}"

lemma page_addr_same: "FREEMEMORY s' = FREEMEMORY s \<Longrightarrow> page_addr s' = page_addr s"
  by (rule ext) (simp add: page_addr_def)

lemma unmappedD:
  assumes "unmapped A s s'"
  shows "pt_inv s'" and "tables s' = tables s" and "FREEMEMORY s' = FREEMEMORY s" and "cr3 s' = cr3 s"
    and "page_addr s' = page_addr s"
    and "idx_ok q \<Longrightarrow> length q = 4 \<Longrightarrow> walk_to s' q = (if q \<in> A then None else walk_to s q)"
    and "p1_index a \<noteq> 0x1FE \<Longrightarrow> mmu_indices a \<notin> A \<Longrightarrow> get_phys_addr a s' = get_phys_addr a s"
    and "p1_index a \<noteq> 0x1FE \<Longrightarrow> mmu_indices a \<notin> A \<Longrightarrow>
      \<forall>f. walk_to s (mmu_indices a) = Some f \<longrightarrow> f \<notin> tables s \<Longrightarrow> vload8 a s' = vload8 a s"
    and "b \<in> {1..<50000} \<Longrightarrow> ref_count (p_list s' b) =
      ref_count (p_list s b) - int (card {q \<in> A. walk_to s q = Some (page_addr s b)})"
    and "set (pool s') = set (pool s) \<union> {page_addr s b |b. b \<in> {1..<50000} \<and> ref_count (p_list s' b) = 0 \<and>
        (\<exists>q \<in> A. walk_to s q = Some (page_addr s b))}"
  using assms page_addr_same[of s' s] unfolding unmapped_def by blast+

lemma unmapped_refl:
  assumes "pt_inv s" and "\<forall>q \<in> A. walk_to s q = None"
  shows "unmapped A s s"
proof -
  have e: "{q \<in> A. walk_to s q = Some f} = {}" for f using assms(2) by auto
  then have "\<not> (\<exists>q \<in> A. walk_to s q = Some f)" for f by blast
  then show ?thesis using assms unfolding unmapped_def e by simp
qed

lemma unmapped_refs:
  fixes s :: "'a machine_scheme"
  assumes "unmapped A s s1" and "unmapped B s1 s2" and "A \<subseteq> leaves" and "B \<subseteq> leaves"
  shows "{q \<in> A \<union> B. walk_to s q = Some f} = {q \<in> A. walk_to s q = Some f} \<union> {q \<in> B. walk_to s1 q = Some f}"
    and "b \<in> {1..<50000} \<Longrightarrow> ref_count (p_list s2 b) = ref_count (p_list s1 b) - int (card {q \<in> B. walk_to s1 q = Some (page_addr s b)})"
    and "b \<in> {1..<50000} \<Longrightarrow> ref_count (p_list s2 b) =
      ref_count (p_list s b) - int (card {q \<in> A \<union> B. walk_to s q = Some (page_addr s b)})"
proof -
  let ?A = "\<lambda>f. {q \<in> A. walk_to s q = Some f}" and ?B = "\<lambda>f. {q \<in> B. walk_to s1 q = Some f}"
  have w: "walk_to s1 q = (if q \<in> A then None else walk_to s q)" if "q \<in> A \<union> B" for q
    using unmappedD(6)[OF assms(1), of q] assms(3,4) that by blast
  then have un: "{q \<in> A \<union> B. walk_to s q = Some f} = ?A f \<union> ?B f" for f by (auto split: if_splits)
  then show "{q \<in> A \<union> B. walk_to s q = Some f} = ?A f \<union> ?B f" .
  have dj: "?A f \<inter> ?B f = {}" for f using w by auto
  have "finite A" "finite B" using finite_subset[OF _ finite_leaves] assms(3,4) by blast+
  then have cd: "card {q \<in> A \<union> B. walk_to s q = Some f} = card (?A f) + card (?B f)" for f
    unfolding un by (intro card_Un_disjoint) (use dj in auto)
  note pa = unmappedD(5)[OF assms(1)]
  show r: "ref_count (p_list s2 b) = ref_count (p_list s1 b) - int (card (?B (page_addr s b)))" if "b \<in> {1..<50000}"
    using unmappedD(9)[OF assms(2) that] unfolding pa .
  have "ref_count (p_list s1 b) = ref_count (p_list s b) - int (card (?A (page_addr s b)))" if "b \<in> {1..<50000}"
    by (rule unmappedD(9)[OF assms(1) that])
  then show "ref_count (p_list s2 b) = ref_count (p_list s b) - int (card {q \<in> A \<union> B. walk_to s q = Some (page_addr s b)})"
    if "b \<in> {1..<50000}"
    using r[OF that] cd that by simp
qed

lemma unmapped_pool:
  fixes s :: "'a machine_scheme"
  assumes "unmapped A s s1" and "unmapped B s1 s2" and "A \<subseteq> leaves" and "B \<subseteq> leaves"
  shows "set (pool s2) = set (pool s) \<union> {page_addr s b |b. b \<in> {1..<50000} \<and> ref_count (p_list s2 b) = 0 \<and>
    (\<exists>q \<in> A \<union> B. walk_to s q = Some (page_addr s b))}"
proof -
  let ?A = "\<lambda>f. {q \<in> A. walk_to s q = Some f}" and ?B = "\<lambda>f. {q \<in> B. walk_to s1 q = Some f}"
  note un = unmapped_refs(1)[OF assms] and r2 = unmapped_refs(2)[OF assms]
  note pa = unmappedD(5)[OF assms(1)]
  have p1: "set (pool s1) = set (pool s) \<union> {page_addr s b |b. b \<in> {1..<50000} \<and> ref_count (p_list s1 b) = 0 \<and> ?A (page_addr s b) \<noteq> {}}"
    using unmappedD(10)[OF assms(1)] by blast
  have p2: "set (pool s2) = set (pool s1) \<union> {page_addr s b |b. b \<in> {1..<50000} \<and> ref_count (p_list s2 b) = 0 \<and> ?B (page_addr s b) \<noteq> {}}"
    using unmappedD(10)[OF assms(2)] unfolding pa by blast
  have "pt_tree (pmem s1) (root s1) (set (pool s1))" using unmappedD(1)[OF assms(1)] by (simp only: pt_inv_def)
  then have fresh: "?B f = {}" if "f \<in> set (pool s1)" for f
    using pt_tree_fresh[of "pmem s1" "root s1" "set (pool s1)" _ f] that assms(4) by fastforce
  have same: "ref_count (p_list s2 b) = ref_count (p_list s1 b)" if "b \<in> {1..<50000}" "?B (page_addr s b) = {}" for b
    using r2[OF that(1)] that(2) by simp
  show ?thesis
  proof (intro equalityI subsetI)
    fix f assume f: "f \<in> set (pool s2)"
    show "f \<in> set (pool s) \<union> {page_addr s b |b. b \<in> {1..<50000} \<and> ref_count (p_list s2 b) = 0 \<and>
        (\<exists>q \<in> A \<union> B. walk_to s q = Some (page_addr s b))}"
    proof (cases "f \<in> set (pool s1)")
      case True
      then show ?thesis using p1 same fresh[OF True] by auto
    next
      case False
      then show ?thesis using f p2 un by blast
    qed
  next
    fix f assume "f \<in> set (pool s) \<union> {page_addr s b |b. b \<in> {1..<50000} \<and> ref_count (p_list s2 b) = 0 \<and>
        (\<exists>q \<in> A \<union> B. walk_to s q = Some (page_addr s b))}"
    then consider "f \<in> set (pool s)" | b where "f = page_addr s b" "b \<in> {1..<50000}" "ref_count (p_list s2 b) = 0" "?A f \<union> ?B f \<noteq> {}"
      using un by blast
    then show "f \<in> set (pool s2)"
    proof cases
      case 2
      then show ?thesis using p1 p2 same[of b] by (cases "?B f = {}") auto
    qed (use p1 p2 in blast)
  qed
qed

lemma unmapped_trans:
  fixes s :: "'a machine_scheme"
  assumes "unmapped A s s1" and "unmapped B s1 s2" and "A \<subseteq> leaves" and "B \<subseteq> leaves"
  shows "unmapped (A \<union> B) s s2"
proof -
  note a = unmappedD[OF assms(1)] and b = unmappedD[OF assms(2)]
  have "walk_to s2 q = (if q \<in> A \<union> B then None else walk_to s q)" if "q \<in> leaves" for q
    using a(6)[of q] b(6)[of q] that by auto
  moreover have "get_phys_addr x s2 = get_phys_addr x s \<and>
      ((\<forall>f. walk_to s (mmu_indices x) = Some f \<longrightarrow> f \<notin> tables s) \<longrightarrow> vload8 x s2 = vload8 x s)"
    if "p1_index x \<noteq> 0x1FE \<and> mmu_indices x \<notin> A \<union> B" for x
  proof -
    have x: "p1_index x \<noteq> 0x1FE" "mmu_indices x \<notin> A" "mmu_indices x \<notin> B" using that by auto
    have w: "walk_to s1 (mmu_indices x) = walk_to s (mmu_indices x)"
      using a(6)[OF idx_ok_indices[OF x(1)]] x(2) by simp
    show ?thesis using a(7,8)[OF x(1,2)] b(7,8)[OF x(1,3)] unfolding w a(2) by simp
  qed
  moreover have "tables s2 = tables s" "FREEMEMORY s2 = FREEMEMORY s" "cr3 s2 = cr3 s" using a(2-4) b(2-4) by (simp_all only:)
  ultimately show ?thesis
    using b(1) unmapped_refs(3)[OF assms] unmapped_pool[OF assms] unfolding unmapped_def[of "A \<union> B"] by blast
qed

section \<open>One page\<close>

lemma counted_unmapped:
  fixes s :: "'a machine_scheme"
  assumes "unmapped A s s'" and "A \<subseteq> leaves" and "p1_index a \<noteq> 0x1FE" and "counted s a"
  shows "counted s' a"
  unfolding counted_def
proof (intro allI impI)
  note u = unmappedD[OF assms(1)]
  fix e assume e: "get_phys_addr a s' = Inr e \<and> bit e 0"
  have "walk_to s' (mmu_indices a) \<noteq> None"
    using get_phys_addr_eq[OF u(1) assms(3)] e leaf_entry[of s' a]
    by (cases "walk_to s' [p1_index a, p2_index a, p3_index a]") auto
  then have "mmu_indices a \<notin> A" using u(6)[OF idx_ok_indices[OF assms(3)]] by auto
  then have "get_phys_addr a s = Inr e" using u(7)[OF assms(3)] e by simp
  then obtain b where b: "b \<in> {1..<50000}" "e AND 0xFFFFFFFFFFFFF000 = page_addr s b" "page_addr s b \<notin> tables s"
      "int (card (mappings s (page_addr s b))) \<le> ref_count (p_list s b)"
    using assms(4) e unfolding counted_def by blast
  let ?A = "{q \<in> A. walk_to s q = Some (page_addr s b)}"
  have m: "mappings s' (page_addr s b) = mappings s (page_addr s b) - ?A"
    unfolding mappings_def using u(6) by (auto split: if_splits)
  have sub: "?A \<subseteq> mappings s (page_addr s b)" using assms(2) by (auto simp: mappings_def)
  have "card (mappings s' (page_addr s b)) = card (mappings s (page_addr s b)) - card ?A"
    unfolding m by (rule card_Diff_subset[OF finite_subset[OF sub finite_mappings] sub])
  moreover have "card ?A \<le> card (mappings s (page_addr s b))" by (rule card_mono[OF finite_mappings sub])
  ultimately have "int (card (mappings s' (page_addr s b))) \<le> ref_count (p_list s' b)"
    using u(9)[OF b(1)] b(4) by linarith
  then show "\<exists>b \<in> {1..<50000}. e AND 0xFFFFFFFFFFFFF000 = page_addr s' b \<and> page_addr s' b \<notin> tables s' \<and>
      int (card (mappings s' (page_addr s' b))) \<le> ref_count (p_list s' b)"
    using b unfolding u(2,5) by blast
qed

lemma releasedD:
  assumes "released a b s s'"
  shows "tables s' = tables s" and "FREEMEMORY s' = FREEMEMORY s" and "cr3 s' = cr3 s"
    and "i \<noteq> b \<Longrightarrow> ref_count (p_list s' i) = ref_count (p_list s i)"
    and "idx_ok q \<Longrightarrow> length q \<le> 4 \<Longrightarrow> q \<noteq> mmu_indices a \<Longrightarrow> walk_to s' q = walk_to s q"
    and "U \<in> tables s \<Longrightarrow> unat j < 512 \<Longrightarrow>
      \<not> (walk_to s [p1_index a, p2_index a, p3_index a] = Some U \<and> j = p4_index a) \<Longrightarrow> pte (pmem s') U j = pte (pmem s) U j"
  using assms unfolding released_def by blast+

lemma released_entry:
  fixes s :: "'a machine_scheme"
  assumes "released a b s s'" and "pt_inv s" and "pt_inv s'" and "p1_index a \<noteq> 0x1FE" and "p1_index x \<noteq> 0x1FE"
    and "mmu_indices x \<noteq> mmu_indices a" and "walk_to s [p1_index a, p2_index a, p3_index a] = Some T"
  shows "get_phys_addr x s' = get_phys_addr x s"
proof -
  let ?P = "\<lambda>x. [p1_index x, p2_index x, p3_index x]"
  have t: "pt_tree (pmem s) (root s) (set (pool s))" using assms(2) by (simp add: pt_inv_def)
  have i: "idx_ok (?P x)" "idx_ok (?P a)"
    using idx_ok_append[of "?P x" "[p4_index x]"] idx_ok_append[of "?P a" "[p4_index a]"] idx_ok_indices assms(4,5)
    by (simp_all add: mmu_indices_eq)
  have w: "walk_to s' (?P x) = walk_to s (?P x)"
    by (rule releasedD(5)[OF assms(1) i(1)]) (simp_all add: mmu_indices_eq)
  have "pte (pmem s') U (p4_index x) = pte (pmem s) U (p4_index x)" if U: "walk_to s (?P x) = Some U" for U
  proof -
    have "U \<in> tables s" by (rule ptablesI[OF U i(1)]) simp
    moreover have "\<not> (walk_to s (?P a) = Some U \<and> p4_index x = p4_index a)"
    proof
      assume "walk_to s (?P a) = Some U \<and> p4_index x = p4_index a"
      then show False
        using pt_tree_inj[OF t U _ i] assms(6) by (simp add: mmu_indices_eq del: path.simps)
    qed
    ultimately show ?thesis by (intro releasedD(6)[OF assms(1)]) (simp_all del: path.simps)
  qed
  then show ?thesis
    unfolding get_phys_addr_eq[OF assms(2,5)] get_phys_addr_eq[OF assms(3,5)] w
    by (simp split: option.split del: path.simps)
qed

lemma released_unmapped:
  fixes s :: "'a machine_scheme"
  assumes "released a b s s'" and "pt_inv s" and "pt_inv s'" and "p1_index a \<noteq> 0x1FE"
    and "walk_to s [p1_index a, p2_index a, p3_index a] = Some T" and "b \<in> {1..<50000}"
    and "walk_to s (mmu_indices a) = Some (page_addr s b)" and "walk_to s' (mmu_indices a) = None"
    and "ref_count (p_list s' b) = ref_count (p_list s b) - 1" and "same_elsewhere a s s'"
    and "set (pool s') = set (pool s) \<union> (if ref_count (p_list s' b) = 0 then {page_addr s b} else {})"
  shows "unmapped {mmu_indices a} s s'"
proof -
  have inj: "page_addr s i = page_addr s b \<longleftrightarrow> i = b" if "i \<in> {1..<50000}" for i
    using page_addr_inj[of s i b] assms(2,6) that by (simp add: pt_inv_def pmm_inv_def)
  have "ref_count (p_list s' i) = ref_count (p_list s i) - int (card {q \<in> {mmu_indices a}. walk_to s q = Some (page_addr s i)})"
    if "i \<in> {1..<50000}" for i
  proof -
    have "{q \<in> {mmu_indices a}. walk_to s q = Some (page_addr s i)} = (if i = b then {mmu_indices a} else {})"
      using assms(7) inj[OF that] by auto
    then show ?thesis using releasedD(4)[OF assms(1), of i] assms(9) by (cases "i = b") simp_all
  qed
  moreover have "i \<in> {1..<50000} \<and> ref_count (p_list s' i) = 0 \<and> (\<exists>q \<in> {mmu_indices a}. walk_to s q = Some (page_addr s i)) \<longleftrightarrow>
      i = b \<and> ref_count (p_list s' b) = 0" for i
    using assms(6,7) inj[of i] by auto
  then have "set (pool s') = set (pool s) \<union> {page_addr s i |i. i \<in> {1..<50000} \<and> ref_count (p_list s' i) = 0 \<and>
      (\<exists>q \<in> {mmu_indices a}. walk_to s q = Some (page_addr s i))}"
    using assms(11) by simp
  moreover have "get_phys_addr x s' = get_phys_addr x s \<and>
      ((\<forall>f. walk_to s (mmu_indices x) = Some f \<longrightarrow> f \<notin> tables s) \<longrightarrow> vload8 x s' = vload8 x s)"
    if "p1_index x \<noteq> 0x1FE \<and> mmu_indices x \<notin> {mmu_indices a}" for x
    using released_entry[OF assms(1-4) _ _ assms(5), of x] assms(10) that unfolding same_elsewhere_def by blast
  moreover have "walk_to s' q = (if q \<in> {mmu_indices a} then None else walk_to s q)" if "q \<in> leaves" for q
    using releasedD(5)[OF assms(1), of q] assms(8) that by auto
  moreover have "tables s' = tables s" "FREEMEMORY s' = FREEMEMORY s" "cr3 s' = cr3 s"
    by (rule releasedD[OF assms(1)])+
  ultimately show ?thesis using assms(3) unfolding unmapped_def by blast
qed

lemma unmap_page:
  fixes s :: "'a machine_scheme"
  assumes "pt_inv s" and "p1_index a \<noteq> 0x1FE" and "page_aligned a" and "counted s a"
  shows "\<exists>s'. unmap_phyaddr a s = Inr s' \<and> unmapped {mmu_indices a} s s'"
proof -
  let ?P = "[p1_index a, p2_index a, p3_index a]"
  obtain w where w: "page_aligned w" "mmu_indices w = replicate 1 0x1FE @ ?P"
    and u: "unmap_phyaddr a s = (case walk_to s ?P of None \<Rightarrow> Inr s
      | Some T \<Rightarrow> if \<not> bit (pte (pmem s) T (p4_index a)) 0 then Inr s
          else release_leaf a w (pte (pmem s) T (p4_index a)) s)"
    using unmap_phyaddr_eq[OF assms(1,2)] by blast
  note g = get_phys_addr_eq[OF assms(1,2)]
  show ?thesis
  proof (cases "walk_to s (mmu_indices a)")
    case None
    then have "unmap_phyaddr a s = Inr s" using u leaf_entry[of s a] by (auto split: option.splits if_splits)
    moreover have "unmapped {mmu_indices a} s s" by (rule unmapped_refl[OF assms(1)]) (use None in simp)
    ultimately show ?thesis by blast
  next
    case (Some D)
    then obtain T where T: "walk_to s ?P = Some T"
      unfolding indices_split path_append by (cases "walk_to s ?P") (auto simp del: path.simps)
    let ?e = "pte (pmem s) T (p4_index a)"
    have e: "bit ?e 0" "frame_of ?e = D" using leaf_entry[OF T] Some by (auto split: if_splits)
    have run: "unmap_phyaddr a s = release_leaf a w ?e s" using u T e(1) by simp
    obtain b where b: "b \<in> {1..<50000}" "?e AND 0xFFFFFFFFFFFFF000 = page_addr s b" "page_addr s b \<notin> tables s"
        "int (card (mappings s (page_addr s b))) \<le> ref_count (p_list s b)"
      using assms(4) g T e(1) unfolding counted_def by auto
    have D: "walk_to s (mmu_indices a) = Some (page_addr s b)"
      using Some e(2) frame_of_managed[OF _ b(1,2)] assms(1) by (simp add: pt_inv_def)
    then have mem: "mmu_indices a \<in> mappings s (page_addr s b)" using assms(2) by (simp add: mappings_def idx_ok_indices)
    note rel = released_unmapped[OF _ assms(1) _ assms(2) T b(1) D]
    show ?thesis
    proof (cases "ref_count (p_list s b) = 1")
      case True
      have uniq: "q = mmu_indices a" if "idx_ok q" "length q = 4" "walk_to s q = Some (page_addr s b)" for q
      proof -
        have "q \<in> mappings s (page_addr s b)" using that by (simp add: mappings_def)
        moreover have "card (mappings s (page_addr s b)) \<le> Suc 0" using b(4) True by simp
        ultimately show ?thesis using card_le_Suc0_iff_eq[OF finite_mappings] mem by blast
      qed
      obtain s' where s': "release_leaf a w ?e s = Inr s'" "pt_inv s'" "walk_to s' (mmu_indices a) = None"
          "pool s' = page_addr s b # pool s" "ref_count (p_list s' b) = 0" "same_elsewhere a s s'" "released a b s s'"
        by (rule release_leaf_last[OF assms(1,2) b(1) T refl b(2) True w e(1) assms(3) b(3) uniq])
      have "unmapped {mmu_indices a} s s'" by (rule rel[OF s'(7,2,3) _ s'(6)]) (use s'(4,5) True in simp_all)
      then show ?thesis using run s'(1) by simp
    next
      case False
      have "0 < card (mappings s (page_addr s b))" using mem finite_mappings by (auto simp: card_gt_0_iff)
      then have "1 < ref_count (p_list s b)" using b(4) False by linarith
      then obtain s' where s': "release_leaf a w ?e s = Inr s'" "pt_inv s'" "walk_to s' (mmu_indices a) = None"
          "pool s' = pool s" "ref_count (p_list s' b) = ref_count (p_list s b) - 1" "same_elsewhere a s s'" "released a b s s'"
        by (rule release_leaf_shared[OF assms(1,2) b(1) T refl b(2) _ w])
      have "unmapped {mmu_indices a} s s'" by (rule rel[OF s'(7,2,3,5,6)]) (use s'(4,5) False in simp)
      then show ?thesis using run s'(1) by simp
    qed
  qed
qed

section \<open>A range\<close>

text \<open>The pages of a range below 2 GB, and their places in the tables.\<close>

definition range_pages :: "u64 \<Rightarrow> u64 \<Rightarrow> u64 set" where
  "range_pages a b = (\<lambda>i. of_nat (4096 * i)) ` {unat a div 4096..<(unat b + 4095) div 4096}"

lemma low_page:
  assumes "i < 2 ^ 19"
  shows "page_aligned (of_nat (4096 * i))" and "p1_index (of_nat (4096 * i)) = 0"
proof -
  have u: "unat (of_nat (4096 * i) :: u64) = 4096 * i" using assms by (intro unat_of_nat_small) simp
  then show "page_aligned (of_nat (4096 * i))" by (simp only: page_aligned_dvd) simp
  have "drop_bit 39 (of_nat (4096 * i) :: u64) = 0"
  proof (rule bit_word_eqI)
    fix n
    have "4096 * i < 2 ^ 39" using assms by simp
    also have "(2 :: nat) ^ 39 \<le> 2 ^ (39 + n)" by (rule power_increasing) simp_all
    finally have "4096 * i < 2 ^ (39 + n)" .
    then show "bit (drop_bit 39 (of_nat (4096 * i) :: u64)) n = bit 0 n"
      unfolding bit_drop_bit_eq o_def bit_nat[of "of_nat (4096 * i)"] u by simp
  qed
  then show "p1_index (of_nat (4096 * i)) = 0"
    using mmu_indices_eq[of "of_nat (4096 * i)"] by (simp add: mmu_indices_def)
qed

lemma unmap_pages:
  fixes s :: "'a machine_scheme"
  assumes "pt_inv s" and "n \<le> 2 ^ 19" and "\<forall>i \<in> {k..<n}. counted s (of_nat (4096 * i))"
  shows "\<exists>s'. rfold (\<lambda>i. unmap_phyaddr (of_nat (4096 * i))) [k..<n] s = Inr s' \<and>
    unmapped (mmu_indices ` (\<lambda>i. of_nat (4096 * i)) ` {k..<n}) s s'"
  using assms(2,3)
proof (induction n)
  case 0
  show ?case using unmapped_refl[OF assms(1), of "{}"] by simp
next
  case (Suc n)
  let ?pg = "\<lambda>i. of_nat (4096 * i) :: u64"
  show ?case
  proof (cases "k \<le> n")
    case True
    let ?A = "mmu_indices ` ?pg ` {k..<n}"
    obtain s1 where s1: "rfold (\<lambda>i. unmap_phyaddr (?pg i)) [k..<n] s = Inr s1" "unmapped ?A s s1"
      using Suc by auto
    have n: "page_aligned (?pg n)" "p1_index (?pg n) \<noteq> 0x1FE" using low_page[of n] Suc.prems(1) by simp_all
    have "p1_index (?pg i) \<noteq> 0x1FE" if "i < Suc n" for i using low_page(2)[of i] Suc.prems(1) that by simp
    then have A: "?A \<subseteq> leaves" "{mmu_indices (?pg n)} \<subseteq> leaves" using idx_ok_indices by auto
    have "counted s (?pg n)" using Suc.prems(2) True by simp
    then have "counted s1 (?pg n)" by (rule counted_unmapped[OF s1(2) A(1) n(2)])
    then obtain s2 where s2: "unmap_phyaddr (?pg n) s1 = Inr s2" "unmapped {mmu_indices (?pg n)} s1 s2"
      using unmap_page[OF unmappedD(1)[OF s1(2)] n(2,1)] by blast
    have "unmapped (?A \<union> {mmu_indices (?pg n)}) s s2" by (rule unmapped_trans[OF s1(2) s2(2) A])
    moreover have "?A \<union> {mmu_indices (?pg n)} = mmu_indices ` ?pg ` {k..<Suc n}"
      using True by (auto simp: atLeastLessThanSuc)
    ultimately show ?thesis using s1(1) s2(1) True by (auto simp del: of_nat_mult)
  next
    case False
    then show ?thesis using unmapped_refl[OF assms(1), of "{}"] by simp
  qed
qed

lemma unmap_range_spec:
  fixes s :: "'a machine_scheme"
  assumes "unat a \<le> unat b" and "unat b \<le> 2 ^ 31 - 4096" and "pt_inv s" and "\<forall>p \<in> range_pages a b. counted s p"
  shows "\<exists>s'. unmap_phyaddr_range a b s = Some (Inr s') \<and> unmapped (mmu_indices ` range_pages a b) s s'"
proof -
  have "(unat b + 4095) div 4096 \<le> 2 ^ 19" using assms(2) by simp
  then show ?thesis
    using unmap_pages[OF assms(3), of "(unat b + 4095) div 4096" "unat a div 4096"] assms(4)
      unmap_phyaddr_range_pages[OF assms(1,2), of s] by (auto simp: range_pages_def simp del: of_nat_mult)
qed

text \<open>C5. Giving back the pages of a range below 2 GB, as when an area of a process is removed: when the
  frames of the present pages are managed blocks whose reference counts cover the mappings of this address
  space, \<open>unmap_phyaddr_range\<close> ends; none of the pages is mapped any more, all others are mapped as before with
  the same content; every block has lost one reference for each page of the range that it was
  mapped at; and the free pages are those from before and the blocks that have lost their last reference. The
  invariant of the page tables and the counting of the pages still hold.\<close>

theorem unmap_range_releases:
  fixes s :: "'a machine_scheme"
  assumes "unat a \<le> unat b" and "unat b \<le> 2 ^ 31 - 4096" and "pt_inv s" and "\<forall>p \<in> range_pages a b. counted s p"
  shows "\<exists>s'. unmap_phyaddr_range a b s = Some (Inr s') \<and> pt_inv s' \<and>
    (\<forall>p \<in> range_pages a b. translate s' p = None) \<and>
    (\<forall>va. p1_index va \<noteq> 0x1FE \<and> mmu_indices va \<notin> mmu_indices ` range_pages a b \<longrightarrow>
       translate s' va = translate s va \<and> (counted s va \<longrightarrow> counted s' va) \<and>
       ((\<forall>f. walk_to s (mmu_indices va) = Some f \<longrightarrow> f \<notin> tables s) \<longrightarrow> vload8 va s' = vload8 va s)) \<and>
    (\<forall>i \<in> {1..<50000}. ref_count (p_list s' i) = ref_count (p_list s i) -
       int (card {q \<in> mmu_indices ` range_pages a b. walk_to s q = Some (page_addr s i)})) \<and>
    set (pool s') = set (pool s) \<union> {page_addr s i |i. i \<in> {1..<50000} \<and> ref_count (p_list s' i) = 0 \<and>
       (\<exists>q \<in> mmu_indices ` range_pages a b. walk_to s q = Some (page_addr s i))}"
proof -
  obtain s' where s': "unmap_phyaddr_range a b s = Some (Inr s')" "unmapped (mmu_indices ` range_pages a b) s s'"
    using unmap_range_spec[OF assms] by blast
  note u = unmappedD[OF s'(2)]
  have low: "p1_index p \<noteq> 0x1FE" if "p \<in> range_pages a b" for p
    using that low_page(2) assms(2) by (auto simp: range_pages_def)
  then have A: "mmu_indices ` range_pages a b \<subseteq> leaves" using idx_ok_indices by auto
  have "translate s' p = None" if "p \<in> range_pages a b" for p
    using u(6)[OF idx_ok_indices[OF low[OF that]]] that by (simp add: translate_def)
  moreover have "translate s' va = translate s va"
    if "p1_index va \<noteq> 0x1FE \<and> mmu_indices va \<notin> mmu_indices ` range_pages a b" for va
    using u(6)[OF idx_ok_indices, of va] that by (simp add: translate_def)
  ultimately show ?thesis
    using s'(1) u(1,8,9,10) counted_unmapped[OF s'(2) A] by (intro exI[of _ s']) blast
qed

lemma user_counted: "counted (machine_on mem_user) 0x400000"
proof -
  have i: "idx_ok (mmu_indices 0x400000)" by (rule idx_ok_indices) (simp add: indices_400000)
  have "q \<in> mappings (machine_on mem_user) 0x21E000 \<longleftrightarrow> q = mmu_indices 0x400000" for q
    unfolding mappings_def mem_Collect_eq using user_tree(5)[of q] i length_mmu_indices[of "0x400000"]
    by (auto simp del: path.simps split: if_splits)
  then have "mappings (machine_on mem_user) 0x21E000 = {mmu_indices 0x400000}" by blast
  then have c: "card (mappings (machine_on mem_user) 0x21E000) = 1" by simp
  show ?thesis
    unfolding counted_def
  proof (intro allI impI bexI[of _ 30] conjI)
    fix e assume "get_phys_addr 0x400000 (machine_on mem_user) = Inr e \<and> bit e 0"
    then have "e = 0x21E007" using user_page(3) by simp
    then show "e AND 0xFFFFFFFFFFFFF000 = page_addr (machine_on mem_user) 30" using user_page(4) by simp
    show "int (card (mappings (machine_on mem_user) (page_addr (machine_on mem_user) 30))) \<le> ref_count (p_list (machine_on mem_user) 30)"
      unfolding user_page(4,5) c by simp
  qed (use user_page(2,4) in simp_all)
qed

theorem unmap_range_releases_witness:
  "\<exists>s'. unmap_phyaddr_range 0x400010 0x400FFF (machine_on mem_user) = Some (Inr s') \<and> pt_inv s' \<and>
    translate s' 0x400000 = None \<and> ref_count (p_list s' 30) = 0 \<and> 0x21E000 \<in> set (pool s')"
proof -
  have "{1024..<1025 :: nat} = {1024}" by auto
  then have r: "range_pages 0x400010 0x400FFF = {0x400000}" by (simp add: range_pages_def)
  let ?s = "machine_on mem_user"
  have w: "walk_to ?s (mmu_indices 0x400000) = Some (page_addr ?s 30)"
    using user_tree(5)[of "mmu_indices 0x400000"] idx_ok_indices[of "0x400000"] user_page(4) by (simp add: indices_400000 del: path.simps)
  obtain s' where s': "unmap_phyaddr_range 0x400010 0x400FFF ?s = Some (Inr s')" "pt_inv s'" "translate s' 0x400000 = None"
      "\<forall>i \<in> {1..<50000}. ref_count (p_list s' i) = ref_count (p_list ?s i) -
        int (card {q \<in> {mmu_indices 0x400000}. walk_to ?s q = Some (page_addr ?s i)})"
      "set (pool s') = set (pool ?s) \<union> {page_addr ?s i |i. i \<in> {1..<50000} \<and> ref_count (p_list s' i) = 0 \<and>
         (\<exists>q \<in> {mmu_indices 0x400000}. walk_to ?s q = Some (page_addr ?s i))}"
    using unmap_range_releases[OF _ _ user_tree(1), of "0x400010" "0x400FFF"] user_counted unfolding r by auto
  have "{q \<in> {mmu_indices 0x400000}. walk_to ?s q = Some (page_addr ?s 30)} = {mmu_indices 0x400000}" using w by auto
  then have "ref_count (p_list s' 30) = 0" using s'(4)[rule_format, of 30] user_page(5) by simp
  moreover have "0x21E000 \<in> set (pool s')" using s'(5) w calculation user_page(4) by force
  ultimately show ?thesis using s'(1-3) by blast
qed

end
