(* ===== verification/Exit_Spec.thy ===== *)
theory Exit_Spec
  imports Unmap_Spec Input_Spec
begin

text \<open>
  The end of a process: \<open>exit\<close> gives back its memory, tells the parent and passes the processor on, and
  a parent that waits takes the result and frees the slot of the child.
\<close>

section \<open>Giving back the memory areas\<close>

text \<open>Two states with the same memory, page tables and allocator.\<close>

definition same_machine :: "'a machine_scheme \<Rightarrow> 'b machine_scheme \<Rightarrow> bool" where
  "same_machine s t \<longleftrightarrow> pmem t = pmem s \<and> cr3 t = cr3 s \<and> p_list t = p_list s \<and> FREEMEMORY t = FREEMEMORY s \<and>
     head_freelist t = head_freelist s \<and> totalblockcount t = totalblockcount s"

lemma same_machine_fields:
  assumes "same_machine s t"
  shows "pt_inv t = pt_inv s" and "counted t a = counted s a" and "pool t = pool s" and "page_addr t = page_addr s"
    and "get_phys_addr a t = get_phys_addr a s" and "vload8 a t = vload8 a s"
proof -
  have f: "pmem t = pmem s" "cr3 t = cr3 s" "p_list t = p_list s" "FREEMEMORY t = FREEMEMORY s" "totalblockcount t = totalblockcount s"
    using assms by (simp_all add: same_machine_def)
  have fb: "free_blocks t = free_blocks s" using assms by (simp add: same_machine_def free_blocks_def)
  show pa: "page_addr t = page_addr s" by (rule ext) (simp add: page_addr_def f)
  show pl: "pool t = pool s" by (simp add: pool_def fb pa)
  show "pt_inv t = pt_inv s" by (simp add: pt_inv_def pmm_inv_def f fb pl)
  have m: "mappings t = mappings s" by (rule ext) (simp add: mappings_def f del: path.simps)
  have tr: "translate t = translate s" by (rule ext) (simp add: translate_def f del: path.simps)
  have v: "vload8 a t = vload8 a s" for a by (simp only: vload8_def tr f)
  then show "vload8 a t = vload8 a s" .
  have "vload64 a t = vload64 a s" for a by (simp only: vload64_def v tr f)
  then have g: "get_phys_addr a t = get_phys_addr a s" for a by (simp only: get_phys_addr_def)
  then show "get_phys_addr a t = get_phys_addr a s" .
  show "counted t a = counted s a" by (simp only: counted_def g m pa f)
qed

lemma same_machineD:
  fixes s t :: "'a machine_scheme"
  assumes "same_machine s t"
  shows "pt_inv t = pt_inv s" and "counted t a = counted s a" and "unmapped A t u = unmapped A s u"
    and "unmapped A u t = unmapped A u s"
proof -
  have f: "pmem t = pmem s" "cr3 t = cr3 s" "p_list t = p_list s" "FREEMEMORY t = FREEMEMORY s"
    using assms by (simp_all add: same_machine_def)
  show "unmapped A t u = unmapped A s u" "unmapped A u t = unmapped A u s"
    by (simp_all only: unmapped_def f same_machine_fields[OF assms])
qed (rule same_machine_fields[OF assms])+

text \<open>The fields of the kernel that memory operations do not touch.\<close>

lemma kernel_more:
  fixes s s' :: "'a kernel"
  assumes "machine.more s' = machine.more s"
  shows "all_pro s' = all_pro s" and "proc_Q s' = proc_Q s" and "proc_start s' = proc_start s" and "proc_end s' = proc_end s"
    and "proc_descriptor s' = proc_descriptor s" and "active s' = active s" and "files s' = files s" and "inodes s' = inodes s"
  using assms by (cases s, cases s', simp)+

text \<open>The pages of a list of areas that lie below 2 GB.\<close>

definition area_pages :: "(u64 \<times> u64) list \<Rightarrow> u64 set" where
  "area_pages rs = (\<Union>r \<in> set rs. range_pages (fst r) (snd r))"

definition low_areas :: "(u64 \<times> u64) list \<Rightarrow> bool" where
  "low_areas rs \<longleftrightarrow> (\<forall>r \<in> set rs. unat (fst r) \<le> unat (snd r) \<and> unat (snd r) \<le> 2 ^ 31 - 4096)"

lemma area_leaves: "low_areas rs \<Longrightarrow> p \<in> area_pages rs \<Longrightarrow> p1_index p \<noteq> 0x1FE"
  using low_page(2) by (fastforce simp: low_areas_def area_pages_def range_pages_def)

text \<open>The parts of the process table that giving back memory leaves as they were.\<close>

definition same_procs :: "nat \<Rightarrow> 'a kernel \<Rightarrow> 'a kernel \<Rightarrow> bool" where
  "same_procs a s s' \<longleftrightarrow> (\<exists>mm. all_pro s' = (all_pro s)(a := (all_pro s a)\<lparr>mmstruct := mm\<rparr>)) \<and>
     proc_Q s' = proc_Q s \<and> proc_start s' = proc_start s \<and> proc_end s' = proc_end s \<and>
     proc_descriptor s' = proc_descriptor s \<and> active s' = active s"

lemma same_procs_refl: "same_procs a s s"
  unfolding same_procs_def using fun_upd_idem[of "all_pro s" a] by (intro conjI exI[of _ "mmstruct (all_pro s a)"]) simp_all

lemma same_procs_trans: "same_procs a s t \<Longrightarrow> same_procs a t u \<Longrightarrow> same_procs a s u"
  by (auto simp: same_procs_def)

lemma drop_head:
  fixes s :: "'a kernel"
  assumes "a < PROC_SIZE" and "vma_inv (mmstruct (all_pro s a)) (c # vs) ys s" and "pt_inv s"
    and "low_areas (areas (vmas s) (c # vs))" and "\<forall>p \<in> area_pages (areas (vmas s) (c # vs)). counted s p"
  obtains t where "drop_areas a (vma_list (mmstruct (all_pro s a))) s = drop_areas a (vma_list (mmstruct (all_pro t a))) t"
    and "vma_inv (mmstruct (all_pro t a)) vs (ys @ [c]) t" and "areas (vmas t) vs = areas (vmas s) vs"
    and "unmapped (mmu_indices ` area_pages [area (vmas s) c]) s t" and "same_procs a s t"
proof -
  let ?mm = "mmstruct (all_pro s a)"
  obtain v where v: "vma_list ?mm = c" "c \<noteq> 0" "vmas s c = Some v"
    using assms(2) by (auto simp: vma_inv_def split: option.splits)
  have ar: "area (vmas s) c = (vstart v, vend v)" using v(3) by (simp add: area_def)
  have "areas (vmas s) (c # vs) = (vstart v, vend v) # areas (vmas s) vs" by (simp add: areas_def ar)
  then have low: "unat (vstart v) \<le> unat (vend v)" "unat (vend v) \<le> 2 ^ 31 - 4096"
      "\<forall>p \<in> range_pages (vstart v) (vend v). counted s p"
    using assms(4,5) by (simp_all add: low_areas_def area_pages_def)
  obtain s1 where s1: "unmap_phyaddr_range (vstart v) (vend v) s = Some (Inr s1)"
      "unmapped (mmu_indices ` range_pages (vstart v) (vend v)) s s1"
    using unmap_range_spec[OF low(1,2) assms(3) low(3)] by blast
  then have run: "run_loop (unmap_phyaddr_range (vstart v) (vend v) s) = Inr s1" by simp
  note m = kernel_more[OF unmap_range_more[OF run]]
  have cov: "covers v (vstart v) (vend v)" by (simp add: covers_def)
  obtain r h where r: "remove_from_vma_list ?mm (vstart v) (vend v) s =
        Inr (True, ?mm\<lparr>vma_list := nextvma v\<rparr>, s1\<lparr>vma_recycle_list := r, vmas := h\<rparr>)"
      "vma_inv (?mm\<lparr>vma_list := nextvma v\<rparr>) vs (ys @ [c]) (s1\<lparr>vma_recycle_list := r, vmas := h\<rparr>)" "area h = area (vmas s)"
    by (rule remove_head[OF assms(2) v(3) cov run])
  let ?t = "s1\<lparr>vma_recycle_list := r, vmas := h, all_pro := (all_pro s1)(a := (all_pro s1 a)\<lparr>mmstruct := ?mm\<lparr>vma_list := nextvma v\<rparr>\<rparr>)\<rparr>"
  have sm: "same_machine s1 ?t" by (simp add: same_machine_def)
  show thesis
  proof (rule that[of ?t])
    show "drop_areas a (vma_list ?mm) s = drop_areas a (vma_list (mmstruct (all_pro ?t a))) ?t"
      using v r(1) assms(1) by (subst drop_areas.simps) (simp add: upd_pcb_def)
    show "vma_inv (mmstruct (all_pro ?t a)) vs (ys @ [c]) ?t" using r(2) by (simp add: vma_inv_def)
    show "unmapped (mmu_indices ` area_pages [area (vmas s) c]) s ?t"
      using s1(2) same_machineD(4)[OF sm] ar by (simp add: area_pages_def)
    show "same_procs a s ?t"
      unfolding same_procs_def using m by (intro conjI exI[of _ "?mm\<lparr>vma_list := nextvma v\<rparr>"]) simp_all
  qed (simp add: areas_def r(3))
qed

lemma drop_areas_unmaps:
  fixes s :: "'a kernel"
  assumes "a < PROC_SIZE" and "vma_inv (mmstruct (all_pro s a)) xs ys s" and "pt_inv s"
    and "low_areas (areas (vmas s) xs)" and "\<forall>p \<in> area_pages (areas (vmas s) xs). counted s p"
  shows "\<exists>s'. drop_areas a (vma_list (mmstruct (all_pro s a))) s = Some (Inr s') \<and>
    vma_inv (mmstruct (all_pro s' a)) [] (ys @ xs) s' \<and> unmapped (mmu_indices ` area_pages (areas (vmas s) xs)) s s' \<and>
    same_procs a s s'"
  using assms(2-5)
proof (induction xs arbitrary: s ys)
  case Nil
  then have "vma_list (mmstruct (all_pro s a)) = 0" by (simp add: vma_inv_def)
  then show ?case
    using Nil.prems(1) unmapped_refl[OF Nil.prems(2), of "{}"] same_procs_refl[of a s]
    by (simp add: drop_areas.simps area_pages_def areas_def)
next
  case (Cons c vs)
  obtain t where t: "drop_areas a (vma_list (mmstruct (all_pro s a))) s = drop_areas a (vma_list (mmstruct (all_pro t a))) t"
      "vma_inv (mmstruct (all_pro t a)) vs (ys @ [c]) t" "areas (vmas t) vs = areas (vmas s) vs"
      "unmapped (mmu_indices ` area_pages [area (vmas s) c]) s t" "same_procs a s t"
    by (rule drop_head[OF assms(1) Cons.prems])
  let ?A = "mmu_indices ` area_pages [area (vmas s) c]" and ?B = "mmu_indices ` area_pages (areas (vmas s) vs)"
  have ar: "areas (vmas s) (c # vs) = area (vmas s) c # areas (vmas s) vs" by (simp add: areas_def)
  then have low: "low_areas [area (vmas s) c]" "low_areas (areas (vmas s) vs)"
    using Cons.prems(3) by (simp_all add: low_areas_def)
  have A: "?A \<subseteq> leaves" "?B \<subseteq> leaves" using area_leaves[OF low(1)] area_leaves[OF low(2)] idx_ok_indices by auto
  have "\<forall>p \<in> area_pages (areas (vmas s) vs). counted t p"
    using Cons.prems(4) counted_unmapped[OF t(4) A(1)] area_leaves[OF low(2)] unfolding ar by (simp add: area_pages_def)
  then obtain s' where s': "drop_areas a (vma_list (mmstruct (all_pro t a))) t = Some (Inr s')"
      "vma_inv (mmstruct (all_pro s' a)) [] ((ys @ [c]) @ vs) s'" "unmapped ?B t s'" "same_procs a t s'"
    using Cons.IH[OF t(2) unmappedD(1)[OF t(4)]] low(2) unfolding t(3) by blast
  have "unmapped (?A \<union> ?B) s s'" by (rule unmapped_trans[OF t(4) s'(3) A])
  moreover have "?A \<union> ?B = mmu_indices ` area_pages (areas (vmas s) (c # vs))" unfolding ar by (auto simp: area_pages_def)
  ultimately show ?case using t(1) s' same_procs_trans[OF t(5) s'(4)] by (intro exI[of _ s']) simp
qed

section \<open>Passing the processor on without an active process\<close>

text \<open>The scheduler reads the word at address 24, as the null pointer stands for the active process: the page is
  mapped on demand, and the word is 0.\<close>

lemma null_word:
  fixes s :: "'a machine_scheme"
  assumes "pt_inv s" and "8 \<le> totalblockcount s" and "translate s 24 = None"
  obtains s' where "kload32 24 s = Inr (0, s')" and "pt_inv s'" and "machine.more s' = machine.more s"
proof -
  have p1: "p1_index 24 \<noteq> 0x1FE" by (simp add: p1_index_def)
  obtain N s' where d: "demand 24 s = Inr s'" "pt_inv s'" "translate s' 24 = Some (N + take_bit 12 24)"
      "machine.more s' = machine.more s" "\<forall>d < 519. vload8 (push_bit 12 (drop_bit 12 24) + of_nat d) s' = Inr 0"
    by (rule demand_maps[OF assms(1,2) p1 assms(3)])
  have v: "vload8 (24 + of_nat k) s' = Inr 0" if "k < 4" for k
    using d(5)[rule_format, of "24 + k"] that by simp
  have ld: "kload8 (24 + of_nat k) s' = Inr (0, s')" if "k < 4" for k
    using v[OF that] by (cases "translate s' (24 + of_nat k)") (simp_all add: kload8_def vload8_def)
  have "kload8 24 s = Inr (0, s')" using d(1) assms(3) v[of 0] by (simp add: kload8_def)
  moreover have "[0..<4] = [0, 1, 2, 3 :: nat]" by (simp add: upt_rec)
  ultimately have "kload32 24 s = Inr (0, s')"
    using ld[of 1] ld[of 2] ld[of 3] by (simp add: kload32_def)
  then show thesis using that d(2,4) by blast
qed

lemma switch_to_waiter:
  fixes s :: "'a kernel"
  assumes "active s = None" and "pt_inv s" and "8 \<le> totalblockcount s" and "translate s 24 = None"
    and q: "ring_ok s" "\<forall>x \<in> set (ring s). entry_ok s x"
    and e: "ring s = skipped @ e # rest" "\<forall>x \<in> set skipped. \<not> runnable s x" "runnable s e"
    and p: "pstate (all_pro s (unat e)) = RUNNING" "waitstate (all_pro s (unat e)) = WAITING_TO_LIVE"
  obtains s' where "syscall_switch reg sp s = Inr (ResumeWait (k_stack (all_pro s (unat e))), s')"
    and "active s' = Some (unat e)" and "ring s' = rest" and "ring_ok s'" and "cr3 s' = pcr3 (all_pro s (unat e))"
    and "all_pro s' = all_pro s" and "proc_descriptor s' = proc_descriptor s"
proof -
  obtain s1 where s1: "kload32 24 s = Inr (0, s1)" "machine.more s1 = machine.more s"
    by (rule null_word[OF assms(2-4)])
  note m = kernel_more[OF s1(2)]
  have sv: "switch_save reg sp s = Inr s1" using assms(1) s1(1) by (simp add: switch_save_def)
  have r: "ring s1 = ring s" "ring_ok s1 = ring_ok s" by (rule ring_cong; rule m)+
  have same: "entry_ok s1 x = entry_ok s x" "runnable s1 x = runnable s x" for x
    by (simp_all add: entry_ok_def runnable_def m)
  obtain s2 where s2: "get_nextproc s1 = Inr (Some (unat e), s2)" "ring s2 = rest" "ring_ok s2"
      "all_pro s2 = all_pro s1" "proc_descriptor s2 = proc_descriptor s1"
    by (rule nextproc_chosen[of s1 skipped e rest]) (use q e r same in simp_all)
  let ?p = "all_pro s (unat e)"
  let ?s = "s2\<lparr>active := Some (unat e), tss_rsp0 := k_stackbase ?p, cr3 := pcr3 ?p, rsp := k_stack ?p\<rparr>"
  have "switch_loop reg sp s = Some (Inr (ResumeWait (k_stack ?p), ?s))"
    using sv s2(1,4) m(1) p by (subst switch_loop.simps) (simp add: Let_def set_tss_rsp_def change_ptable_def)
  then have "syscall_switch reg sp s = Inr (ResumeWait (k_stack ?p), ?s)" by (simp add: syscall_switch_def)
  moreover have "ring ?s = ring s2" "ring_ok ?s = ring_ok s2" by (rule ring_cong; simp)+
  ultimately show thesis using that[of ?s] s2 m by simp
qed

section \<open>The exit of a child\<close>

lemma find_pid_cong: "(\<And>i. pid (all_pro s' i) = pid (all_pro s i)) \<Longrightarrow> find_pid q s' = find_pid q s"
  by (simp add: find_pid_def)

lemma find_pid_found: "find_pid q s = i \<Longrightarrow> i < PROC_SIZE \<Longrightarrow> pid (all_pro s i) = q"
  by (auto simp: find_pid_def find_Some_iff split: option.splits)

text \<open>More free pages, more blocks in the count.\<close>

lemma unmapped_blocks:
  fixes s :: "'a machine_scheme"
  assumes "unmapped A s s'" and "pt_inv s"
  shows "totalblockcount s \<le> totalblockcount s'"
proof -
  have c: "card (set (pool t)) = nat (totalblockcount t + 1) \<and> 0 \<le> totalblockcount t" if "pt_inv t" for t :: "'a machine_scheme"
  proof -
    have p: "pmm_inv t" using that by (simp add: pt_inv_def)
    then have "inj_on (page_addr t) (set (free_blocks t))"
      using inj_on_page_addr[OF p] by (auto simp: pmm_inv_def intro: inj_on_subset)
    then have "distinct (pool t)" using p by (simp add: pool_def pmm_inv_def distinct_map)
    then have "card (set (pool t)) = length (pool t)" by (rule distinct_card)
    then show ?thesis using p length_free_blocks[of t] by (simp add: pool_def pmm_inv_def)
  qed
  have "set (pool s) \<subseteq> set (pool s')" using unmappedD(10)[OF assms(1)] by blast
  then have "card (set (pool s)) \<le> card (set (pool s'))" by (rule card_mono[rotated]) simp
  then show ?thesis using c[OF assms(2)] c[OF unmappedD(1)[OF assms(1)]] nat_le_eq_zle[of "totalblockcount s' + 1"] by linarith
qed

text \<open>The process control block of a process that has ended.\<close>

definition ended :: "PCB \<Rightarrow> PCB" where
  "ended p = p\<lparr>pstate := ZOMBIE, pcr3 := 0, fd := replicate MAX_FD 0, pname := Some [], currentDir := Some [],
     mmstruct := \<lparr>vma_list = 0\<rparr>\<rparr>"

lemma exit_releases:
  fixes s :: "'a kernel"
  assumes "active s = Some c" and "c < PROC_SIZE" and "unat (sno (all_pro s c)) = c"
    and "pname (all_pro s c) \<noteq> None" and "currentDir (all_pro s c) \<noteq> None"
    and "vma_inv (mmstruct (all_pro s c)) xs ys s" and "pt_inv s"
    and "low_areas (areas (vmas s) xs)" and "\<forall>p \<in> area_pages (areas (vmas s) xs). counted s p"
    and "find_pid (ppid (all_pro s c)) s = p" and "p < PROC_SIZE" and "p \<noteq> c"
  obtains t where "syscall_exit reg r s = syscall_switch reg (usersp r) t" and "active t = None"
    and "unmapped (mmu_indices ` area_pages (areas (vmas s) xs)) s t" and "vma_inv \<lparr>vma_list = 0\<rparr> [] (ys @ xs) t"
    and "all_pro t = (all_pro s)(c := ended (all_pro s c),
      p := (all_pro s p)\<lparr>sigchild_state := to_int32 (rdi r), signalling_child := pid (all_pro s c)\<rparr>)"
    and "proc_descriptor t = proc_descriptor s" and "ring t = ring s" and "ring_ok t = ring_ok s"
proof -
  let ?p = "(all_pro s c)\<lparr>pstate := ZOMBIE, pcr3 := 0, fd := replicate MAX_FD 0, pname := Some [], currentDir := Some []\<rparr>"
  let ?s1 = "s\<lparr>all_pro := (all_pro s)(c := ?p)\<rparr>"
  have sm1: "same_machine s ?s1" by (simp add: same_machine_def)
  have "vma_inv (mmstruct (all_pro ?s1 c)) xs ys ?s1" using assms(6) by (simp add: vma_inv_def)
  moreover have "pt_inv ?s1" "\<forall>p \<in> area_pages (areas (vmas ?s1) xs). counted ?s1 p"
    using assms(7,9) same_machineD(1,2)[OF sm1] by simp_all
  ultimately obtain s2 where s2: "drop_areas c (vma_list (mmstruct (all_pro ?s1 c))) ?s1 = Some (Inr s2)"
      "vma_inv (mmstruct (all_pro s2 c)) [] (ys @ xs) s2" "unmapped (mmu_indices ` area_pages (areas (vmas s) xs)) ?s1 s2"
      "same_procs c ?s1 s2"
    using drop_areas_unmaps[OF assms(2), of ?s1 xs ys] assms(8) by auto
  obtain mm where mm: "all_pro s2 = (all_pro ?s1)(c := ?p\<lparr>mmstruct := mm\<rparr>)"
    using s2(4) by (auto simp: same_procs_def)
  let ?s3 = "s2\<lparr>all_pro := (all_pro s)(c := ended (all_pro s c))\<rparr>"
  let ?t = "?s3\<lparr>all_pro := (all_pro ?s3)(p := (all_pro s p)\<lparr>sigchild_state := to_int32 (rdi r), signalling_child := pid (all_pro s c)\<rparr>),
    active := None\<rparr>"
  have "find_pid q ?s3 = find_pid q s" for q by (rule find_pid_cong) (simp add: ended_def)
  then have sg: "(signal_parent (ppid (all_pro s c)) (pid (all_pro s c)) (to_int32 (rdi r)) ?s3)\<lparr>active := None\<rparr> = ?t"
    using assms(10-12) by (simp add: signal_parent_def Let_def)
  have sm: "same_machine s2 ?t" by (simp add: same_machine_def)
  show thesis
  proof (rule that[of ?t])
    have "syscall_exit reg r s = rbind (Inr s2) (\<lambda>s. rbind (upd_pcb c (\<lambda>p. p\<lparr>mmstruct := \<lparr>vma_list = 0\<rparr>\<rparr>) s) (\<lambda>s.
        let s = signal_parent (ppid (all_pro s c)) (pid (all_pro s c)) (to_int32 (rdi r)) s
        in syscall_switch reg (usersp r) (s\<lparr>active := None\<rparr>)))"
      using assms(1-5) s2(1) by (auto simp: syscall_exit_def act_Some upd_pcb_def clear_names_def deref_def)
    then show "syscall_exit reg r s = syscall_switch reg (usersp r) ?t"
      using assms(2) sg by (simp add: upd_pcb_def mm Let_def ended_def)
    show "unmapped (mmu_indices ` area_pages (areas (vmas s) xs)) s ?t"
      using s2(3) same_machineD(3)[OF sm1] same_machineD(4)[OF sm] by simp
    show "vma_inv \<lparr>vma_list = 0\<rparr> [] (ys @ xs) ?t" using s2(2) by (simp add: vma_inv_def)
    show "ring ?t = ring s" "ring_ok ?t = ring_ok s"
      using s2(4) by (intro ring_cong; simp add: same_procs_def)+
  qed (use s2(4) in \<open>simp_all add: same_procs_def\<close>)
qed

section \<open>The end of the wait\<close>

text \<open>Eight bytes of a page, in the memory of the kernel and of programs.\<close>

definition holds_word :: "u64 \<Rightarrow> u64 \<Rightarrow> 'a machine_scheme \<Rightarrow> bool" where
  "holds_word a x s \<longleftrightarrow> (\<exists>b f e. rw_page b f s \<and> e + 8 \<le> 4096 \<and> a = b + of_nat e \<and> x = f + of_nat e)"

lemma store_word:
  fixes s :: "'a kernel"
  assumes "holds_word a x s"
  shows "kstore64 a v s = Inr (s\<lparr>pmem := store64 (pmem s) x v\<rparr>)"
    and "holds_word a' x' s \<Longrightarrow> holds_word a' x' (s\<lparr>pmem := store64 (pmem s) x v\<rparr>)"
proof -
  obtain b f e where e: "rw_page b f s" "e + 8 \<le> 4096" "a = b + of_nat e" "x = f + of_nat e"
    using assms by (auto simp: holds_word_def)
  show "kstore64 a v s = Inr (s\<lparr>pmem := store64 (pmem s) x v\<rparr>)"
    unfolding e(3,4) by (rule rw_page_kstore64(1)[OF e(1,2)])
  have "rw_page b' f' (s\<lparr>pmem := store64 (pmem s) x v\<rparr>)" if "rw_page b' f' s" for b' f'
    unfolding e(4) store64_upds by (rule rw_page_upds[OF that e(1)]) (use e(2) in auto)
  then show "holds_word a' x' s \<Longrightarrow> holds_word a' x' (s\<lparr>pmem := store64 (pmem s) x v\<rparr>)" unfolding holds_word_def by blast
qed

text \<open>The parent after the wait.\<close>

definition woken :: "u64 \<Rightarrow> gpr_t \<Rightarrow> PCB \<Rightarrow> PCB" where
  "woken reg r p = p\<lparr>waitstate := 0, k_stack := reg, u_stack := usersp r, sigchild_state := 5\<rparr>"

lemma wait_reaped:
  fixes s :: "'a kernel"
  assumes "active s = Some p" and "p < PROC_SIZE" and "child_done (all_pro s p)"
    and "find_pid (signalling_child (all_pro s p)) s = c" and "c < PROC_SIZE" and "c \<noteq> p" and "unat (sno (all_pro s c)) = c"
    and "holds_word (reg + off_rax) x s" and "holds_word (rsi r) y s"
  shows "wait_resume reg r s = Inr (Ret (signalling_child (all_pro s p)),
    s\<lparr>proc_descriptor := (proc_descriptor s)(c := 0), all_pro := (all_pro s)(c := pcb_zero, p := woken reg r (all_pro s p)),
      tss_rsp0 := k_stackbase (all_pro s p),
      pmem := store64 (store64 (pmem s) x (signalling_child (all_pro s p))) y 0\<rparr>)"
proof -
  have fp: "find_pid q (s\<lparr>all_pro := (all_pro s)(p := (all_pro s p)\<lparr>waitstate := 0\<rparr>)\<rparr>) = find_pid q s" for q
    by (rule find_pid_cong) simp
  let ?q = "(all_pro s p)\<lparr>waitstate := 0, k_stack := reg, u_stack := usersp r\<rparr>"
  let ?t = "s\<lparr>proc_descriptor := (proc_descriptor s)(c := 0), all_pro := (all_pro s)(c := pcb_zero, p := ?q),
      tss_rsp0 := k_stackbase (all_pro s p)\<rparr>"
  let ?u = "?t\<lparr>pmem := store64 (pmem ?t) x (signalling_child (all_pro s p))\<rparr>"
  have w: "holds_word (reg + off_rax) x ?t" "holds_word (rsi r) y ?t" using assms(8,9) by (simp_all add: holds_word_def rw_page_def)
  note st = store_word(1)[OF w(1), of "signalling_child (all_pro s p)"] store_word(2)[OF w, of "signalling_child (all_pro s p)"]
  have z: "sigchild_state (all_pro s p) = 0" using assms(3) by (simp add: child_done_def)
  have st2: "kstore64 (rsi r) 0 ?u = Inr (?u\<lparr>pmem := store64 (pmem ?u) y 0\<rparr>)" by (rule store_word(1)[OF st(2)])
  show ?thesis
    using assms(1-7) fp st(1) st2 z
    by (simp add: wait_resume_def act_Some upd_pcb_def set_descriptor_def set_tss_rsp_def Let_def woken_def)
qed

section \<open>Exit and wait\<close>

text \<open>C3. A child that ends wakes its parent: for a process whose memory areas lie below 2 GB, \<open>exit\<close> unmaps the
  pages of these areas and no others, which gives back every block whose last reference it was, puts the nodes of the
  areas on the recycle list, leaves a zombie without descriptors and names, and tells the parent which child has ended and
  with which status. When the parent waits and is the first runnable process of the queue, the scheduler
  goes on with it, on its own stack and in its own address space, and the condition of its loop
  holds for the status 0, and for no other status. What lies outside the areas is not given back: the stacks of the
  process, of which the user stack stays mapped in the address space that is left, and its page tables.\<close>

theorem exit_wakes_parent:
  fixes s :: "'a kernel"
  assumes child: "active s = Some c" "c < PROC_SIZE" "unat (sno (all_pro s c)) = c"
      "pname (all_pro s c) \<noteq> None" "currentDir (all_pro s c) \<noteq> None" "find_pid (pid (all_pro s c)) s = c"
    and memory: "vma_inv (mmstruct (all_pro s c)) xs ys s" "pt_inv s" "low_areas (areas (vmas s) xs)"
      "\<forall>p \<in> area_pages (areas (vmas s) xs). counted s p" "8 \<le> totalblockcount s" "translate s 24 = None"
    and parent: "find_pid (ppid (all_pro s c)) s = unat e" "unat e < PROC_SIZE" "unat e \<noteq> c"
      "pstate (all_pro s (unat e)) = RUNNING" "waitstate (all_pro s (unat e)) = WAITING_TO_LIVE"
      "waitingfor (all_pro s (unat e)) = -1 \<or> of_int (waitingfor (all_pro s (unat e))) = pid (all_pro s c)"
    and queue: "ring_ok s" "\<forall>x \<in> set (ring s). entry_ok s x" "ring s = skipped @ e # rest"
      "\<forall>x \<in> set skipped. \<not> runnable s x" "runnable s e"
  shows "\<exists>t s'. syscall_exit reg r s = syscall_switch reg (usersp r) t \<and> active t = None \<and>
    unmapped (mmu_indices ` area_pages (areas (vmas s) xs)) s t \<and> vma_inv \<lparr>vma_list = 0\<rparr> [] (ys @ xs) t \<and>
    syscall_switch reg (usersp r) t = Inr (ResumeWait (k_stack (all_pro s (unat e))), s') \<and>
    active s' = Some (unat e) \<and> cr3 s' = pcr3 (all_pro s (unat e)) \<and> ring s' = rest \<and> ring_ok s' \<and>
    proc_descriptor s' = proc_descriptor s \<and> all_pro s' = (all_pro s)(c := ended (all_pro s c),
      unat e := (all_pro s (unat e))\<lparr>sigchild_state := to_int32 (rdi r), signalling_child := pid (all_pro s c)\<rparr>) \<and>
    find_pid (signalling_child (all_pro s' (unat e))) s' = c \<and>
    (child_done (all_pro s' (unat e)) \<longleftrightarrow> to_int32 (rdi r) = 0)"
proof -
  let ?p = "unat e"
  obtain t where t: "syscall_exit reg r s = syscall_switch reg (usersp r) t" "active t = None"
      "unmapped (mmu_indices ` area_pages (areas (vmas s) xs)) s t" "vma_inv \<lparr>vma_list = 0\<rparr> [] (ys @ xs) t"
      "all_pro t = (all_pro s)(c := ended (all_pro s c),
        ?p := (all_pro s ?p)\<lparr>sigchild_state := to_int32 (rdi r), signalling_child := pid (all_pro s c)\<rparr>)"
      "proc_descriptor t = proc_descriptor s" "ring t = ring s" "ring_ok t = ring_ok s"
    by (rule exit_releases[OF child(1-5) memory(1-4) parent(1-3)])
  have blocks: "8 \<le> totalblockcount t" using unmapped_blocks[OF t(3) memory(2)] memory(5) by simp
  have "p1_index 24 \<noteq> 0x1FE" by (simp add: p1_index_def)
  then have null: "translate t 24 = None"
    using unmappedD(6)[OF t(3) idx_ok_indices] memory(6) by (auto simp: translate_def)
  have entries: "entry_ok t x = entry_ok s x" for x by (simp add: entry_ok_def t(5) ended_def)
  have runs: "runnable t x \<longrightarrow> runnable s x" "runnable t e = runnable s e" for x
    using parent(3) by (auto simp: runnable_def t(5,6) ended_def)
  obtain s' where s': "syscall_switch reg (usersp r) t = Inr (ResumeWait (k_stack (all_pro t ?p)), s')" "active s' = Some ?p"
      "ring s' = rest" "ring_ok s'" "cr3 s' = pcr3 (all_pro t ?p)" "all_pro s' = all_pro t" "proc_descriptor s' = proc_descriptor t"
    by (rule switch_to_waiter[OF t(2) unmappedD(1)[OF t(3)] blocks null, of skipped e rest])
      (use queue parent(4,5) runs entries t(5,7,8) in auto)
  have "find_pid (pid (all_pro s c)) s' = c"
    using child(6) find_pid_cong[of s' s] unfolding s'(6) t(5) by (simp add: ended_def)
  then show ?thesis
    using t s' parent(6) by (intro exI[of _ t] exI[of _ s']) (simp add: child_done_def)
qed

text \<open>Process 1, a child of process 0, ends; process 0 waits for any child and is in the queue.\<close>

definition kernel_exit :: tasks where
  "kernel_exit = kernel_user\<lparr>all_pro := pcb_small(0 := (pcb_small 0)\<lparr>waitstate := 1, waitingfor := -1\<rparr>), active := Some 1,
     proc_Q := (\<lambda>_. -1)(99 := 0), proc_start := 99, proc_end := 100\<rparr>"

lemma kernel_exit_machine: "same_machine (machine_on mem_user) kernel_exit"
proof -
  have tr: "machine.truncate kernel_user = machine_on mem_user"
    by (simp add: kernel_user_def kernel_dir_def kernel_small_def vfs.defs fs_small_def vmm.defs vm_small_def machine.defs machine_on_def)
  show ?thesis
    unfolding tr[symmetric] by (simp add: same_machine_def kernel_exit_def machine.defs)
qed

lemma kernel_exit_procs:
  "all_pro kernel_exit = pcb_small(0 := (pcb_small 0)\<lparr>waitstate := 1, waitingfor := -1\<rparr>)" "active kernel_exit = Some 1"
  "proc_descriptor kernel_exit = (\<lambda>i. if i < 3 then 1 else 0)" "vmas kernel_exit = vmas vm_small"
  "vma_recycle_list kernel_exit = 0x33" "kern_VA kernel_exit = 0x1000"
  by (simp_all add: kernel_exit_def kernel_user_def kernel_dir_def kernel_small_vmas)

lemma kernel_exit_ring: "ring_ok kernel_exit" "ring kernel_exit = [0]"
  by (simp_all add: kernel_exit_def ring_ok_def ring_def qlen_def)

lemma user_counted_all:
  assumes "p1_index a \<noteq> 0x1FE"
  shows "a = 0x400000 \<or> mmu_indices a \<noteq> mmu_indices 0x400000 \<Longrightarrow> counted (machine_on mem_user) a"
    and "mmu_indices a \<noteq> mmu_indices 0x400000 \<Longrightarrow> translate (machine_on mem_user) a = None"
proof -
  have no: "walk_to (machine_on mem_user) (mmu_indices a) = None" if "mmu_indices a \<noteq> mmu_indices 0x400000"
    using user_tree(5)[OF idx_ok_indices[OF assms]] that by simp
  then show "translate (machine_on mem_user) a = None" if "mmu_indices a \<noteq> mmu_indices 0x400000"
    using that by (simp add: translate_def)
  have "counted (machine_on mem_user) a" if "mmu_indices a \<noteq> mmu_indices 0x400000"
    using get_phys_addr_eq[OF user_tree(1) assms] leaf_entry[of "machine_on mem_user" a] no[OF that]
    by (auto simp: counted_def split: option.splits if_splits simp del: path.simps)
  then show "a = 0x400000 \<or> mmu_indices a \<noteq> mmu_indices 0x400000 \<Longrightarrow> counted (machine_on mem_user) a"
    using user_counted by blast
qed

lemma kernel_exit_counted: "\<forall>p \<in> area_pages [(0x400000, 0x401000), (0x500000, 0x600000)]. counted kernel_exit p"
proof
  fix p assume p: "p \<in> area_pages [(0x400000, 0x401000), (0x500000, 0x600000)]"
  have low: "low_areas [(0x400000, 0x401000), (0x500000, 0x600000)]" by (simp add: low_areas_def)
  note p1 = area_leaves[OF low p]
  obtain i where i: "p = of_nat (4096 * i)" "i = 1024 \<or> 1280 \<le> i \<and> i < 1536"
    using p by (auto simp: area_pages_def range_pages_def)
  have "mmu_indices p \<noteq> mmu_indices 0x400000" if "i \<noteq> 1024"
  proof
    assume "mmu_indices p = mmu_indices 0x400000"
    then have "unat (take_bit 9 (drop_bit 12 p)) = 0" by (simp add: mmu_indices_def)
    moreover have "unat p = 4096 * i" unfolding i(1) using i(2) by (intro unat_of_nat_small) auto
    ultimately have "i mod 512 = 0" by (simp add: unsigned_take_bit_eq take_bit_eq_mod unat_mod unat_drop12)
    then obtain k where "i = 512 * k" by (auto elim: dvdE simp: mod_eq_0_iff_dvd)
    then show False using i(2) that by (cases "k \<le> 2") auto
  qed
  then have "counted (machine_on mem_user) p" using user_counted_all(1)[OF p1] i(1) by (cases "i = 1024") auto
  then show "counted kernel_exit p" by (simp only: same_machine_fields(2)[OF kernel_exit_machine])
qed

lemma kernel_exit_null: "translate kernel_exit 24 = None"
proof -
  have "translate (machine_on mem_user) 24 = None"
    by (rule user_counted_all(2)) (simp_all add: p1_index_def mmu_indices_def)
  then show ?thesis using kernel_exit_machine by (simp add: translate_def same_machine_def del: path.simps)
qed

theorem exit_wakes_parent_witness:
  "\<exists>t s'. syscall_exit 0x8E00 (regs_small 0 0) kernel_exit = syscall_switch 0x8E00 (usersp (regs_small 0 0)) t \<and>
    unmapped (mmu_indices ` area_pages [(0x400000, 0x401000), (0x500000, 0x600000)]) kernel_exit t \<and>
    vma_inv \<lparr>vma_list = 0\<rparr> [] ([0x33] @ [0x11, 0x22]) t \<and>
    syscall_switch 0x8E00 (usersp (regs_small 0 0)) t = Inr (ResumeWait 0x8F00, s') \<and> active s' = Some 0 \<and>
    child_done (all_pro s' 0)"
proof -
  have ar: "areas (vmas kernel_exit) [0x11, 0x22] = [(0x400000, 0x401000), (0x500000, 0x600000)]"
    by (simp add: kernel_exit_procs areas_def area_def)
  have u: "[0..<100] = 0 # 1 # [2..<100 :: nat]"
    using upt_conv_Cons[of 0 100] upt_conv_Cons[of 1 100] by (simp only: One_nat_def numeral_2_eq_2)
  have "\<exists>t s'. syscall_exit 0x8E00 (regs_small 0 0) kernel_exit = syscall_switch 0x8E00 (usersp (regs_small 0 0)) t \<and> active t = None \<and>
    unmapped (mmu_indices ` area_pages (areas (vmas kernel_exit) [0x11, 0x22])) kernel_exit t \<and>
    vma_inv \<lparr>vma_list = 0\<rparr> [] ([0x33] @ [0x11, 0x22]) t \<and>
    syscall_switch 0x8E00 (usersp (regs_small 0 0)) t = Inr (ResumeWait (k_stack (all_pro kernel_exit (unat (0 :: u64)))), s') \<and>
    active s' = Some (unat (0 :: u64)) \<and> cr3 s' = pcr3 (all_pro kernel_exit (unat (0 :: u64))) \<and> ring s' = [] \<and> ring_ok s' \<and>
    proc_descriptor s' = proc_descriptor kernel_exit \<and> all_pro s' = (all_pro kernel_exit)(1 := ended (all_pro kernel_exit 1),
      unat (0 :: u64) := (all_pro kernel_exit (unat (0 :: u64)))\<lparr>sigchild_state := to_int32 (rdi (regs_small 0 0)),
        signalling_child := pid (all_pro kernel_exit 1)\<rparr>) \<and>
    find_pid (signalling_child (all_pro s' (unat (0 :: u64)))) s' = 1 \<and>
    (child_done (all_pro s' (unat (0 :: u64))) \<longleftrightarrow> to_int32 (rdi (regs_small 0 0)) = 0)"
  proof (rule exit_wakes_parent[where skipped = "[]"])
    show "pt_inv kernel_exit" using user_tree(1) by (simp only: same_machine_fields(1)[OF kernel_exit_machine])
    show "\<forall>p \<in> area_pages (areas (vmas kernel_exit) [0x11, 0x22]). counted kernel_exit p"
      unfolding ar by (rule kernel_exit_counted)
    show "8 \<le> totalblockcount kernel_exit" using kernel_exit_machine by (simp add: same_machine_def)
    show "translate kernel_exit 24 = None" by (rule kernel_exit_null)
    show "vma_inv (mmstruct (all_pro kernel_exit 1)) [0x11, 0x22] [0x33] kernel_exit"
      using vma_inv_small by (simp add: vma_inv_def kernel_exit_procs pcb_small_def)
    show "low_areas (areas (vmas kernel_exit) [0x11, 0x22])" unfolding ar by (simp add: low_areas_def)
  qed (simp_all add: kernel_exit_procs kernel_exit_ring pcb_small_def find_pid_def u entry_ok_def runnable_def)
  moreover have "k_stack (all_pro kernel_exit 0) = 0x8F00" "to_int32 (rdi (regs_small 0 0)) = 0" "unat (0 :: u64) = 0"
    by (simp_all add: kernel_exit_procs pcb_small_def regs_small_def to_int32_def)
  ultimately show ?thesis unfolding ar by (simp only: refl simp_thms) blast
qed


text \<open>C11. The end of a wait: when the parent goes on behind \<open>do_wait\<close> and the child it waits for has ended with
  status 0, the call returns the number of the child, stores it in the saved registers and the
  status behind the pointer, frees the slot of the child, and the parent no longer waits; no other process
  changes. Otherwise the parent waits again.\<close>

theorem wait_reaps:
  fixes s :: "'a kernel"
  assumes "active s = Some p" and "p < PROC_SIZE"
    and "find_pid (signalling_child (all_pro s p)) s = c" and "c < PROC_SIZE" and "c \<noteq> p" and "unat (sno (all_pro s c)) = c"
    and "holds_word (reg + off_rax) x s" and "holds_word (rsi r) y s"
  shows "wait_resume reg r s =
    (if child_done (all_pro s p)
     then Inr (Ret (signalling_child (all_pro s p)), s\<lparr>proc_descriptor := (proc_descriptor s)(c := 0),
       all_pro := (all_pro s)(c := pcb_zero, p := woken reg r (all_pro s p)), tss_rsp0 := k_stackbase (all_pro s p),
       pmem := store64 (store64 (pmem s) x (signalling_child (all_pro s p))) y 0\<rparr>)
     else do_wait reg r s)"
proof (cases "child_done (all_pro s p)")
  case True
  then show ?thesis using wait_reaped[OF assms(1,2) _ assms(3-8)] by simp
next
  case False
  then show ?thesis using assms(1,2) by (simp add: wait_resume_def act_Some)
qed

text \<open>Process 0 waits, and process 1 has ended.\<close>

definition kernel_wait :: tasks where
  "kernel_wait = kernel_user\<lparr>all_pro := pcb_small(0 := (pcb_small 0)\<lparr>waitstate := 1, waitingfor := -1, sigchild_state := 0,
     signalling_child := 2\<rparr>)\<rparr>"

theorem wait_reaps_witness:
  "\<exists>s'. wait_resume 0x400790 ((regs_small 0 0)\<lparr>rsi := 0x400900\<rparr>) kernel_wait = Inr (Ret 2, s') \<and>
    proc_descriptor s' 1 = 0 \<and> all_pro s' 1 = pcb_zero \<and> waitstate (all_pro s' 0) = 0"
proof -
  let ?r = "(regs_small 0 0)\<lparr>rsi := 0x400900\<rparr>"
  have pg: "rw_page 0x400000 0x21E000 kernel_wait" using kernel_user_page by (simp add: kernel_wait_def rw_page_def)
  have w: "holds_word (0x400000 + of_nat d) (0x21E000 + of_nat d) kernel_wait" if "d + 8 \<le> 4096" for d
    unfolding holds_word_def using pg that by blast
  have ap: "all_pro kernel_wait = pcb_small(0 := (pcb_small 0)\<lparr>waitstate := 1, waitingfor := -1, sigchild_state := 0, signalling_child := 2\<rparr>)"
      "active kernel_wait = Some 0"
    by (simp_all add: kernel_wait_def kernel_user_def kernel_dir_def)
  have u: "[0..<100] = 0 # 1 # [2..<100 :: nat]"
    using upt_conv_Cons[of 0 100] upt_conv_Cons[of 1 100] by (simp only: One_nat_def numeral_2_eq_2)
  have "wait_resume 0x400790 ?r kernel_wait = (if child_done (all_pro kernel_wait 0)
     then Inr (Ret (signalling_child (all_pro kernel_wait 0)), kernel_wait\<lparr>proc_descriptor := (proc_descriptor kernel_wait)(1 := 0),
       all_pro := (all_pro kernel_wait)(1 := pcb_zero, 0 := woken 0x400790 ?r (all_pro kernel_wait 0)),
       tss_rsp0 := k_stackbase (all_pro kernel_wait 0),
       pmem := store64 (store64 (pmem kernel_wait) 0x21E800 (signalling_child (all_pro kernel_wait 0))) 0x21E900 0\<rparr>)
     else do_wait 0x400790 ?r kernel_wait)"
  proof (rule wait_reaps)
    show "holds_word (0x400790 + off_rax) 0x21E800 kernel_wait" "holds_word (rsi ?r) 0x21E900 kernel_wait"
      using w[of "0x800"] w[of "0x900"] by simp_all
  qed (simp_all add: ap pcb_small_def find_pid_def u)
  then show ?thesis by (simp add: ap child_done_def pcb_small_def woken_def)
qed

end
