(* ===== verification/Unused.thy ===== *)
theory Unused
  imports Shell_Jobs
begin

text \<open>
  Functions that nothing in the system calls, in the kernel, the C library and the shell.
\<close>

section \<open>The kernel\<close>

definition dead :: "gpr_t \<Rightarrow> 'a kernel \<Rightarrow> (outcome \<times> 'a kernel) res" where
  "dead r s =
     rbind (say (''R %d, %d, %d, %d, %d, %d %d'' @ [CHR 0x0A])
       (map (\<lambda>v. VInt (to_int32 v)) [rax r, rdi r, rsi r, rdx r, r10 r, r9 r, r8 r]) s) (\<lambda>s.
     rbind (say (''Dead called'' @ [CHR 0x0A]) [] s) (\<lambda>s. Inr (Ret 12653712, s)))"

partial_function (option) walkthrough_loop :: "u64 \<Rightarrow> 'a kernel \<Rightarrow> 'a kernel res option" where
  "walkthrough_loop last_vma s =
     (if last_vma = 0 then Some (Inr s)
      else case vmas s last_vma of
        None \<Rightarrow> Some (Inl NullPointer)
      | Some v \<Rightarrow>
          (case say (''walk vma [%p - %p]'' @ [CHR 0x0A]) [VU64 (vstart v), VU64 (vend v)] s of
             Inl e \<Rightarrow> Some (Inl e)
           | Inr s \<Rightarrow> walkthrough_loop (nextvma v) s))"

definition walkthrough_vma_list :: "nat \<Rightarrow> 'a kernel \<Rightarrow> 'a kernel res" where
  "walkthrough_vma_list task s =
     rbind (get_pcb task s) (\<lambda>p. run_loop (walkthrough_loop (vma_list (mmstruct p)) s))"

text \<open>Vectors of pointers in user memory: \<open>src[i]\<close> is at \<open>src + 8 * i\<close>.\<close>

fun copy_args_loop :: "u64 \<Rightarrow> u64 \<Rightarrow> nat \<Rightarrow> nat \<Rightarrow> 'a kernel \<Rightarrow> (nat \<times> 'a kernel) res" where
  "copy_args_loop src tgt i 0 s = Inr (i, s)"
| "copy_args_loop src tgt i (Suc k) s =
     rbind (kload64 (src + 8 * of_nat i) s) (\<lambda>(p, s).
       if p = 0 then Inr (i, s)
       else
         rbind (read_cstr p s) (\<lambda>(str, s).
         rbind (kload64 (tgt + 8 * of_nat i) s) (\<lambda>(q, s).
         rbind (strcpy_to str q s) (copy_args_loop src tgt (i + 1) k))))"

definition copy_args :: "u64 \<Rightarrow> u64 \<Rightarrow> nat \<Rightarrow> 'a kernel \<Rightarrow> 'a kernel res" where
  "copy_args src tgt ctr s =
     rbind (copy_args_loop src tgt 0 ctr s) (\<lambda>(i, s). kstore64 (tgt + 8 * of_nat i) 0 s)"

definition cpy_filename2args :: "u64 \<Rightarrow> u64 \<Rightarrow> nat \<Rightarrow> 'a kernel \<Rightarrow> 'a kernel res" where
  "cpy_filename2args nm args args_ctr s =
     rbind (rfold (\<lambda>i s. rbind (kload64 (args + 8 * of_nat (i - 1)) s) (\<lambda>(p, s). kstore64 (args + 8 * of_nat i) p s))
       (rev [1..<args_ctr + 1]) s) (kstore64 args nm)"

section \<open>The C library\<close>

text \<open>
  The instruction \<open>syscall\<close>, which the kernel does not enable, is the parameter \<open>insn\<close>.
\<close>

definition trap :: "(gpr_t \<Rightarrow> 'a kernel \<Rightarrow> (outcome \<times> 'a kernel) res) \<Rightarrow> 'u user_scheme \<Rightarrow> (gpr_t \<Rightarrow> gpr_t) \<Rightarrow>
    'a kernel \<Rightarrow> (u64, 'a) ures" where
  "trap insn u f s =
     rbind (insn (f (uregs u)) s) (\<lambda>(out, s). Inr (case out of Ret v \<Rightarrow> Inr v | _ \<Rightarrow> Inl out, s))"

definition getpid :: "(gpr_t \<Rightarrow> 'a kernel \<Rightarrow> (outcome \<times> 'a kernel) res) \<Rightarrow> 'u user_scheme \<Rightarrow> 'a kernel \<Rightarrow> (u64, 'a) ures" where
  "getpid insn u s = trap insn u (\<lambda>r. r\<lparr>rax := 39\<rparr>) s"

definition pipe :: "(gpr_t \<Rightarrow> 'a kernel \<Rightarrow> (outcome \<times> 'a kernel) res) \<Rightarrow> 'u user_scheme \<Rightarrow> u64 \<Rightarrow> 'a kernel \<Rightarrow> (int, 'a) ures" where
  "pipe insn u pipefd s = ubind (trap insn u (\<lambda>r. r\<lparr>rax := 22, rdi := pipefd\<rparr>) s) (\<lambda>v. ureturn (to_int32 v))"

section \<open>Pipes of the shell\<close>

text \<open>
  \<open>ends\<close> is the address of the array of two descriptors. A child replaces the descriptor \<open>std\<close> by the end \<open>k\<close> of the
  pipe and closes both ends, the other one first.
\<close>

definition close_end :: "'u program_scheme \<Rightarrow> u64 \<Rightarrow> nat \<Rightarrow> 'a kernel \<Rightarrow> (int, 'a) ures" where
  "close_end u ends k s = rbind (uload32 (ends + 4 * of_nat k) s) (\<lambda>(d, s). close u (junk u) d s)"

definition pipe_child :: "'u program_scheme \<Rightarrow> u64 \<Rightarrow> int \<Rightarrow> nat \<Rightarrow> 'a kernel \<Rightarrow> (unit, 'a) ures" where
  "pipe_child u ends std k s =
     ubind (close u (junk u) std s) (\<lambda>_ s.
     rbind (uload32 (ends + 4 * of_nat k) s) (\<lambda>(d, s).
     ubind (dup2 u (slot u) s) (\<lambda>_ s.
     ubind (close_end u ends (1 - k) s) (\<lambda>_ s.
     ubind (close_end u ends k s) (\<lambda>_ s.
     ubind (execvp u (slot u) s) (\<lambda>_. exit u 1))))))"

definition ExecutePipe :: "(gpr_t \<Rightarrow> 'a kernel \<Rightarrow> (outcome \<times> 'a kernel) res) \<Rightarrow> 'u program_scheme \<Rightarrow> u64 \<Rightarrow>
    'a kernel \<Rightarrow> (unit, 'a) ures" where
  "ExecutePipe insn u ends s =
     ubind (pipe insn u ends s) (\<lambda>r s.
     ubind (if r = -1 then exit u 1 s else ureturn () s) (\<lambda>_ s.
     ubind (fork u s) (\<lambda>c s.
     ubind (if c = 0 then pipe_child u ends 1 1 s else ureturn () s) (\<lambda>_ s.
     ubind (fork u s) (\<lambda>c s.
     ubind (if c = 0 then pipe_child u ends 0 0 s else ureturn () s) (\<lambda>_ s.
     ubind (close_end u ends 0 s) (\<lambda>_ s.
     ubind (close_end u ends 1 s) (\<lambda>_ s.
     ubind (wait u (junk u) 0 s) (\<lambda>_ s.
     ubind (wait u (junk u) 0 s) (\<lambda>_. ureturn ()))))))))))"

end
