(* ===== verification/Spec2Isabelle.thy ===== *)
theory Spec2Isabelle
  imports Mount_Spec Shell_Spec Shell_Jobs_Spec Tools_Spec Boot_Spec File_Read_Spec Exit_Spec Unused
begin

text \<open>
  A verification development for the 64-bit x86 teaching kernel in \<open>src/\<close>.

  The program. \<open>sys/\<close> holds the kernel: a physical page allocator
  (\<open>phy_mem_manager.c\<close>), four-level page tables reached through a recursive window
  (\<open>paging.c\<close>), kernel heap and memory areas (\<open>virt_mem.c\<close>), an in-memory file system built
  from an archive that is linked into the kernel (\<open>vfs.c\<close>, \<open>tarfs.c\<close>), processes and the run
  queue (\<open>task_manager.c\<close>), the system calls (\<open>syscall.c\<close>), the interrupt handlers
  (\<open>yomama.c\<close>, \<open>error.c\<close>), and console, keyboard and terminal (\<open>kprintf.c\<close>, \<open>keyboardMap.c\<close>, \<open>terminal.c\<close>).
  \<open>main.c\<close> boots it. \<open>libc/\<close> and \<open>crt/\<close> hold the user mode library and its start code, \<open>bin/\<close> a shell, \<open>sbush\<close>, and
  the tools it starts.

  The state. Each layer extends the record of the layer below, so that one state carries
  everything and an operation of a lower layer applies to the state of every higher one:
  \<^item> \<open>pmm\<close> (\<open>Phys_Mem\<close>): the allocator's list of blocks and its counters;
  \<^item> \<open>machine\<close> (\<open>Machine\<close>): physical memory byte by byte and the root register \<open>cr3\<close>;
  \<^item> \<open>vmm\<close> (\<open>Virt_Mem\<close>): the top of the kernel heap and the memory area nodes;
  \<^item> \<open>vfs\<close> (\<open>Vfs\<close>): inodes and directory objects;
  \<^item> \<open>tasks\<close> (\<open>Tasks\<close>): process table, run queue, console, file objects, stack pointers.
  Objects from the kernel heap live in typed heaps under their addresses; user memory,
  stacks and page tables are bytes of physical memory, reached through the processor's
  translation. A C \<open>int\<close> is an \<open>int\<close>, \<open>uint64_t\<close> is a 64-bit word.

  Errors. A fallible operation returns \<open>stop + 'a\<close>: the constructors of \<open>stop\<close> are the kernel's
  spin loops and the accesses and the arithmetic that C leaves undefined. A loop that may not end is a partial
  function whose value \<open>None\<close> becomes \<open>Unterminated\<close>.

  The theories, in the order of the dependencies:
  \<^item> \<open>Kernel_Prelude\<close>, \<open>C_Strings\<close>, \<open>Linked_List\<close>: integers, results, strings, and linked lists with
    the interface \<open>list_node\<close>, which is interpreted for memory areas, directory objects and the shell's
    background processes;
  \<^item> \<open>Phys_Mem\<close>: the allocator, the interface \<open>page_allocator\<close> and its interpretation; pages in use
    are never handed out;
  \<^item> \<open>Machine\<close>, \<open>Page_Tables\<close>, \<open>Paging\<close>, \<open>Paging_Spec\<close>: the processor's walk, the recursive window,
    mapping, unmapping, copy on write, each with its effect on one page and its frame;
  \<^item> \<open>Virt_Mem\<close>, \<open>Virt_Mem_Spec\<close>: the heap and what happens at the end of the address space, the areas of a
    process as a list of intervals, ranges;
  \<^item> \<open>Unmap_Spec\<close>: unmapping a range: which pages are still mapped, how many references each block loses,
    and which blocks become free; the reference counts keep covering the mappings;
  \<^item> \<open>Kstring\<close>, \<open>Vfs\<close>, \<open>Vfs_Spec\<close>: words of a string, path lookup and insertion, octal numbers, and
    the end of the archive scan;
  \<^item> \<open>Mount_Spec\<close>: mounting an archive gives a tree of inodes: every inode is reached from the root, has one
    parent that it names itself, and is found under its own name;
  \<^item> \<open>Console\<close>, \<open>Console_Spec\<close>: screen, keyboard, terminal and clock;
  \<^item> \<open>Tasks\<close>, \<open>Tasks_Spec\<close>: creation of processes, the program loader, and the run queue with the
    interface \<open>bounded_fifo\<close> and its interpretation on the ring buffer, and \<open>service_queue\<close> with its
    interpretation on \<open>enqueue\<close> and \<open>get_nextproc\<close>: any sequence of both against a plain list;
  \<^item> \<open>Syscalls\<close>, \<open>File_Syscalls\<close>: the handlers of the system call table;
  \<^item> \<open>Syscalls_Spec\<close>, \<open>File_Syscalls_Spec\<close>: the scheduler is a fair round robin, a memory request gives
    a fresh area, a directory is read entry by entry, a file gets the lowest free descriptor;
  \<^item> \<open>Interrupts\<close>, \<open>Interrupts_Spec\<close>: dispatch of system calls, page faults and keys; a page fault of
    user code maps a page exactly when the address is in an area of the process;
  \<^item> \<open>User_Mode\<close>, \<open>User_Mode_Spec\<close>: memory accesses and system calls of user programs; a store to a shared
    page goes to a private copy, and a system call returns its result in \<open>rax\<close>;
  \<^item> \<open>Libc\<close>, \<open>Libc_Spec\<close>: the C library of user programs on top of \<open>int 0x80\<close>;
  \<^item> \<open>Devices\<close>: descriptor tables, interrupt controllers and timer;
  \<^item> \<open>Boot\<close>, \<open>Boot_Spec\<close>: \<open>main.c\<close>; the loops over the boot loader's records end and give the allocator the
    pages of the usable region;
  \<^item> \<open>Programs\<close>, \<open>Programs_Spec\<close>: what user programs share: their strings in user memory, the arguments and the
    start code; the functions that print a text have the contract \<open>text_output\<close>, and \<open>text_loop\<close> for a text in
    memory, with interpretations for \<open>puts\<close> and both output functions of the shell;
  \<^item> \<open>Input_Spec\<close>, \<open>File_Read_Spec\<close>: what \<open>gets\<close> and \<open>read\<close> put into the memory of a program: the line that
    the keys make, from the keyboard interrupts on, and the next bytes of an open file;
  \<^item> \<open>Exit_Spec\<close>: \<open>exit\<close> and \<open>wait\<close>: a process that ends gives back the pages of its memory areas, though not its
    stacks and page tables, and wakes its parent, and the parent frees the slot of the child; this composes the memory areas, the page tables, the run queue and
    the scheduler;
  \<^item> \<open>Shell\<close>, \<open>Shell_Spec\<close>: the shell: reading a line, words, built-in commands, programs, scripts, the prompt;
    what it prints, what \<open>cd\<close> does, and which lines it accepts;
  \<^item> \<open>Shell_Jobs\<close>, \<open>Shell_Jobs_Spec\<close>: background processes, pipe commands and the environment functions of the
    shell; the list of background processes against a plain list, and the parser of pipe commands;
  \<^item> \<open>Tools\<close>, \<open>Tools_Spec\<close>: \<open>ls\<close>, \<open>cat\<close>, \<open>echo\<close>, \<open>kill\<close>, \<open>ps\<close> and \<open>helloworld\<close>; \<open>ls\<close> prints the names of the
    entries of a directory, \<open>echo\<close> its argument, and \<open>kill\<close> reads the numbers that \<open>ps\<close> prints;
  \<^item> \<open>Unused\<close>: functions of the kernel, the library and the shell that nothing calls, among them \<open>ExecutePipe\<close>.

  User programs. The state of a program extends the kernel state seen from user mode (\<open>user\<close>) by the addresses of
  its string literals and buffers; a program's memory is reached through the page tables, with page faults handled
  by the kernel's own handler. The shell reads scripts that may call scripts: \<open>Execute\<close> takes
  fuel that bounds the depth of the calls, and stops with \<open>Unterminated\<close> without it; a command that is not a
  script needs one unit.

  Control transfer. A handler that changes the stack by inline assembly does not return to
  its caller; its result of type \<open>outcome\<close> says where the processor goes on. The loop of
  \<open>syscall_wait\<close> is cut at the point where the process is suspended: \<open>syscall_wait\<close> is the code up
  to it, \<open>wait_resume\<close> the code behind it. Keyboard interrupts during a read are the list
  \<open>keys\<close> of the state. A function of the C library has the result \<open>Inl out\<close> when its process leaves
  the processor inside a system call.

  Not modelled. Translation caches: every access walks the current tables. Write protection
  for kernel code: the kernel runs with it off. Messages that lower layers print before they
  spin. The assembler stubs. The disk controller: the header \<open>ahci.h\<close> has no code that uses
  it. The instruction \<open>syscall\<close>, which the kernel does not enable: it is a parameter of \<open>getpid\<close>, \<open>pipe\<close> and
  \<open>ExecutePipe\<close>. Code behind unconditional returns in \<open>bin/sbush\<close>, and \<open>bin/sbush/sbush.c\<close>, a
  collection of tests that nothing calls.
\<close>

end
